(* ===== verification/Mih_Prelude.thy ===== *)
theory Mih_Prelude
  imports Main "HOL-Library.Word"
begin

text \<open>
  Shared vocabulary of the development: machine integers of the C sources, the
  outcome of running a piece of C code (a value, or a fault standing for undefined
  behaviour), byte buffers with bounds and initialisation, and the C library
  routines the sources call on them. The collections \<open>c_outcome\<close> and
  \<open>c_memory\<close> carry the component proofs.
\<close>

unbundle bit_operations_syntax

named_theorems c_outcome \<open>running C code: sequencing of outcomes\<close>
named_theorems c_memory \<open>reads, writes and copies in a byte buffer\<close>

section \<open>Machine integers\<close>

type_synonym u8 = "8 word"
type_synonym u16 = "16 word"
type_synonym u32 = "32 word"

text \<open>
  A C \<open>int\<close> is a HOL \<open>int\<close>; a result that may leave the 32-bit range is passed
  through \<open>int32\<close>, which wraps it around (the kernel is compiled with wrapping signed
  arithmetic). \<open>size_of_int\<close> is the conversion of an \<open>int\<close> argument to \<open>size_t\<close>
  on a 64-bit kernel: a negative value becomes a huge one.
\<close>

definition int32 :: "int \<Rightarrow> int" where
  "int32 x = (x + 2 ^ 31) mod 2 ^ 32 - 2 ^ 31"

definition size_of_int :: "int \<Rightarrow> nat" where
  "size_of_int x = nat (x mod 2 ^ 64)"

lemma int32_id [simp]: "- (2 ^ 31) \<le> x \<Longrightarrow> x < 2 ^ 31 \<Longrightarrow> int32 x = x"
  by (simp add: int32_def)

lemma int32_range: "- (2 ^ 31) \<le> int32 x \<and> int32 x < 2 ^ 31"
proof -
  have "0 \<le> (x + 2 ^ 31) mod (2 ^ 32 :: int)" and "(x + 2 ^ 31) mod (2 ^ 32 :: int) < 2 ^ 32"
    by simp_all
  then show ?thesis by (simp add: int32_def)
qed

lemma int32_nonneg:
  assumes "- (2 ^ 31) \<le> x" and "x < 2 ^ 32" and "0 \<le> int32 x"
  shows "int32 x = x" and "x < 2 ^ 31"
proof -
  show "x < 2 ^ 31"
  proof (rule ccontr)
    assume big: "\<not> x < 2 ^ 31"
    have "(x + 2 ^ 31) mod 2 ^ 32 = (x - 2 ^ 31 + 2 ^ 32) mod 2 ^ 32" by (simp add: add.commute)
    also have "\<dots> = (x - 2 ^ 31) mod 2 ^ 32" by (rule mod_add_self2)
    also have "\<dots> = x - 2 ^ 31" using big assms(2) by (intro mod_pos_pos_trivial) simp_all
    finally have "int32 x = x - 2 ^ 32" by (simp add: int32_def)
    with assms(2,3) show False by simp
  qed
  with assms(1) show "int32 x = x" by (rule int32_id)
qed

lemma sint_range32: "- (2 ^ 31) \<le> sint (v :: u32) \<and> sint v < 2 ^ 31"
  using sint_greater_eq [of v] sint_less [of v] by simp

lemma size_of_int_nonneg [simp]: "0 \<le> x \<Longrightarrow> x < 2 ^ 64 \<Longrightarrow> size_of_int x = nat x"
  by (simp add: size_of_int_def)

lemma size_of_int_neg: "x < 0 \<Longrightarrow> - (2 ^ 31) \<le> x \<Longrightarrow> size_of_int x = nat (x + 2 ^ 64)"
proof -
  assume neg: "x < 0" and lo: "- (2 ^ 31) \<le> x"
  have "x mod 2 ^ 64 = (x + 2 ^ 64) mod 2 ^ 64" by simp
  also have "\<dots> = x + 2 ^ 64" using neg lo by (intro mod_pos_pos_trivial) simp_all
  finally show ?thesis by (simp add: size_of_int_def)
qed

section \<open>Outcomes of C code\<close>

text \<open>
  \<open>Fault\<close> stands for undefined behaviour (or for a call that can never return):
  an access outside its block, a read of an indeterminate value, a null dereference,
  a release of a block that is not allocated, a spin lock taken twice by its holder,
  a loop that never ends. No theorem below concludes anything from a fault.
\<close>

datatype fault = OutOfBounds | Uninit | NullDeref | BadFree | Deadlock | Diverge

datatype 'a cres = Ok 'a | Fault fault

fun cbind :: "'a cres \<Rightarrow> ('a \<Rightarrow> 'b cres) \<Rightarrow> 'b cres" where
  "cbind (Ok x) f = f x"
| "cbind (Fault e) f = Fault e"

lemma cbind_cong [fundef_cong]:
  "m = n \<Longrightarrow> (\<And>x. n = Ok x \<Longrightarrow> f x = g x) \<Longrightarrow> cbind m f = cbind n g"
  by (cases n) simp_all

lemma cbind_Ok_iff [c_outcome]: "cbind m f = Ok y \<longleftrightarrow> (\<exists>x. m = Ok x \<and> f x = Ok y)"
  by (cases m) simp_all

lemma cbind_OkE:
  assumes "cbind m f = Ok y"
  obtains x where "m = Ok x" and "f x = Ok y"
  using assms by (cases m) simp_all

lemma cbind_assoc [c_outcome]: "cbind (cbind m f) g = cbind m (\<lambda>x. cbind (f x) g)"
  by (cases m) simp_all

lemma cbind_right_unit [simp]: "cbind m Ok = m"
  by (cases m) simp_all

definition safe :: "'a cres \<Rightarrow> bool" where
  "safe m = (case m of Ok _ \<Rightarrow> True | Fault _ \<Rightarrow> False)"

lemma safe_Ok [simp]: "safe (Ok x)"
  by (simp add: safe_def)

lemma safe_Fault [simp]: "\<not> safe (Fault e)"
  by (simp add: safe_def)

section \<open>Byte buffers\<close>

text \<open>
  A buffer is the list of the cells of one block; \<open>None\<close> is a cell that was
  allocated but never written. A pointer into a block is the block's cells and an
  offset, passed as two arguments.
\<close>

type_synonym mem = "u8 option list"

definition mem_read :: "mem \<Rightarrow> nat \<Rightarrow> u8 cres" where
  "mem_read m i =
     (if i < length m then (case m ! i of Some b \<Rightarrow> Ok b | None \<Rightarrow> Fault Uninit)
      else Fault OutOfBounds)"

definition mem_write :: "mem \<Rightarrow> nat \<Rightarrow> u8 \<Rightarrow> mem cres" where
  "mem_write m i v = (if i < length m then Ok (m[i := Some v]) else Fault OutOfBounds)"

text \<open>\<open>memcpy(&dst[d], &src[s], n)\<close>: copies cells, also indeterminate ones.\<close>

definition memcpy :: "mem \<Rightarrow> nat \<Rightarrow> mem \<Rightarrow> nat \<Rightarrow> nat \<Rightarrow> mem cres" where
  "memcpy dst d src s n =
     (if d + n \<le> length dst \<and> s + n \<le> length src
      then Ok (take d dst @ take n (drop s src) @ drop (d + n) dst)
      else Fault OutOfBounds)"

text \<open>The bytes of a buffer from an offset on: what a sequence of writes leaves there.\<close>

definition holds :: "mem \<Rightarrow> nat \<Rightarrow> u8 list \<Rightarrow> bool" where
  "holds m i bs \<longleftrightarrow> i + length bs \<le> length m \<and> take (length bs) (drop i m) = map Some bs"

definition blit :: "mem \<Rightarrow> nat \<Rightarrow> u8 list \<Rightarrow> mem" where
  "blit m i bs = take i m @ map Some bs @ drop (i + length bs) m"

lemma length_blit [simp]: "i + length bs \<le> length m \<Longrightarrow> length (blit m i bs) = length m"
  by (simp add: blit_def)

lemma blit_Nil [simp]: "blit m i [] = m"
  by (simp add: blit_def)

lemma take_blit [c_memory]: "j \<le> i \<Longrightarrow> i \<le> length m \<Longrightarrow> take j (blit m i bs) = take j m"
  by (simp add: blit_def)

lemma drop_blit [c_memory]:
  "i + length bs \<le> j \<Longrightarrow> i + length bs \<le> length m \<Longrightarrow> drop j (blit m i bs) = drop j m"
  by (simp add: blit_def)

lemma nth_blit:
  "i + length bs \<le> length m \<Longrightarrow> k < length m \<Longrightarrow>
   blit m i bs ! k = (if i \<le> k \<and> k < i + length bs then Some (bs ! (k - i)) else m ! k)"
  by (auto simp: blit_def nth_append)

lemma blit_blit [c_memory]:
  assumes "i + length bs + length cs \<le> length m" and "j = i + length bs"
  shows "blit (blit m i bs) j cs = blit m i (bs @ cs)"
  using assms by (intro nth_equalityI) (auto simp: nth_blit nth_append)

lemma holds_blit [simp]: "i + length bs \<le> length m \<Longrightarrow> holds (blit m i bs) i bs"
  by (simp add: holds_def blit_def)

lemma mem_write_blit [c_memory]:
  "i < length m \<Longrightarrow> mem_write m i v = Ok (blit m i [v])"
  by (auto simp: mem_write_def blit_def upd_conv_take_nth_drop)

lemma holds_append [c_memory]:
  "holds m i (bs @ cs) \<longleftrightarrow> holds m i bs \<and> holds m (i + length bs) cs"
proof (cases "i + length bs + length cs \<le> length m")
  case True
  have "take (length bs + length cs) (drop i m)
      = take (length bs) (drop i m) @ take (length cs) (drop (i + length bs) m)"
    by (simp add: take_add add.commute)
  moreover have "length (take (length bs) (drop i m)) = length (map Some bs)"
    using True by simp
  ultimately show ?thesis
    using True by (simp add: holds_def add.assoc)
next
  case False
  then show ?thesis by (simp add: holds_def)
qed

lemma holds_Cons [c_memory]:
  "holds m i (b # bs) \<longleftrightarrow> mem_read m i = Ok b \<and> holds m (Suc i) bs"
proof (cases "i < length m")
  case True
  then have "drop i m = m ! i # drop (Suc i) m"
    by (rule Cons_nth_drop_Suc [symmetric])
  with True show ?thesis
    by (auto simp: holds_def mem_read_def split: option.splits)
next
  case False
  then show ?thesis by (simp add: holds_def mem_read_def)
qed

lemma holds_read: "holds m i bs \<Longrightarrow> k < length bs \<Longrightarrow> mem_read m (i + k) = Ok (bs ! k)"
proof (induction bs arbitrary: i k)
  case Nil
  then show ?case by simp
next
  case (Cons b bs)
  from Cons.prems(1) have rd: "mem_read m i = Ok b" and rest: "holds m (Suc i) bs"
    by (simp_all add: holds_Cons)
  show ?case
  proof (cases k)
    case 0
    with rd show ?thesis by simp
  next
    case (Suc j)
    with Cons.prems(2) have "mem_read m (Suc i + j) = Ok (bs ! j)"
      by (intro Cons.IH rest) simp
    with Suc show ?thesis by simp
  qed
qed

lemma memcpy_blit [c_memory]:
  "holds src s bs \<Longrightarrow> n = length bs \<Longrightarrow> d + length bs \<le> length dst \<Longrightarrow>
   memcpy dst d src s n = Ok (blit dst d bs)"
  by (simp add: memcpy_def blit_def holds_def)

lemma memcpy_safe: "memcpy dst d src s n = Ok m \<Longrightarrow>
   d + n \<le> length dst \<and> s + n \<le> length src \<and> length m = length dst"
  by (auto simp: memcpy_def split: if_splits)

lemma blit_whole: "length m = length bs \<Longrightarrow> blit m 0 bs = map Some bs"
  by (simp add: blit_def)

text \<open>A buffer of which nothing changed but the \<open>n\<close> cells at \<open>p\<close>.\<close>

definition confined :: "mem \<Rightarrow> nat \<Rightarrow> nat \<Rightarrow> mem \<Rightarrow> bool" where
  "confined m p n m' \<longleftrightarrow>
     length m' = length m \<and> take p m' = take p m \<and> drop (p + n) m' = drop (p + n) m"

lemma confined_refl [simp]: "confined m p n m"
  by (simp add: confined_def)

lemma confined_length: "confined m p n m' \<Longrightarrow> length m' = length m"
  by (simp add: confined_def)

lemma confined_blit:
  "p \<le> i \<Longrightarrow> i + length bs \<le> p + n \<Longrightarrow> p + n \<le> length m \<Longrightarrow> confined m p n (blit m i bs)"
  by (simp add: confined_def take_blit drop_blit)

lemma drop_mono_eq: "drop i xs = drop i ys \<Longrightarrow> i \<le> j \<Longrightarrow> drop j xs = drop j ys"
  by (metis drop_drop le_add_diff_inverse2)

lemma take_mono_eq: "take i xs = take i ys \<Longrightarrow> j \<le> i \<Longrightarrow> take j xs = take j ys"
  by (metis min.absorb1 take_take)

lemma confined_mono:
  "confined m p n m' \<Longrightarrow> q \<le> p \<Longrightarrow> p + n \<le> q + k \<Longrightarrow> confined m q k m'"
  by (auto simp: confined_def intro: drop_mono_eq take_mono_eq)

lemma confined_trans:
  "confined m p n m' \<Longrightarrow> confined m' p n m'' \<Longrightarrow> confined m p n m''"
  by (simp add: confined_def)

section \<open>C strings\<close>

text \<open>
  \<open>cstring\<close> is the content of a null-terminated string, read up to its terminator as
  \<open>strlen\<close> reads it; \<open>c_strcmp\<close> stops at the first difference, as \<open>strcmp\<close> does.
\<close>

fun cstring :: "mem \<Rightarrow> u8 list cres" where
  "cstring [] = Fault OutOfBounds"
| "cstring (None # m) = Fault Uninit"
| "cstring (Some b # m) = (if b = 0 then Ok [] else cbind (cstring m) (\<lambda>bs. Ok (b # bs)))"

fun c_strcmp :: "mem \<Rightarrow> mem \<Rightarrow> int cres" where
  "c_strcmp (Some a # as) (Some b # bs) =
     (if a \<noteq> b then Ok (if a < b then - 1 else 1)
      else if a = 0 then Ok 0 else c_strcmp as bs)"
| "c_strcmp [] m = Fault OutOfBounds"
| "c_strcmp (None # as) m = Fault Uninit"
| "c_strcmp m [] = Fault OutOfBounds"
| "c_strcmp m (None # bs) = Fault Uninit"

definition zstr :: "u8 list \<Rightarrow> mem" where
  "zstr bs = map Some bs @ [Some 0]"

lemma length_zstr [simp]: "length (zstr bs) = Suc (length bs)"
  by (simp add: zstr_def)

lemma cstring_zstr [simp]: "0 \<notin> set bs \<Longrightarrow> cstring (zstr bs @ rest) = Ok bs"
  by (induction bs) (auto simp: zstr_def)

lemma cstring_zstr' [simp]: "0 \<notin> set bs \<Longrightarrow> cstring (zstr bs) = Ok bs"
  using cstring_zstr [of bs "[]"] by simp

lemma cstring_prefix: "cstring m = Ok bs \<Longrightarrow> 0 \<notin> set bs \<and> holds m 0 (bs @ [0])"
proof (induction m arbitrary: bs rule: cstring.induct)
  case (3 b m)
  show ?case
  proof (cases "b = 0")
    case True
    with "3.prems" show ?thesis by (simp add: holds_def)
  next
    case False
    with "3.prems" obtain cs where cs: "cstring m = Ok cs" "bs = b # cs"
      by (auto simp: cbind_Ok_iff)
    with "3.IH" [OF False] have "0 \<notin> set cs" "holds m 0 (cs @ [0])" by simp_all
    with cs(2) False show ?thesis by (simp add: holds_def)
  qed
qed simp_all

lemma c_strcmp_eq_0_iff:
  "cstring m = Ok as \<Longrightarrow> cstring n = Ok bs \<Longrightarrow> \<exists>r. c_strcmp m n = Ok r \<and> (r = 0 \<longleftrightarrow> as = bs)"
proof (induction m n arbitrary: as bs rule: c_strcmp.induct)
  case (1 a m b n)
  then show ?case
    by (cases "a = b") (auto simp: cbind_Ok_iff split: if_splits)
qed simp_all

end
