(* ===== verification/Mih_Kernel.thy ===== *)
theory Mih_Kernel
  imports Mih_Prelude
begin

text \<open>
  The kernel's allocator as the module sees it. The outcome of an allocation is not
  ours to decide: \<open>kh_ok\<close> says for each call (numbered in program order) and each size
  whether it succeeds, and every theorem holds for every such choice unless it assumes
  otherwise. What the module does with the blocks is recorded in a ledger: which blocks
  are allocated, so that a leak is a block that stays in \<open>kh_live\<close> and a release of
  a block that is not there is a fault.
\<close>

record kheap =
  kh_next :: nat
  kh_live :: "nat set"
  kh_ok :: "nat \<Rightarrow> nat \<Rightarrow> bool"

text \<open>
  A pointer to a byte buffer: never assigned, null, or the start of a block with its
  cells. Blocks are not shared in a way that one holder writes and another reads, so
  the cells travel with the pointer.
\<close>

datatype bufptr = Indet | Null | Blk nat mem

definition kmalloc :: "nat \<Rightarrow> kheap \<Rightarrow> nat option \<times> kheap" where
  "kmalloc n h =
     (if kh_ok h (kh_next h) n
      then (Some (kh_next h),
            h\<lparr>kh_next := Suc (kh_next h), kh_live := insert (kh_next h) (kh_live h)\<rparr>)
      else (None, h\<lparr>kh_next := Suc (kh_next h)\<rparr>))"

definition kfree :: "nat option \<Rightarrow> kheap \<Rightarrow> kheap cres" where
  "kfree p h =
     (case p of
        None \<Rightarrow> Ok h
      | Some b \<Rightarrow> if b \<in> kh_live h then Ok (h\<lparr>kh_live := kh_live h - {b}\<rparr>)
                  else Fault BadFree)"

definition kmalloc_buf :: "nat \<Rightarrow> kheap \<Rightarrow> bufptr \<times> kheap" where
  "kmalloc_buf n h =
     (case kmalloc n h of
        (None, h') \<Rightarrow> (Null, h')
      | (Some b, h') \<Rightarrow> (Blk b (replicate n None), h'))"

fun kfree_buf :: "bufptr \<Rightarrow> kheap \<Rightarrow> kheap cres" where
  "kfree_buf Indet h = Fault Uninit"
| "kfree_buf Null h = Ok h"
| "kfree_buf (Blk b m) h = kfree (Some b) h"

text \<open>Following a buffer pointer.\<close>

fun deref :: "bufptr \<Rightarrow> mem cres" where
  "deref Indet = Fault Uninit"
| "deref Null = Fault NullDeref"
| "deref (Blk b m) = Ok m"

section \<open>Well-formed ledgers and benign allocators\<close>

definition wf_heap :: "kheap \<Rightarrow> bool" where
  "wf_heap h \<longleftrightarrow> (\<forall>b \<in> kh_live h. b < kh_next h)"

text \<open>The allocator never refuses a request of at most a page.\<close>

definition allocs_succeed :: "kheap \<Rightarrow> bool" where
  "allocs_succeed h \<longleftrightarrow> (\<forall>i n. n \<le> 4096 \<longrightarrow> kh_ok h i n)"

text \<open>
  \<open>extends h h' B\<close>: the ledger moved from \<open>h\<close> to \<open>h'\<close> and the blocks in \<open>B\<close>
  are exactly what was gained, all of them new; the allocator is the same.
\<close>

definition extends :: "kheap \<Rightarrow> kheap \<Rightarrow> nat set \<Rightarrow> bool" where
  "extends h h' B \<longleftrightarrow>
     kh_live h' = kh_live h \<union> B \<and> kh_next h \<le> kh_next h' \<and> kh_ok h' = kh_ok h \<and>
     (\<forall>b \<in> B. kh_next h \<le> b \<and> b < kh_next h')"

abbreviation balanced :: "kheap \<Rightarrow> kheap \<Rightarrow> bool" where
  "balanced h h' \<equiv> extends h h' {}"

text \<open>
  \<open>gains h h' B\<close>: as \<open>extends\<close>, but the blocks in \<open>B\<close> may be older than others; used to
  set apart the blocks that one piece of code is about to release.
\<close>

definition gains :: "kheap \<Rightarrow> kheap \<Rightarrow> nat set \<Rightarrow> bool" where
  "gains h h' B \<longleftrightarrow>
     kh_live h' = kh_live h \<union> B \<and> B \<inter> kh_live h = {} \<and> kh_next h \<le> kh_next h' \<and>
     kh_ok h' = kh_ok h \<and> wf_heap h'"

lemma extends_refl [simp]: "extends h h {}"
  by (simp add: extends_def)

lemma extends_live: "extends h h' B \<Longrightarrow> kh_live h' = kh_live h \<union> B"
  by (simp add: extends_def)

lemma extends_trans: "extends h h' B \<Longrightarrow> extends h' h'' C \<Longrightarrow> extends h h'' (B \<union> C)"
  by (fastforce simp: extends_def)

lemma extends_wf: "wf_heap h \<Longrightarrow> extends h h' B \<Longrightarrow> wf_heap h'"
  by (fastforce simp: extends_def wf_heap_def)

lemma extends_fresh: "wf_heap h \<Longrightarrow> extends h h' B \<Longrightarrow> B \<inter> kh_live h = {}"
  by (fastforce simp: extends_def wf_heap_def)

lemma extends_disjoint:
  "wf_heap h \<Longrightarrow> extends h h' B \<Longrightarrow> extends h' h'' C \<Longrightarrow> B \<inter> C = {}"
  by (fastforce simp: extends_def wf_heap_def)

lemma extends_succeed [simp]: "extends h h' B \<Longrightarrow> allocs_succeed h' = allocs_succeed h"
  by (simp add: extends_def allocs_succeed_def)

lemma kmalloc_Some: "kmalloc n h = (Some b, h') \<Longrightarrow> extends h h' {b} \<and> b = kh_next h"
  by (auto simp: kmalloc_def extends_def split: if_splits)

lemma kmalloc_None: "kmalloc n h = (None, h') \<Longrightarrow> extends h h' {}"
  by (auto simp: kmalloc_def extends_def split: if_splits)

lemma kmalloc_succeed:
  "allocs_succeed h \<Longrightarrow> n \<le> 4096 \<Longrightarrow>
   kmalloc n h = (Some (kh_next h),
     h\<lparr>kh_next := Suc (kh_next h), kh_live := insert (kh_next h) (kh_live h)\<rparr>)"
  by (simp add: kmalloc_def allocs_succeed_def)

lemma kmalloc_succeedE:
  assumes "allocs_succeed h" and "n \<le> 4096"
  obtains b h' where "kmalloc n h = (Some b, h')" and "extends h h' {b}"
  using kmalloc_succeed [OF assms] by (metis kmalloc_Some)

text \<open>Releasing a block gained since \<open>h\<close> takes it out of the gain.\<close>

lemma kfree_gained:
  assumes "wf_heap h" and "extends h h' B" and "b \<in> B"
  obtains h'' where "kfree (Some b) h' = Ok h''" and "extends h h'' (B - {b})"
proof -
  let ?h = "h'\<lparr>kh_live := kh_live h' - {b}\<rparr>"
  have "b \<in> kh_live h'" using assms by (simp add: extends_def)
  then have "kfree (Some b) h' = Ok ?h" by (simp add: kfree_def)
  moreover have "b \<notin> kh_live h" using extends_fresh [OF assms(1,2)] assms(3) by auto
  then have "extends h ?h (B - {b})" using assms(2) by (auto simp: extends_def)
  ultimately show ?thesis by (rule that)
qed

lemma gains_refl: "wf_heap h \<Longrightarrow> gains h h {}"
  by (simp add: gains_def)

lemma gains_wf: "gains h h' B \<Longrightarrow> wf_heap h'"
  by (simp add: gains_def)

lemma gains_extends:
  assumes "gains h h' B" and "extends h' h'' C"
  shows "gains h h'' (B \<union> C)" and "B \<inter> C = {}" and "kh_live h \<inter> C = {}"
proof -
  have wf: "wf_heap h'" using assms(1) by (rule gains_wf)
  have fresh: "C \<inter> kh_live h' = {}" using wf assms(2) by (rule extends_fresh)
  then show "B \<inter> C = {}" and "kh_live h \<inter> C = {}" using assms(1) by (auto simp: gains_def)
  show "gains h h'' (B \<union> C)"
    using assms fresh extends_wf [OF wf assms(2)] by (auto simp: gains_def extends_def)
qed

lemma kfree_gains:
  assumes "gains h h' B" and "b \<in> B"
  obtains h'' where "kfree (Some b) h' = Ok h''" and "gains h h'' (B - {b})"
proof -
  let ?h = "h'\<lparr>kh_live := kh_live h' - {b}\<rparr>"
  have "kfree (Some b) h' = Ok ?h" using assms by (simp add: gains_def kfree_def)
  moreover have "gains h ?h (B - {b})" using assms by (auto simp: gains_def wf_heap_def)
  ultimately show ?thesis by (rule that)
qed

text \<open>Two blocks released one after the other.\<close>

lemma kfree_two:
  assumes "gains h0 h ({b, c} \<union> T)" and "b \<noteq> c" and "{b, c} \<inter> T = {}"
  obtains h1 h2 where "kfree (Some c) h = Ok h1" and "kfree (Some b) h1 = Ok h2" and "gains h0 h2 T"
proof -
  obtain h1 where h1: "kfree (Some c) h = Ok h1" "gains h0 h1 ({b, c} \<union> T - {c})"
    using kfree_gains [OF assms(1), of c] by blast
  obtain h2 where h2: "kfree (Some b) h1 = Ok h2" "gains h0 h2 ({b, c} \<union> T - {c} - {b})"
    using kfree_gains [OF h1(2), of b] assms(2) by blast
  have "{b, c} \<union> T - {c} - {b} = T" using assms(2,3) by auto
  with h1(1) h2 show ?thesis by (intro that) simp_all
qed

text \<open>A block allocated and released again leaves the ledger as it was.\<close>

lemma kmalloc_kfree:
  assumes "wf_heap h" and "kmalloc n h = (Some b, h')"
  obtains h'' where "kfree (Some b) h' = Ok h''" and "balanced h h''"
proof -
  from assms(2) have "extends h h' {b}" by (simp add: kmalloc_Some)
  from kfree_gained [OF assms(1) this] that show ?thesis by auto
qed

lemma kfree_None [simp]: "kfree None h = Ok h"
  by (simp add: kfree_def)

text \<open>A concrete allocator that always succeeds, for examples.\<close>

definition heap0 :: kheap where
  "heap0 = \<lparr>kh_next = 0, kh_live = {}, kh_ok = (\<lambda>i n. True)\<rparr>"

lemma heap0_wf [simp]: "wf_heap heap0"
  by (simp add: heap0_def wf_heap_def)

lemma heap0_succeed [simp]: "allocs_succeed heap0"
  by (simp add: heap0_def allocs_succeed_def)

end
