(* ===== verification/Mih_Types.thy ===== *)
theory Mih_Types
  imports Mih_Kernel
begin

text \<open>
  The protocol's data (\<open>mih.h\<close>, \<open>data.h\<close>): numeric constants, the bit-field header,
  type-length-value elements and messages. Bit-fields are words of their declared width,
  so an assignment that does not fit truncates as it does in C.
\<close>

section \<open>Constants\<close>

abbreviation (input) MIH_HLEN :: nat where "MIH_HLEN \<equiv> 8"
abbreviation (input) MIH_ID_LEN :: nat where "MIH_ID_LEN \<equiv> 253"
abbreviation (input) BUFFER_SIZE :: nat where "BUFFER_SIZE \<equiv> 4096"

abbreviation (input) REQUEST :: "2 word" where "REQUEST \<equiv> 1"
abbreviation (input) RESPONSE :: "2 word" where "RESPONSE \<equiv> 2"
abbreviation (input) INDICATION :: "2 word" where "INDICATION \<equiv> 3"

abbreviation (input) SERVICE_MANAGEMENT :: "4 word" where "SERVICE_MANAGEMENT \<equiv> 1"
abbreviation (input) EVENT_SERVICE :: "4 word" where "EVENT_SERVICE \<equiv> 2"
abbreviation (input) COMMAND_SERVICE :: "4 word" where "COMMAND_SERVICE \<equiv> 3"
abbreviation (input) INFORMATION_SERVICE :: "4 word" where "INFORMATION_SERVICE \<equiv> 4"

abbreviation (input) MIH_CAPABILITY_DISCOVER :: "10 word" where "MIH_CAPABILITY_DISCOVER \<equiv> 1"
abbreviation (input) MIH_REGISTER :: "10 word" where "MIH_REGISTER \<equiv> 2"
abbreviation (input) MIH_DEREGISTER :: "10 word" where "MIH_DEREGISTER \<equiv> 3"
abbreviation (input) MIH_EVENT_SUBSCRIBE :: "10 word" where "MIH_EVENT_SUBSCRIBE \<equiv> 4"
abbreviation (input) MIH_EVENT_UNSUBSCRIBE :: "10 word" where "MIH_EVENT_UNSUBSCRIBE \<equiv> 5"

abbreviation (input) MIH_LINK_DETECTED :: "10 word" where "MIH_LINK_DETECTED \<equiv> 1"
abbreviation (input) MIH_LINK_UP :: "10 word" where "MIH_LINK_UP \<equiv> 2"
abbreviation (input) MIH_LINK_DOWN :: "10 word" where "MIH_LINK_DOWN \<equiv> 3"
abbreviation (input) MIH_LINK_PARAMETERS_REPORT :: "10 word" where "MIH_LINK_PARAMETERS_REPORT \<equiv> 5"
abbreviation (input) MIH_LINK_GOING_DOWN :: "10 word" where "MIH_LINK_GOING_DOWN \<equiv> 6"
abbreviation (input) MIH_LINK_HANDOVER_IMMINENT :: "10 word" where "MIH_LINK_HANDOVER_IMMINENT \<equiv> 7"
abbreviation (input) MIH_LINK_HANDOVER_COMPLETE :: "10 word" where "MIH_LINK_HANDOVER_COMPLETE \<equiv> 8"

abbreviation (input) MIH_LINK_GET_PARAMETERS :: "10 word" where "MIH_LINK_GET_PARAMETERS \<equiv> 1"
abbreviation (input) MIH_LINK_CONFIGURE_THRESHOLDS :: "10 word" where "MIH_LINK_CONFIGURE_THRESHOLDS \<equiv> 2"
abbreviation (input) MIH_LINK_ACTIONS :: "10 word" where "MIH_LINK_ACTIONS \<equiv> 3"
abbreviation (input) MIH_NET_HO_CANDIDATE_QUERY :: "10 word" where "MIH_NET_HO_CANDIDATE_QUERY \<equiv> 4"
abbreviation (input) MIH_MN_HO_CANDIDATE_QUERY :: "10 word" where "MIH_MN_HO_CANDIDATE_QUERY \<equiv> 5"
abbreviation (input) MIH_N2N_HO_QUERY_RESOURCES :: "10 word" where "MIH_N2N_HO_QUERY_RESOURCES \<equiv> 6"
abbreviation (input) MIH_MN_HO_COMMIT :: "10 word" where "MIH_MN_HO_COMMIT \<equiv> 7"
abbreviation (input) MIH_NET_HO_COMMIT :: "10 word" where "MIH_NET_HO_COMMIT \<equiv> 8"
abbreviation (input) MIH_N2N_HO_COMMIT :: "10 word" where "MIH_N2N_HO_COMMIT \<equiv> 9"
abbreviation (input) MIH_MN_HO_COMPLETE :: "10 word" where "MIH_MN_HO_COMPLETE \<equiv> 10"
abbreviation (input) MIH_N2N_HO_COMPLETE :: "10 word" where "MIH_N2N_HO_COMPLETE \<equiv> 11"

abbreviation (input) SRC_MIHF_ID_TLV :: u8 where "SRC_MIHF_ID_TLV \<equiv> 1"
abbreviation (input) DST_MIHF_ID_TLV :: u8 where "DST_MIHF_ID_TLV \<equiv> 2"

section \<open>Header, elements, messages\<close>

record mih_header =
  version :: "4 word"
  ackreq :: "1 word"
  ackrsp :: "1 word"
  uir :: "1 word"
  morefragment :: "1 word"
  fragmentnumber :: "7 word"
  rsvd1 :: "1 word"
  sid :: "4 word"
  opcode :: "2 word"
  aid :: "10 word"
  rsvd2 :: "4 word"
  tid :: "12 word"
  payloadlength :: "16 word"

text \<open>\<open>memset(&header, 0, sizeof(header))\<close>.\<close>

definition zero_header :: mih_header where
  "zero_header =
     \<lparr>version = 0, ackreq = 0, ackrsp = 0, uir = 0, morefragment = 0, fragmentnumber = 0,
      rsvd1 = 0, sid = 0, opcode = 0, aid = 0, rsvd2 = 0, tid = 0, payloadlength = 0\<rparr>"

text \<open>
  A type-length-value element: \<open>tlv_blk\<close> is the block of the structure itself when it
  was allocated on its own, and \<open>None\<close> for the list head embedded in a message.
\<close>

record mih_tlv =
  tlv_blk :: "nat option"
  tlv_type :: u8
  tlv_length :: u32
  tlv_value :: bufptr

text \<open>
  A message: the header, the embedded list head (an element whose own fields nobody
  assigns) and the elements on the list, in order.
\<close>

record mih_message =
  header :: mih_header
  tlvs_head :: mih_tlv
  tlvs :: "mih_tlv list"

text \<open>Sizes the sources pass to the allocator (64-bit kernel).\<close>

abbreviation (input) sizeof_mih_tlv_t :: nat where "sizeof_mih_tlv_t \<equiv> 32"
abbreviation (input) sizeof_mih_message_t :: nat where "sizeof_mih_message_t \<equiv> 40"

text \<open>The identifier of this node, \<open>_mymihfid\<close>: the string mihf1.\<close>

definition mymihfid :: "u8 list" where
  "mymihfid = [109, 105, 104, 102, 49]"

definition mymihfid_mem :: mem where
  "mymihfid_mem = zstr mymihfid"

lemma cstring_mymihfid [simp]: "cstring mymihfid_mem = Ok mymihfid"
  by (simp add: mymihfid_mem_def mymihfid_def)

text \<open>
  A list element reached by following \<open>next\<close> pointers from the head: past the last
  element the ring closes on the head itself.
\<close>

definition tlv_at :: "mih_message \<Rightarrow> nat \<Rightarrow> mih_tlv" where
  "tlv_at msg i = (if i < length (tlvs msg) then tlvs msg ! i else tlvs_head msg)"

section \<open>Blocks a message owns\<close>

fun buf_blocks :: "bufptr \<Rightarrow> nat set" where
  "buf_blocks (Blk b m) = {b}"
| "buf_blocks p = {}"

definition tlv_blocks :: "mih_tlv \<Rightarrow> nat set" where
  "tlv_blocks t = set_option (tlv_blk t) \<union> buf_blocks (tlv_value t)"

definition tlvs_blocks :: "mih_tlv list \<Rightarrow> nat set" where
  "tlvs_blocks ts = \<Union> (tlv_blocks ` set ts)"

lemma tlvs_blocks_Nil [simp]: "tlvs_blocks [] = {}"
  by (simp add: tlvs_blocks_def)

lemma tlvs_blocks_Cons [simp]: "tlvs_blocks (t # ts) = tlv_blocks t \<union> tlvs_blocks ts"
  by (simp add: tlvs_blocks_def)

lemma tlvs_blocks_append [simp]: "tlvs_blocks (ts @ us) = tlvs_blocks ts \<union> tlvs_blocks us"
  by (simp add: tlvs_blocks_def)

text \<open>An owned element: its structure and its value are two different blocks.\<close>

definition owned_tlv :: "mih_tlv \<Rightarrow> bool" where
  "owned_tlv t \<longleftrightarrow> (\<exists>b c m. tlv_blk t = Some b \<and> tlv_value t = Blk c m \<and> b \<noteq> c)"

text \<open>A list of owned elements that share no block.\<close>

fun owned_tlvs :: "mih_tlv list \<Rightarrow> bool" where
  "owned_tlvs [] \<longleftrightarrow> True"
| "owned_tlvs (t # ts) \<longleftrightarrow> owned_tlv t \<and> tlv_blocks t \<inter> tlvs_blocks ts = {} \<and> owned_tlvs ts"

lemma owned_tlvs_append:
  "owned_tlvs (ts @ us) \<longleftrightarrow> owned_tlvs ts \<and> owned_tlvs us \<and> tlvs_blocks ts \<inter> tlvs_blocks us = {}"
  by (induction ts) auto

text \<open>An element whose value is the null-terminated string \<open>bs\<close>.\<close>

definition tlv_string :: "mih_tlv \<Rightarrow> u8 list \<Rightarrow> bool" where
  "tlv_string t bs \<longleftrightarrow> (\<exists>b m. tlv_value t = Blk b m \<and> cstring m = Ok bs)"

end
