(* ===== verification/Message_Header.thy ===== *)
theory Message_Header
  imports Mih_Types
begin

text \<open>
  The fixed eight-byte header of \<open>message.c\<close>: \<open>pack_mih_header\<close> and
  \<open>unpack_mih_header\<close>, statement by statement, and their two round trips.
\<close>

abbreviation (input) as_int :: "'a::len word \<Rightarrow> u32" where
  "as_int w \<equiv> ucast w"

abbreviation (input) as_byte :: "u32 \<Rightarrow> u8" where
  "as_byte w \<equiv> ucast w"

text \<open>\<open>out_buf[i] |= v\<close>.\<close>

definition mem_or :: "mem \<Rightarrow> nat \<Rightarrow> u8 \<Rightarrow> mem cres" where
  "mem_or m i v = cbind (mem_read m i) (\<lambda>b. mem_write m i (b OR v))"

definition pack_mih_header :: "mih_header \<Rightarrow> mem \<Rightarrow> nat \<Rightarrow> mem cres" where
  "pack_mih_header hdr out_buf p =
     cbind (mem_write out_buf p (as_byte (push_bit 4 (as_int (version hdr))))) (\<lambda>m.
     cbind (mem_or m p (as_byte (push_bit 3 (as_int (ackreq hdr))))) (\<lambda>m.
     cbind (mem_or m p (as_byte (push_bit 2 (as_int (ackrsp hdr))))) (\<lambda>m.
     cbind (mem_or m p (as_byte (push_bit 1 (as_int (uir hdr))))) (\<lambda>m.
     cbind (mem_or m p (as_byte (as_int (morefragment hdr)))) (\<lambda>m.
     cbind (mem_write m (p + 1) (as_byte (push_bit 1 (as_int (fragmentnumber hdr))))) (\<lambda>m.
     cbind (mem_write m (p + 2) (as_byte (push_bit 4 (as_int (sid hdr))))) (\<lambda>m.
     cbind (mem_or m (p + 2) (as_byte (push_bit 2 (as_int (opcode hdr))))) (\<lambda>m.
     cbind (mem_or m (p + 2) (as_byte (drop_bit 8 (as_int (aid hdr))))) (\<lambda>m.
     cbind (mem_write m (p + 3) (as_byte (as_int (aid hdr) AND 0xFF))) (\<lambda>m.
     cbind (mem_write m (p + 4) (as_byte (drop_bit 8 (as_int (tid hdr))))) (\<lambda>m.
     cbind (mem_write m (p + 5) (as_byte (as_int (tid hdr) AND 0xFF))) (\<lambda>m.
     cbind (mem_write m (p + 6) (as_byte (drop_bit 8 (as_int (payloadlength hdr))))) (\<lambda>m.
     mem_write m (p + 7) (as_byte (as_int (payloadlength hdr) AND 0xFF)))))))))))))))"

definition unpack_mih_header :: "mem \<Rightarrow> nat \<Rightarrow> mih_header \<Rightarrow> mih_header cres" where
  "unpack_mih_header in_buf p hdr =
     cbind (mem_read in_buf p) (\<lambda>b0.
     cbind (mem_read in_buf (p + 1)) (\<lambda>b1.
     cbind (mem_read in_buf (p + 2)) (\<lambda>b2.
     cbind (mem_read in_buf (p + 4)) (\<lambda>b4.
     cbind (mem_read in_buf (p + 5)) (\<lambda>b5.
     cbind (mem_read in_buf (p + 3)) (\<lambda>b3.
     cbind (mem_read in_buf (p + 6)) (\<lambda>b6.
     cbind (mem_read in_buf (p + 7)) (\<lambda>b7.
     Ok (hdr\<lparr>
       version := ucast (drop_bit 4 (as_int b0)),
       ackreq := ucast (drop_bit 3 (as_int b0) AND 0x1),
       ackrsp := ucast (drop_bit 2 (as_int b0) AND 0x1),
       uir := ucast (drop_bit 1 (as_int b0) AND 0x1),
       morefragment := ucast (as_int b0 AND 0x1),
       fragmentnumber := ucast (drop_bit 1 (as_int b1)),
       rsvd1 := ucast (as_int b1 AND 0x1),
       sid := ucast (drop_bit 4 (as_int b2)),
       opcode := ucast (drop_bit 2 (as_int b2) AND 0x3),
       rsvd2 := ucast (drop_bit 4 (as_int b4)),
       tid := ucast (push_bit 8 (as_int b4 AND 0xF) OR as_int b5),
       aid := ucast (push_bit 8 (as_int b2 AND 0x3) OR as_int b3),
       payloadlength := ucast (push_bit 8 (as_int b6) OR as_int b7)\<rparr>)))))))))"

section \<open>The bytes of a header\<close>

definition enc_header :: "mih_header \<Rightarrow> u8 list" where
  "enc_header hdr =
     [as_byte (push_bit 4 (as_int (version hdr))) OR as_byte (push_bit 3 (as_int (ackreq hdr)))
        OR as_byte (push_bit 2 (as_int (ackrsp hdr))) OR as_byte (push_bit 1 (as_int (uir hdr)))
        OR as_byte (as_int (morefragment hdr)),
      as_byte (push_bit 1 (as_int (fragmentnumber hdr))),
      as_byte (push_bit 4 (as_int (sid hdr))) OR as_byte (push_bit 2 (as_int (opcode hdr)))
        OR as_byte (drop_bit 8 (as_int (aid hdr))),
      as_byte (as_int (aid hdr) AND 0xFF),
      as_byte (drop_bit 8 (as_int (tid hdr))),
      as_byte (as_int (tid hdr) AND 0xFF),
      as_byte (drop_bit 8 (as_int (payloadlength hdr))),
      as_byte (as_int (payloadlength hdr) AND 0xFF)]"

lemma length_enc_header [simp]: "length (enc_header hdr) = 8"
  by (simp add: enc_header_def)

lemma mem_read_blit_last:
  "i + length bs < length m \<Longrightarrow> j = i + length bs \<Longrightarrow>
   mem_read (blit m i (bs @ [b])) j = Ok b"
  by (simp add: mem_read_def nth_blit nth_append)

lemma mem_write_blit_next:
  "i + length bs < length m \<Longrightarrow> j = i + length bs \<Longrightarrow>
   mem_write (blit m i bs) j v = Ok (blit m i (bs @ [v]))"
  by (simp add: mem_write_blit blit_blit)

lemma mem_or_blit_last:
  assumes "i + length bs < length m" and "j = i + length bs"
  shows "mem_or (blit m i (bs @ [b])) j v = Ok (blit m i (bs @ [b OR v]))"
proof -
  have "(blit m i (bs @ [b]))[j := Some (b OR v)] = blit m i (bs @ [b OR v])"
    using assms by (intro nth_equalityI) (auto simp: nth_blit nth_list_update nth_append)
  with assms show ?thesis
    by (simp add: mem_or_def mem_read_blit_last mem_write_def)
qed

lemma header_writes:
  assumes "p + 8 \<le> length m"
  shows "cbind (mem_write m p a0) (\<lambda>m. cbind (mem_or m p a1) (\<lambda>m. cbind (mem_or m p a2) (\<lambda>m.
     cbind (mem_or m p a3) (\<lambda>m. cbind (mem_or m p a4) (\<lambda>m. cbind (mem_write m (p + 1) b) (\<lambda>m.
     cbind (mem_write m (p + 2) c0) (\<lambda>m. cbind (mem_or m (p + 2) c1) (\<lambda>m.
     cbind (mem_or m (p + 2) c2) (\<lambda>m. cbind (mem_write m (p + 3) d) (\<lambda>m.
     cbind (mem_write m (p + 4) e) (\<lambda>m. cbind (mem_write m (p + 5) f) (\<lambda>m.
     cbind (mem_write m (p + 6) g) (\<lambda>m. mem_write m (p + 7) h)))))))))))))
   = Ok (blit m p [a0 OR a1 OR a2 OR a3 OR a4, b, c0 OR c1 OR c2, d, e, f, g, h])"
proof -
  have or0: "mem_or (blit m p [x]) p v = Ok (blit m p [x OR v])" for x v
    using mem_or_blit_last [of p "[]" m p x v] assms by simp
  have or2: "mem_or (blit m p [x, y, z]) (p + 2) v = Ok (blit m p [x, y, z OR v])" for x y z v
    using mem_or_blit_last [of p "[x, y]" m "p + 2" z v] assms by simp
  show ?thesis
    using assms
    by (simp add: mem_write_blit [of p m] or0 or2 mem_write_blit_next or.assoc
        del: add_2_eq_Suc')
qed

lemma pack_mih_header_blit:
  assumes "p + 8 \<le> length m"
  shows "pack_mih_header hdr m p = Ok (blit m p (enc_header hdr))"
  unfolding pack_mih_header_def enc_header_def by (rule header_writes) (rule assms)

lemma holds_8:
  assumes "holds m p [b0, b1, b2, b3, b4, b5, b6, b7]"
  shows "mem_read m p = Ok b0" "mem_read m (p + 1) = Ok b1" "mem_read m (p + 2) = Ok b2"
    "mem_read m (p + 3) = Ok b3" "mem_read m (p + 4) = Ok b4" "mem_read m (p + 5) = Ok b5"
    "mem_read m (p + 6) = Ok b6" "mem_read m (p + 7) = Ok b7"
  using holds_read [OF assms, of 0] holds_read [OF assms, of 1] holds_read [OF assms, of 2]
    holds_read [OF assms, of 3] holds_read [OF assms, of 4] holds_read [OF assms, of 5]
    holds_read [OF assms, of 6] holds_read [OF assms, of 7]
  by simp_all

section \<open>Round trips\<close>

lemma and_take_bit:
  "x AND 1 = take_bit 1 (x :: u32)" "x AND 3 = take_bit 2 (x :: u32)"
  "x AND 15 = take_bit 4 (x :: u32)" "x AND 255 = take_bit 8 (x :: u32)"
  by (simp_all add: take_bit_eq_mask mask_eq_exp_minus_1)

lemmas field_bits = and_take_bit bit_simps

text \<open>The fields that share a byte are recovered from it.\<close>

lemma header_byte0:
  fixes v :: "4 word" and a b c d :: "1 word"
  defines "x \<equiv> as_byte (push_bit 4 (as_int v)) OR as_byte (push_bit 3 (as_int a))
     OR as_byte (push_bit 2 (as_int b)) OR as_byte (push_bit 1 (as_int c)) OR as_byte (as_int d)"
  shows "ucast (drop_bit 4 (as_int x)) = v" and "ucast (drop_bit 3 (as_int x) AND 1) = a"
    and "ucast (drop_bit 2 (as_int x) AND 1) = b" and "ucast (drop_bit 1 (as_int x) AND 1) = c"
    and "ucast (as_int x AND 1) = d"
  unfolding x_def
  by (intro bit_word_eqI; auto simp: field_bits simp del: One_nat_def push_bit_Suc and_one_eq
      dest: bit_imp_le_length)+

lemma header_byte1:
  fixes f :: "7 word"
  defines "x \<equiv> as_byte (push_bit 1 (as_int f))"
  shows "ucast (drop_bit 1 (as_int x)) = f" and "(ucast (as_int x AND 1) :: 1 word) = 0"
  unfolding x_def
  by (intro bit_word_eqI; auto simp: field_bits simp del: One_nat_def push_bit_Suc and_one_eq
      dest: bit_imp_le_length)+

lemma header_byte23:
  fixes s :: "4 word" and q :: "2 word" and a :: "10 word"
  defines "x \<equiv> as_byte (push_bit 4 (as_int s)) OR as_byte (push_bit 2 (as_int q))
     OR as_byte (drop_bit 8 (as_int a))"
  shows "ucast (drop_bit 4 (as_int x)) = s" and "ucast (drop_bit 2 (as_int x) AND 3) = q"
    and "ucast (push_bit 8 (as_int x AND 3) OR as_int (as_byte (as_int a AND 255))) = a"
  unfolding x_def
  by (intro bit_word_eqI; auto simp: field_bits simp del: One_nat_def push_bit_Suc and_one_eq
      dest: bit_imp_le_length)+

lemma header_byte45:
  fixes t :: "12 word"
  defines "x \<equiv> as_byte (drop_bit 8 (as_int t))"
  shows "(ucast (drop_bit 4 (as_int x)) :: 4 word) = 0"
    and "ucast (push_bit 8 (as_int x AND 15) OR as_int (as_byte (as_int t AND 255))) = t"
  unfolding x_def
  by (intro bit_word_eqI; auto simp: field_bits simp del: One_nat_def push_bit_Suc and_one_eq
      dest: bit_imp_le_length)+

lemma header_byte67:
  fixes l :: "16 word"
  shows "ucast (push_bit 8 (as_int (as_byte (drop_bit 8 (as_int l))))
           OR as_int (as_byte (as_int l AND 255))) = l"
  by (intro bit_word_eqI) (auto simp: field_bits dest: bit_imp_le_length)

lemmas header_fields = header_byte0 header_byte1 header_byte23 header_byte45 header_byte67

lemma unpack_enc_header:
  assumes "holds m p (enc_header hdr)"
  shows "unpack_mih_header m p h0 = Ok (hdr\<lparr>rsvd1 := 0, rsvd2 := 0\<rparr>)"
  unfolding unpack_mih_header_def holds_8 [OF assms [unfolded enc_header_def]] cbind.simps
    header_fields
  by simp


lemma byte_eqI:
  fixes x y :: u8
  assumes "bit x 0 = bit y 0" "bit x (Suc 0) = bit y (Suc 0)" "bit x 2 = bit y 2"
    "bit x 3 = bit y 3" "bit x 4 = bit y 4" "bit x 5 = bit y 5" "bit x 6 = bit y 6"
    "bit x 7 = bit y 7"
  shows "x = y"
proof (rule bit_word_eqI)
  fix n :: nat
  assume "n < LENGTH(8)"
  then consider "n = 0" | "n = Suc 0" | "n = 2" | "n = 3" | "n = 4" | "n = 5" | "n = 6" | "n = 7"
    by fastforce
  then show "bit x n = bit y n" using assms by cases simp_all
qed

lemma byte_no_bit: "8 \<le> n \<Longrightarrow> \<not> bit (c :: u8) n"
  using bit_imp_le_length by fastforce

lemma bit_1_Suc: "bit x 1 = bit x (Suc 0)"
  by simp

lemma bytes_of_fields:
  fixes b0 b1 b2 b3 b4 b5 b6 b7 :: u8
  shows "as_byte (push_bit 4 (as_int (ucast (drop_bit 4 (as_int b0)) :: 4 word)))
       OR as_byte (push_bit 3 (as_int (ucast (drop_bit 3 (as_int b0) AND 1) :: 1 word)))
       OR as_byte (push_bit 2 (as_int (ucast (drop_bit 2 (as_int b0) AND 1) :: 1 word)))
       OR as_byte (push_bit 1 (as_int (ucast (drop_bit 1 (as_int b0) AND 1) :: 1 word)))
       OR as_byte (as_int (ucast (as_int b0 AND 1) :: 1 word)) = b0"
    and "as_byte (push_bit 1 (as_int (ucast (drop_bit 1 (as_int b1)) :: 7 word))) = b1 AND 254"
    and "as_byte (push_bit 4 (as_int (ucast (drop_bit 4 (as_int b2)) :: 4 word)))
       OR as_byte (push_bit 2 (as_int (ucast (drop_bit 2 (as_int b2) AND 3) :: 2 word)))
       OR as_byte (drop_bit 8 (as_int (ucast (push_bit 8 (as_int b2 AND 3) OR as_int b3) :: 10 word)))
       = b2"
    and "as_byte (as_int (ucast (push_bit 8 (as_int b2 AND 3) OR as_int b3) :: 10 word) AND 255) = b3"
    and "as_byte (drop_bit 8 (as_int (ucast (push_bit 8 (as_int b4 AND 15) OR as_int b5) :: 12 word)))
       = b4 AND 15"
    and "as_byte (as_int (ucast (push_bit 8 (as_int b4 AND 15) OR as_int b5) :: 12 word) AND 255) = b5"
    and "as_byte (drop_bit 8 (as_int (ucast (push_bit 8 (as_int b6) OR as_int b7) :: 16 word))) = b6"
    and "as_byte (as_int (ucast (push_bit 8 (as_int b6) OR as_int b7) :: 16 word) AND 255) = b7"
  by (rule byte_eqI; simp add: field_bits byte_no_bit bit_1_Suc
      del: One_nat_def push_bit_Suc and_one_eq)+

lemma enc_unpacked_header:
  assumes "holds m p [b0, b1, b2, b3, b4, b5, b6, b7]"
  shows "\<exists>hdr. unpack_mih_header m p h0 = Ok hdr \<and>
     enc_header hdr = [b0, b1 AND 0xFE, b2, b3, b4 AND 0x0F, b5, b6, b7]"
proof (cases h0)
  case fields
  show ?thesis
    unfolding unpack_mih_header_def holds_8 [OF assms] cbind.simps fields
    by (rule exI, rule conjI, rule refl) (simp only: enc_header_def mih_header.simps bytes_of_fields)
qed

section \<open>Properties\<close>

text \<open>
  Property C32: packing a header into a buffer with room for eight bytes and unpacking
  those bytes again gives the header back, field by field, with the two reserved fields
  cleared; nothing outside the eight bytes is touched.
\<close>

theorem header_roundtrip:
  assumes "p + 8 \<le> length buf"
  shows "\<exists>buf'. pack_mih_header hdr buf p = Ok buf' \<and>
     unpack_mih_header buf' p h0 = Ok (hdr\<lparr>rsvd1 := 0, rsvd2 := 0\<rparr>) \<and>
     length buf' = length buf \<and> take p buf' = take p buf \<and> drop (p + 8) buf' = drop (p + 8) buf"
proof -
  have "holds (blit buf p (enc_header hdr)) p (enc_header hdr)"
    using assms by simp
  with assms show ?thesis
    by (simp add: pack_mih_header_blit unpack_enc_header take_blit drop_blit)
qed

theorem header_roundtrip_witness:
  "\<exists>buf'. pack_mih_header (zero_header\<lparr>version := 1, sid := 2, tid := 77\<rparr>)
       (replicate 8 None) 0 = Ok buf' \<and>
     unpack_mih_header buf' 0 zero_header
       = Ok (zero_header\<lparr>version := 1, sid := 2, tid := 77\<rparr>)"
  using header_roundtrip [of 0 "replicate 8 None"
      "zero_header\<lparr>version := 1, sid := 2, tid := 77\<rparr>" zero_header]
  by (auto simp: zero_header_def)

text \<open>
  Every eight readable bytes unpack to a header, and packing that header
  gives the same bytes back except for the reserved bits (the low bit of byte 1 and the
  high half of byte 4), which come out as zero.
\<close>

theorem header_reencode:
  assumes "holds buf p [b0, b1, b2, b3, b4, b5, b6, b7]" and "q + 8 \<le> length out"
  shows "\<exists>hdr out'. unpack_mih_header buf p h0 = Ok hdr \<and> pack_mih_header hdr out q = Ok out' \<and>
     holds out' q [b0, b1 AND 0xFE, b2, b3, b4 AND 0x0F, b5, b6, b7]"
proof -
  obtain hdr where hdr: "unpack_mih_header buf p h0 = Ok hdr"
      "enc_header hdr = [b0, b1 AND 0xFE, b2, b3, b4 AND 0x0F, b5, b6, b7]"
    using enc_unpacked_header [OF assms(1)] by blast
  then have "holds (blit out q (enc_header hdr)) q (enc_header hdr)"
    using assms(2) by simp
  with hdr assms(2) show ?thesis
    by (auto simp: pack_mih_header_blit)
qed

end
