(* ===== verification/Message_Length.thy ===== *)
theory Message_Length
  imports Message_Header
begin

text \<open>
  The variable-length length field of \<open>message.c\<close>: \<open>pack_variable_length_field\<close> and
  \<open>parse_variable_length_field\<close>. The reference encoding \<open>enc_len\<close> says in two lines
  which bytes the shifting and masking loops produce. The decoder is not the inverse of
  the encoder: it does not add back the 128 that the encoder takes off.
\<close>

section \<open>The code\<close>

text \<open>
  \<open>while ((length & msk) == 0) { msk >>= 8; --octets; }\<close>. Nothing in the loop itself
  bounds it (it runs forever on a zero length), so not returning is the value \<open>None\<close>.
\<close>

partial_function (option) plf_scan :: "u32 \<Rightarrow> u32 \<Rightarrow> u32 \<Rightarrow> (u32 \<times> u32) option" where
  "plf_scan len msk octets =
     (if len AND msk = 0 then plf_scan len (drop_bit 8 msk) (octets - 1)
      else Some (msk, octets))"

text \<open>
  \<open>for (i = 1; i <= octets; ++i) { ... }\<close>. The counter and its bound never exceed 5 and
  are natural numbers; \<open>shift\<close> and \<open>msk\<close> are 32-bit values (\<open>shift\<close> wraps after the
  last byte, when it is no longer used).
\<close>

function plf_emit :: "u32 \<Rightarrow> nat \<Rightarrow> nat \<Rightarrow> u32 \<Rightarrow> u32 \<Rightarrow> mem \<Rightarrow> nat \<Rightarrow> (nat \<times> mem) cres" where
  "plf_emit len i octets shift msk out_buf p =
     (if i \<le> octets
      then cbind (mem_write out_buf (p + i) (ucast (drop_bit (unat shift) (len AND msk)))) (\<lambda>m.
           plf_emit len (Suc i) octets (shift - 8) (drop_bit 8 msk) m p)
      else Ok (i, out_buf))"
  by pat_completeness auto
termination
  by (relation "measure (\<lambda>(len, i, octets, _). Suc octets - i)") auto

definition pack_variable_length_field :: "u32 \<Rightarrow> mem \<Rightarrow> nat \<Rightarrow> u32 \<Rightarrow> (int \<times> mem) cres" where
  "pack_variable_length_field len out_buf p buf_size =
     (if len \<le> 128
      then (if buf_size < 1 then Ok (- 1, out_buf)
            else cbind (mem_write out_buf p (ucast len)) (\<lambda>m. Ok (1, m)))
      else let len = len - 128 in
        (case plf_scan len (push_bit ((4 - 1) * 8) 0xFF) 4 of
           None \<Rightarrow> Fault Diverge
         | Some (msk, octets) \<Rightarrow>
             if buf_size \<le> octets then Ok (- 1, out_buf)
             else cbind (mem_write out_buf p (ucast octets)) (\<lambda>m.
                  cbind (mem_or m p 0x80) (\<lambda>m.
                  cbind (plf_emit len 1 (unat octets) ((octets - 1) * 8) msk m p) (\<lambda>(i, m).
                  Ok (int i, m))))))"

text \<open>\<open>for (i = 2; i < length_end; ++i) length = (length << 8) | in_buf[i];\<close>\<close>

function plf_read :: "mem \<Rightarrow> nat \<Rightarrow> nat \<Rightarrow> nat \<Rightarrow> u32 \<Rightarrow> (nat \<times> u32) cres" where
  "plf_read in_buf p i length_end len =
     (if i < length_end
      then cbind (mem_read in_buf (p + i)) (\<lambda>b.
           plf_read in_buf p (Suc i) length_end (push_bit 8 len OR ucast b))
      else Ok (i, len))"
  by pat_completeness auto
termination
  by (relation "measure (\<lambda>(_, _, i, length_end, _). length_end - i)") auto

declare plf_emit.simps [simp del] plf_read.simps [simp del]

text \<open>
  The second component of the result is \<open>*length_value\<close>, \<open>None\<close> when the function
  returns without assigning it. The argument \<open>in_len\<close> is not used, as in the source.
\<close>

definition parse_variable_length_field :: "mem \<Rightarrow> nat \<Rightarrow> u32 \<Rightarrow> (int \<times> u32 option) cres" where
  "parse_variable_length_field in_buf p in_len =
     cbind (mem_read in_buf p) (\<lambda>b.
     let len = (ucast b :: u32) in
     if len \<le> 128 then Ok (1, Some len)
     else let length_octets = len AND 0x7F in
       if length_octets > 4 then Ok (- 1, None)
       else let length_end = unat length_octets + 1 in
         cbind (mem_read in_buf (p + 1)) (\<lambda>b1.
         cbind (plf_read in_buf p 2 length_end (ucast b1)) (\<lambda>(i, len).
         Ok (int i, Some len))))"

section \<open>Reference encoding\<close>

definition n_octets :: "nat \<Rightarrow> nat" where
  "n_octets m = (if m < 2 ^ 8 then 1 else if m < 2 ^ 16 then 2 else if m < 2 ^ 24 then 3 else 4)"

fun be_bytes :: "nat \<Rightarrow> nat \<Rightarrow> u8 list" where
  "be_bytes 0 m = []"
| "be_bytes (Suc k) m = of_nat (m div 256 ^ k) # be_bytes k m"

definition enc_len :: "nat \<Rightarrow> u8 list" where
  "enc_len n =
     (if n \<le> 128 then [of_nat n]
      else of_nat (128 + n_octets (n - 128)) # be_bytes (n_octets (n - 128)) (n - 128))"

definition dec_len :: "nat \<Rightarrow> nat" where
  "dec_len n = (if n \<le> 128 then n else n - 128)"

lemma length_be_bytes [simp]: "length (be_bytes k m) = k"
  by (induction k) simp_all

lemma n_octets_bounds: "1 \<le> n_octets m" "n_octets m \<le> 4"
  by (simp_all add: n_octets_def)

lemma enc_len_bounds: "1 \<le> length (enc_len n)" "length (enc_len n) \<le> 5"
  using n_octets_bounds [of "n - 128"] by (simp_all add: enc_len_def)

lemma enc_len_short: "n \<le> 128 \<Longrightarrow> enc_len n = [of_nat n]"
  by (simp add: enc_len_def)

lemma dec_len_le: "dec_len n \<le> n"
  by (simp add: dec_len_def)

section \<open>Bytes of a 32-bit value\<close>

lemma bit_255: "bit (255 :: int) k \<longleftrightarrow> k < 8"
proof -
  have "(255 :: int) = mask 8" by (simp add: mask_eq_exp_minus_1)
  then show ?thesis by (simp only: bit_mask_iff) auto
qed

lemma drop_byte_mask:
  "s \<le> 24 \<Longrightarrow> drop_bit s (x AND push_bit s 255) = take_bit 8 (drop_bit s (x :: u32))"
  by (auto intro!: bit_word_eqI simp: bit_simps bit_255)

lemma push_drop_byte_mask:
  "push_bit s (drop_bit s (x AND push_bit s 255)) = (x :: u32) AND push_bit s 255"
  by (auto intro!: bit_word_eqI simp: bit_simps bit_255)

lemma unat_byte: "unat (take_bit 8 (drop_bit s (x :: u32))) = unat x div 2 ^ s mod 2 ^ 8"
proof -
  have "unat (drop_bit s x) = unat x div 2 ^ s"
    by (metis drop_bit_eq_div take_bit_nat_eq_self_iff unsigned_drop_bit_eq unsigned_less)
  then show ?thesis by (simp only: unsigned_take_bit_eq take_bit_eq_mod [where 'a = nat])
qed

lemma ucast_byte: "s \<le> 24 \<Longrightarrow>
   ucast (drop_bit s (x AND push_bit s 255)) = (of_nat (unat (x :: u32) div 2 ^ s) :: u8)"
proof -
  assume "s \<le> 24"
  have "(ucast y :: u8) = of_nat (unat y)" for y :: u32
    by (auto intro!: bit_word_eqI simp: bit_simps)
  then have "ucast (drop_bit s (x AND push_bit s 255)) = (of_nat (unat x div 2 ^ s mod 2 ^ 8) :: u8)"
    by (simp only: drop_byte_mask [OF \<open>s \<le> 24\<close>] unat_byte)
  also have "\<dots> = of_nat (unat x div 2 ^ s)"
    by (simp add: word_of_nat_eq_iff take_bit_eq_mod)
  finally show ?thesis .
qed

lemma mask_zero:
  fixes x :: u32
  assumes "s \<le> 24" "unat x < 2 ^ (s + 8)"
  shows "x AND push_bit s 255 = 0 \<longleftrightarrow> unat x < 2 ^ s"
proof -
  have lt: "unat x div 2 ^ s < 2 ^ 8"
    using assms(2) by (simp add: power_add less_mult_imp_div_less mult.commute)
  have "x AND push_bit s 255 = 0 \<longleftrightarrow> take_bit 8 (drop_bit s x) = 0"
    by (metis assms(1) drop_byte_mask push_drop_byte_mask drop_bit_of_0 push_bit_of_0)
  also have "\<dots> \<longleftrightarrow> unat x div 2 ^ s mod 2 ^ 8 = 0"
    by (metis unat_byte unsigned_0 unsigned_eq_0_iff)
  also have "\<dots> \<longleftrightarrow> unat x < 2 ^ s"
    using lt by (simp add: div_eq_0_iff)
  finally show ?thesis .
qed


lemma n_octets_eq: "2 ^ (8 * j) \<le> m \<Longrightarrow> m < 2 ^ (8 * Suc j) \<Longrightarrow> j \<le> 3 \<Longrightarrow> n_octets m = Suc j"
proof -
  assume a: "2 ^ (8 * j) \<le> m" "m < 2 ^ (8 * Suc j)" "j \<le> 3"
  then consider "j = 0" | "j = 1" | "j = 2" | "j = 3" by linarith
  then show ?thesis using a by cases (simp_all add: n_octets_def)
qed

lemma next_mask: "j \<le> 2 \<Longrightarrow> drop_bit 8 (push_bit (8 * Suc j) 255) = (push_bit (8 * j) 255 :: u32)"
proof -
  assume "j \<le> 2"
  then consider "j = 0" | "j = 1" | "j = 2" by linarith
  then show ?thesis by cases simp_all
qed

lemma plf_scan_from:
  assumes "len \<noteq> 0" and "j \<le> 3" and "unat len < 2 ^ (8 * Suc j)"
  shows "plf_scan len (push_bit (8 * j) 255) (of_nat (Suc j))
     = Some (push_bit (8 * (n_octets (unat len) - 1)) 255, of_nat (n_octets (unat len)))"
  using assms(2,3)
proof (induction j)
  case 0
  have pos: "0 < unat len" using assms(1) by (simp add: unat_gt_0)
  with 0 have "len AND push_bit (8 * 0) 255 \<noteq> 0"
    using mask_zero [of 0 len] by simp
  moreover from 0 have "n_octets (unat len) = 1" by (simp add: n_octets_def)
  ultimately show ?case by (subst plf_scan.simps) simp
next
  case (Suc j)
  have "8 * Suc j \<le> 24" using Suc.prems(1) by simp
  moreover have "unat len < 2 ^ (8 * Suc j + 8)" using Suc.prems(2) by (simp add: add.commute)
  ultimately have z: "len AND push_bit (8 * Suc j) 255 = 0 \<longleftrightarrow> unat len < 2 ^ (8 * Suc j)"
    by (rule mask_zero)
  show ?case
  proof (cases "unat len < 2 ^ (8 * Suc j)")
    case True
    with Suc.IH Suc.prems(1) z next_mask [of j] show ?thesis
      by (subst plf_scan.simps) (simp del: push_bit_numeral mult_Suc_right)
  next
    case False
    then have n: "n_octets (unat len) = Suc (Suc j)"
      using Suc.prems by (intro n_octets_eq) (simp_all add: not_less)
    from False z have "len AND push_bit (8 * Suc j) 255 \<noteq> 0" by simp
    then show ?thesis unfolding n by (subst plf_scan.simps) simp
  qed
qed

lemma plf_scan_stops:
  assumes "len \<noteq> 0"
  shows "plf_scan len (push_bit ((4 - 1) * 8) 255) 4
     = Some (push_bit (8 * (n_octets (unat len) - 1)) 255, of_nat (n_octets (unat len)))"
  using plf_scan_from [OF assms, of 3] unsigned_less [of len] by simp

lemma plf_emit_blit:
  "Suc octets = i + k \<Longrightarrow> octets \<le> 4 \<Longrightarrow> 1 \<le> i \<Longrightarrow> p + octets < length m \<Longrightarrow>
   0 < k \<longrightarrow> shift = of_nat (8 * (k - 1)) \<and> msk = push_bit (8 * (k - 1)) 255 \<Longrightarrow>
   plf_emit len i octets shift msk m p = Ok (Suc octets, blit m (p + i) (be_bytes k (unat len)))"
proof (induction k arbitrary: i shift msk m)
  case 0
  then show ?case by (subst plf_emit.simps) simp
next
  case (Suc k)
  have k: "k \<le> 3" and sh: "shift = of_nat (8 * k)" and mk: "msk = push_bit (8 * k) 255"
    using Suc.prems by simp_all
  have us: "unat shift = 8 * k" using k by (simp only: sh unat_of_nat) simp
  have byte: "ucast (drop_bit (unat shift) (len AND msk)) = (of_nat (unat len div 256 ^ k) :: u8)"
    unfolding us mk using ucast_byte [of "8 * k" len] k by (simp add: power_mult)
  have wr: "mem_write m (p + i) v = Ok (blit m (p + i) [v])" for v
    using Suc.prems by (intro mem_write_blit) simp
  have "plf_emit len (Suc i) octets (shift - 8) (drop_bit 8 msk) (blit m (p + i) [v]) p
     = Ok (Suc octets, blit (blit m (p + i) [v]) (p + Suc i) (be_bytes k (unat len)))" for v
  proof (rule Suc.IH)
    show "0 < k \<longrightarrow> shift - 8 = of_nat (8 * (k - 1)) \<and> drop_bit 8 msk = push_bit (8 * (k - 1)) 255"
      using k next_mask [of "k - 1"] by (cases k) (simp_all add: sh mk)
  qed (use Suc.prems in simp_all)
  moreover have "plf_emit len i octets shift msk m p
     = cbind (mem_write m (p + i) (of_nat (unat len div 256 ^ k))) (\<lambda>m.
         plf_emit len (Suc i) octets (shift - 8) (drop_bit 8 msk) m p)"
    using Suc.prems(1) by (subst plf_emit.simps, simp only: byte) simp
  ultimately show ?case
    using Suc.prems by (simp add: wr blit_blit)
qed

section \<open>The code against the reference\<close>

text \<open>What the packer does, for every length and buffer size.\<close>

lemma pack_variable_length_field_spec:
  assumes "p + unat buf_size \<le> length m"
  shows "pack_variable_length_field len m p buf_size =
    (if length (enc_len (unat len)) \<le> unat buf_size
     then Ok (int (length (enc_len (unat len))), blit m p (enc_len (unat len)))
     else Ok (- 1, m))"
proof (cases "len \<le> 128")
  case True
  then have u: "unat len \<le> 128" by (simp add: word_le_nat_alt)
  have b: "(ucast len :: u8) = of_nat (unat len)" 
    by (auto intro!: bit_word_eqI simp: bit_simps)
  from True u b assms show ?thesis
    by (auto simp: pack_variable_length_field_def enc_len_def word_less_nat_alt mem_write_blit)
next
  case False
  define l where "l = len - 128"
  define k where "k = n_octets (unat l)"
  from False have big: "128 < unat len" by (simp add: word_le_nat_alt)
  then have ul: "unat l = unat len - 128"
    by (simp add: l_def unat_sub word_le_nat_alt)
  then have nz: "l \<noteq> 0" using big by auto
  have k: "1 \<le> k" "k \<le> 4" using n_octets_bounds by (simp_all add: k_def)
  have enc: "enc_len (unat len) = of_nat (128 + k) # be_bytes k (unat l)"
    using big by (simp add: enc_len_def k_def ul)
  have uk: "unat (of_nat k :: u32) = k" using k by (simp add: unat_of_nat)
  have le: "buf_size \<le> of_nat k \<longleftrightarrow> unat buf_size \<le> k" by (simp add: word_le_nat_alt uk)
  have first: "(ucast (of_nat k :: u32) :: u8) OR 0x80 = of_nat (128 + k)"
  proof -
    from k consider "k = 1" | "k = 2" | "k = 3" | "k = 4" by linarith
    then show ?thesis by cases simp_all
  qed
  have sh: "(of_nat k - 1) * 8 = (of_nat (8 * (k - 1)) :: u32)" using k(1) by (cases k) simp_all
  have run: "pack_variable_length_field len m p buf_size =
     (if unat buf_size \<le> k then Ok (- 1, m)
      else cbind (mem_write m p (ucast (of_nat k :: u32))) (\<lambda>m. cbind (mem_or m p 0x80) (\<lambda>m.
        cbind (plf_emit l 1 k (of_nat (8 * (k - 1))) (push_bit (8 * (k - 1)) 255) m p)
          (\<lambda>(i, m). Ok (int i, m)))))"
    using False
    unfolding pack_variable_length_field_def Let_def l_def [symmetric] plf_scan_stops [OF nz]
      k_def [symmetric] option.case prod.case le uk sh
    by (simp only: if_False)
  show ?thesis
  proof (cases "unat buf_size \<le> k")
    case True
    then show ?thesis by (simp add: run enc)
  next
    case big: False
    with assms k have room: "p + k < length m" by simp
    have "plf_emit l 1 k (of_nat (8 * (k - 1))) (push_bit (8 * (k - 1)) 255) m' p
       = Ok (Suc k, blit m' (p + 1) (be_bytes k (unat l)))" if "length m' = length m" for m'
      using room k that by (intro plf_emit_blit) simp_all
    moreover have "cbind (mem_write m p v) (\<lambda>m. mem_or m p w) = Ok (blit m p [v OR w])" for v w
      using mem_or_blit_last [of p "[]" m p v w] room by (simp add: mem_write_blit)
    ultimately show ?thesis
      using big room by (simp add: run enc first cbind_assoc [symmetric] blit_blit)
  qed
qed

lemma shift_in_byte:
  fixes x :: u32 and b :: u8
  shows "push_bit 8 x OR ucast b = x * 256 + ucast b"
proof -
  have "push_bit 8 x + ucast b = push_bit 8 x OR ucast b"
    by (rule disjunctive_add) (auto simp: bit_simps dest: bit_imp_le_length)
  then show ?thesis by (simp add: push_bit_eq_mult)
qed

lemma plf_read_be:
  "holds in_buf (p + i) (be_bytes k m) \<Longrightarrow> length_end = i + k \<Longrightarrow>
   plf_read in_buf p i length_end (of_nat (m div 256 ^ k)) = Ok (length_end, of_nat m)"
proof (induction k arbitrary: i)
  case 0
  then show ?case by (subst plf_read.simps) simp
next
  case (Suc k)
  from Suc.prems(1) have rd: "mem_read in_buf (p + i) = Ok (of_nat (m div 256 ^ k))"
    and rest: "holds in_buf (p + Suc i) (be_bytes k m)"
    by (simp_all add: holds_Cons)
  have "push_bit 8 (of_nat (m div 256 ^ Suc k)) OR ucast (of_nat (m div 256 ^ k) :: u8)
      = (of_nat (m div 256 ^ Suc k * 256 + m div 256 ^ k mod 256) :: u32)"
    unfolding shift_in_byte by (simp add: unsigned_of_nat take_bit_eq_mod)
  also have "m div 256 ^ Suc k * 256 + m div 256 ^ k mod 256 = m div 256 ^ k"
    by (simp add: div_mult2_eq mult.commute [of 256])
  finally have acc: "push_bit 8 (of_nat (m div 256 ^ Suc k)) OR ucast (of_nat (m div 256 ^ k) :: u8)
      = (of_nat (m div 256 ^ k) :: u32)" .
  have "plf_read in_buf p (Suc i) length_end (of_nat (m div 256 ^ k)) = Ok (length_end, of_nat m)"
    using rest Suc.prems(2) by (intro Suc.IH) simp_all
  moreover have "i < length_end" using Suc.prems(2) by simp
  ultimately show ?case
    by (subst plf_read.simps) (simp only: rd acc cbind.simps if_True)
qed

lemma octet_count_byte:
  assumes "1 \<le> k" and "k \<le> 4"
  shows "ucast (of_nat (128 + k) :: u8) = (of_nat (128 + k) :: u32)"
    and "\<not> (of_nat (128 + k) :: u32) \<le> 128"
    and "(of_nat (128 + k) :: u32) AND 0x7F = of_nat k"
    and "\<not> (4 :: u32) < of_nat k"
    and "unat (of_nat k :: u32) = k"
proof -
  from assms have "k = 1 \<or> k = 2 \<or> k = 3 \<or> k = 4" by linarith
  then show "ucast (of_nat (128 + k) :: u8) = (of_nat (128 + k) :: u32)"
    and "\<not> (of_nat (128 + k) :: u32) \<le> 128"
    and "(of_nat (128 + k) :: u32) AND 0x7F = of_nat k"
    and "\<not> (4 :: u32) < of_nat k"
    and "unat (of_nat k :: u32) = k"
    by auto
qed

lemma top_byte: "n_octets m = Suc j \<Longrightarrow> m < 2 ^ 32 \<Longrightarrow> m div 256 ^ j < 256"
proof -
  assume a: "n_octets m = Suc j" "m < 2 ^ 32"
  then have "j \<le> 3" using n_octets_bounds [of m] by simp
  then consider "j = 0" | "j = 1" | "j = 2" | "j = 3" by linarith
  then show ?thesis
    using a by cases (auto simp: n_octets_def split: if_splits)
qed

lemma parse_enc_len:
  assumes "holds in_buf p (enc_len n)" and "n < 2 ^ 32"
  shows "parse_variable_length_field in_buf p in_len
     = Ok (int (length (enc_len n)), Some (of_nat (dec_len n)))"
proof (cases "n \<le> 128")
  case True
  then have "mem_read in_buf p = Ok (of_nat n)"
    using assms(1) by (simp add: enc_len_def holds_Cons)
  moreover have "ucast (of_nat n :: u8) = (of_nat n :: u32)"
    using True by (simp add: unsigned_of_nat take_bit_eq_mod)
  moreover have "(of_nat n :: u32) \<le> 128"
    using True by (simp add: word_le_nat_alt unat_of_nat)
  ultimately show ?thesis
    using True by (simp add: parse_variable_length_field_def enc_len_def dec_len_def)
next
  case False
  define m where "m = n - 128"
  obtain j where k: "n_octets m = Suc j"
    using n_octets_bounds [of m] by (cases "n_octets m") simp_all
  then have kb: "1 \<le> Suc j" "Suc j \<le> 4" using n_octets_bounds [of m] by simp_all
  have enc: "enc_len n = of_nat (128 + Suc j) # of_nat (m div 256 ^ j) # be_bytes j m"
    using False by (simp add: enc_len_def m_def [symmetric] k)
  have r0: "mem_read in_buf p = Ok (of_nat (128 + Suc j))"
    and r1: "mem_read in_buf (p + 1) = Ok (of_nat (m div 256 ^ j))"
    and r2: "holds in_buf (p + 2) (be_bytes j m)"
    using assms(1) by (simp_all add: enc holds_Cons)
  have "m div 256 ^ j < 256" using k assms(2) by (intro top_byte) (simp_all add: m_def)
  then have b1: "ucast (of_nat (m div 256 ^ j) :: u8) = (of_nat (m div 256 ^ j) :: u32)"
    by (simp add: unsigned_of_nat take_bit_eq_mod)
  have rd: "plf_read in_buf p 2 (Suc j + 1) (of_nat (m div 256 ^ j)) = Ok (Suc j + 1, of_nat m)"
    using r2 by (intro plf_read_be) simp_all
  have "parse_variable_length_field in_buf p in_len = Ok (int (Suc j + 1), Some (of_nat m))"
    by (simp only: parse_variable_length_field_def r0 r1 cbind.simps Let_def b1
        octet_count_byte [OF kb] if_False rd prod.case)
  then show ?thesis
    using False by (simp add: enc dec_len_def m_def)
qed

text \<open>What any call of the decoder can return, whatever the input.\<close>

lemma mem_read_bound: "mem_read m i = Ok b \<Longrightarrow> i < length m"
  by (simp add: mem_read_def split: if_splits)

lemma plf_read_result:
  "plf_read in_buf p i length_end l = Ok (r, v) \<Longrightarrow> p + i \<le> length in_buf \<Longrightarrow>
   r = max i length_end \<and> p + r \<le> length in_buf"
proof (induction in_buf p i length_end l rule: plf_read.induct)
  case (1 in_buf p i length_end l)
  show ?case
  proof (cases "i < length_end")
    case True
    with "1.prems"(1) obtain b where b: "mem_read in_buf (p + i) = Ok b"
      "plf_read in_buf p (Suc i) length_end (push_bit 8 l OR ucast b) = Ok (r, v)"
      by (subst (asm) plf_read.simps) (auto elim: cbind_OkE)
    from mem_read_bound [OF b(1)] have "p + Suc i \<le> length in_buf" by simp
    with "1.IH" [OF True b(1) b(2)] True show ?thesis by simp
  next
    case False
    with "1.prems" show ?thesis by (subst (asm) plf_read.simps) simp
  qed
qed

lemma parse_OkE:
  assumes "parse_variable_length_field in_buf p in_len = Ok (s, lv)"
  obtains (short) b where "mem_read in_buf p = Ok b" "s = 1" "lv = Some (ucast b)"
  | (refused) "s = - 1" "lv = None"
  | (long) n b1 i v where "n \<le> 4" "mem_read in_buf (p + 1) = Ok b1"
      "plf_read in_buf p 2 (n + 1) (ucast b1) = Ok (i, v)" "s = int i" "lv = Some v"
proof -
  obtain b where b: "mem_read in_buf p = Ok b"
    using assms by (auto simp: parse_variable_length_field_def elim: cbind_OkE)
  note run = assms [unfolded parse_variable_length_field_def b cbind.simps Let_def]
  consider "(ucast b :: u32) \<le> 128" | "\<not> (ucast b :: u32) \<le> 128" "(4 :: u32) < ucast b AND 0x7F"
    | "\<not> (ucast b :: u32) \<le> 128" "\<not> (4 :: u32) < ucast b AND 0x7F" by blast
  then show ?thesis
  proof cases
    case 1
    with run b show ?thesis by (intro short) auto
  next
    case 2
    with run show ?thesis by (intro refused) auto
  next
    case 3
    then have "unat ((ucast b :: u32) AND 0x7F) \<le> 4" by (simp add: word_less_nat_alt)
    with run 3 show ?thesis by (auto elim!: cbind_OkE intro: long)
  qed
qed

lemma parse_result:
  assumes "parse_variable_length_field in_buf p in_len = Ok (s, lv)"
  shows "s = - 1 \<and> lv = None \<or> (\<exists>v. lv = Some v) \<and> 1 \<le> s \<and> s \<le> 5 \<and> p + nat s \<le> length in_buf"
  using assms
proof (cases rule: parse_OkE)
  case (short b)
  then show ?thesis using mem_read_bound [of in_buf p b] by simp
next
  case (long n b1 i v)
  then have "i = max 2 (n + 1) \<and> p + i \<le> length in_buf"
    using mem_read_bound [of in_buf "p + 1" b1] plf_read_result by fastforce
  with long(1) have "1 \<le> i" "i \<le> 5" "p + i \<le> length in_buf" by auto
  with long(4,5) show ?thesis by simp
qed simp

section \<open>The interface of a length field\<close>

text \<open>
  What the users of a length field rely on: writing one puts its encoding into the
  buffer or refuses, reading one back gives the decoded length and moves past it.
\<close>

locale length_field =
  fixes put :: "u32 \<Rightarrow> mem \<Rightarrow> nat \<Rightarrow> u32 \<Rightarrow> (int \<times> mem) cres"
    and get :: "mem \<Rightarrow> nat \<Rightarrow> u32 \<Rightarrow> (int \<times> u32 option) cres"
    and enc :: "nat \<Rightarrow> u8 list"
    and dec :: "nat \<Rightarrow> nat"
  assumes put_spec: "p + unat sz \<le> length m \<Longrightarrow>
      put n m p sz = (if length (enc (unat n)) \<le> unat sz
        then Ok (int (length (enc (unat n))), blit m p (enc (unat n))) else Ok (- 1, m))"
    and get_spec: "holds m p (enc k) \<Longrightarrow> k < 2 ^ 32 \<Longrightarrow>
      get m p sz = Ok (int (length (enc k)), Some (of_nat (dec k)))"
    and enc_nonempty: "1 \<le> length (enc k)"
    and enc_short: "length (enc k) \<le> 5"
begin

text \<open>A value framed by its length: the length field, then the bytes.\<close>

lemma put_frame:
  assumes "p + unat sz \<le> length m" and "holds src q bs" and "length bs < 2 ^ 31"
    and "length (enc (length bs)) + length bs \<le> unat sz"
  shows "put (of_nat (length bs)) m p sz
       = Ok (int (length (enc (length bs))), blit m p (enc (length bs)))"
    and "memcpy (blit m p (enc (length bs))) (p + length (enc (length bs))) src q (length bs)
       = Ok (blit m p (enc (length bs) @ bs))"
proof -
  have u: "unat (of_nat (length bs) :: u32) = length bs"
    using assms(3) by (simp add: unat_of_nat)
  show "put (of_nat (length bs)) m p sz
       = Ok (int (length (enc (length bs))), blit m p (enc (length bs)))"
    using assms(1,4) by (simp add: put_spec u)
  show "memcpy (blit m p (enc (length bs))) (p + length (enc (length bs))) src q (length bs)
       = Ok (blit m p (enc (length bs) @ bs))"
    using assms(1,2,4) by (subst memcpy_blit [where bs = bs]) (simp_all add: blit_blit)
qed

lemma put_refuses:
  assumes "p + unat sz \<le> length m" and "n < 2 ^ 32" and "unat sz < length (enc n)"
  shows "put (of_nat n) m p sz = Ok (- 1, m)"
  using assms by (simp add: put_spec unat_of_nat)

lemma get_frame:
  assumes "holds m p (enc n @ bs)" and "n < 2 ^ 32"
  shows "get m p sz = Ok (int (length (enc n)), Some (of_nat (dec n)))"
    and "holds m (p + length (enc n)) bs"
  using assms get_spec by (simp_all add: holds_append)

end

interpretation vlf: length_field pack_variable_length_field parse_variable_length_field enc_len dec_len
  by unfold_locales
    (simp_all only: pack_variable_length_field_spec parse_enc_len enc_len_bounds)

section \<open>Properties\<close>

text \<open>
  Property C31: the length-field packer terminates on every length and writes exactly the
  reference encoding (one byte up to 128; otherwise a count byte and the big-endian bytes
  of the length less 128), or returns -1 and leaves the buffer alone when it does not fit.
\<close>

theorem length_field_encodes:
  assumes "p + unat buf_size \<le> length m"
  shows "pack_variable_length_field len m p buf_size =
    (if length (enc_len (unat len)) \<le> unat buf_size
     then Ok (int (length (enc_len (unat len))), blit m p (enc_len (unat len)))
     else Ok (- 1, m))"
  using assms by (rule vlf.put_spec)

theorem length_field_encodes_witness:
  "pack_variable_length_field 1000 (replicate 3 None) 0 3 = Ok (3, map Some [130, 3, 104])"
proof -
  have "n_octets 872 = Suc (Suc 0)" by (simp add: n_octets_def)
  then have "enc_len 1000 = [130, 3, 104]" by (simp add: enc_len_def)
  then show ?thesis
    using length_field_encodes [of 0 3 "replicate 3 None" 1000] by (simp add: blit_whole)
qed

text \<open>
  A length of at most 128 survives packing and parsing.
\<close>

theorem length_field_roundtrip:
  assumes "len \<le> 128" and "1 \<le> buf_size" and "p + unat buf_size \<le> length m"
  shows "\<exists>m'. pack_variable_length_field len m p buf_size = Ok (1, m') \<and>
     parse_variable_length_field m' p in_len = Ok (1, Some len)"
proof -
  have n: "unat len \<le> 128" and room: "1 \<le> unat buf_size"
    using assms(1,2) by (simp_all add: word_le_nat_alt)
  then have enc: "enc_len (unat len) = [of_nat (unat len)]" by (simp add: enc_len_short)
  have "holds (blit m p (enc_len (unat len))) p (enc_len (unat len))"
    using room assms(3) by (simp add: enc)
  from parse_enc_len [OF this, of in_len] show ?thesis
    using n room vlf.put_spec [OF assms(3), of len] by (simp add: enc dec_len_def)
qed

text \<open>
  A length above 128 does not survive. The packer subtracts 128 before
  encoding and the parser never adds it back, so what is read is short by exactly 128,
  for every such length.
\<close>

theorem length_field_loses_128:
  assumes "128 < len" and "5 \<le> buf_size" and "p + unat buf_size \<le> length m"
  shows "\<exists>s m'. pack_variable_length_field len m p buf_size = Ok (s, m') \<and> 0 < s \<and>
     parse_variable_length_field m' p in_len = Ok (s, Some (len - 128))"
proof -
  let ?e = "enc_len (unat len)"
  have n: "128 < unat len" and room: "5 \<le> unat buf_size"
    using assms(1,2) by (simp_all add: word_less_nat_alt word_le_nat_alt)
  have fits: "length ?e \<le> unat buf_size" using enc_len_bounds(2) room by (rule le_trans)
  have "holds (blit m p ?e) p ?e" using fits assms(3) by simp
  from parse_enc_len [OF this, of in_len]
  have "parse_variable_length_field (blit m p ?e) p in_len = Ok (int (length ?e), Some (len - 128))"
    using n unsigned_less [of len] by (simp add: dec_len_def)
  moreover have "0 < int (length ?e)" using enc_len_bounds(1) [of "unat len"] by linarith
  ultimately show ?thesis
    using fits vlf.put_spec [OF assms(3), of len] by auto
qed

text \<open>
  The parser takes no notice of the input length it is given. For every
  count byte announcing one to four length bytes, a buffer that ends right after that
  byte is read past its end.
\<close>

theorem length_field_overread:
  assumes "128 < b" and "b \<le> 132"
  shows "parse_variable_length_field [Some b] 0 1 = Fault OutOfBounds"
proof -
  from assms have "unat b = 129 \<or> unat b = 130 \<or> unat b = 131 \<or> unat b = 132"
    by (auto simp: word_less_nat_alt word_le_nat_alt)
  then have "b = 129 \<or> b = 130 \<or> b = 131 \<or> b = 132"
    by (auto simp: word_unat_eq_iff)
  then show ?thesis
    by (auto simp: parse_variable_length_field_def mem_read_def)
qed

end
