(* ===== verification/Message_Tlv.thy ===== *)
theory Message_Tlv
  imports Message_Length
begin

text \<open>
  Octet strings and type-length-value elements of \<open>message.c\<close>: \<open>pack_octet_string\<close>,
  \<open>unpack_octet_string\<close>, \<open>pack_mihf_id_tlv\<close>, \<open>unpack_mihf_id_tlv\<close>, \<open>pack_mih_tlv\<close>,
  \<open>unpack_mih_tlv\<close>, \<open>free_tlv\<close> and \<open>free_tlvs\<close>, with the allocator threaded through.
\<close>

section \<open>The code\<close>

definition pack_octet_string :: "bufptr \<Rightarrow> mem \<Rightarrow> nat \<Rightarrow> u32 \<Rightarrow> (int \<times> mem) cres" where
  "pack_octet_string string buf p buf_len =
     cbind (deref string) (\<lambda>src.
     cbind (cstring src) (\<lambda>str.
     let len = int32 (int (length str)) in
     cbind (pack_variable_length_field (word_of_int len) buf p buf_len) (\<lambda>(s, buf).
     if s < 0 then Ok (s, buf)
     else if (word_of_int (int32 (s + len)) :: u32) > buf_len then Ok (- 1, buf)
     else cbind (memcpy buf (p + nat s) src 0 (size_of_int len)) (\<lambda>buf.
          Ok (int32 (s + len), buf)))))"

text \<open>
  \<open>string\<close> is the old content of \<open>*string\<close>, returned unchanged when the function leaves
  it alone.
\<close>

definition unpack_octet_string ::
    "mem \<Rightarrow> nat \<Rightarrow> u32 \<Rightarrow> bufptr \<Rightarrow> kheap \<Rightarrow> (int \<times> bufptr \<times> kheap) cres" where
  "unpack_octet_string buf p buf_len string h =
     cbind (parse_variable_length_field buf p buf_len) (\<lambda>(s, length_value).
     if s < 0 then Ok (s, string, h)
     else case length_value of
       None \<Rightarrow> Fault Uninit
     | Some v \<Rightarrow>
         (let len = sint v in
          case kmalloc (size_of_int (int32 (len + 1))) h of
            (None, h) \<Rightarrow> Ok (- 1, string, h)
          | (Some b, h) \<Rightarrow>
              (let str = replicate (size_of_int (int32 (len + 1))) None in
               cbind (memcpy str 0 buf (p + nat s) (size_of_int len)) (\<lambda>str.
               cbind (mem_write str (size_of_int len) 0) (\<lambda>str.
               Ok (int32 (s + len), Blk b str, h))))))"

definition pack_mihf_id_tlv ::
    "mih_tlv \<Rightarrow> mem \<Rightarrow> nat \<Rightarrow> u32 \<Rightarrow> kheap \<Rightarrow> (int \<times> mem \<times> kheap) cres" where
  "pack_mihf_id_tlv tlv out_buf p buf_size h =
     (let (buffer, h) = kmalloc_buf BUFFER_SIZE h in
     cbind (deref buffer) (\<lambda>cells.
     cbind (pack_octet_string (tlv_value tlv) cells 0 (of_nat BUFFER_SIZE)) (\<lambda>(s, cells).
     cbind (if s < 0 then Ok (s, out_buf)
            else cbind (pack_variable_length_field (word_of_int s) out_buf p buf_size)
              (\<lambda>(pos, out_buf).
              if pos < 0 then Ok (pos, out_buf)
              else if (word_of_int (int32 (pos + s)) :: u32) > buf_size then Ok (- 1, out_buf)
              else cbind (memcpy out_buf (p + nat pos) cells 0 (size_of_int s)) (\<lambda>out_buf.
                   Ok (int32 (s + pos), out_buf)))) (\<lambda>(s, out_buf).
     cbind (kfree_buf buffer h) (\<lambda>h.
     Ok (s, out_buf, h))))))"

text \<open>The second component is \<open>*tlv_addr\<close>, \<open>None\<close> when it is not assigned.\<close>

definition unpack_mihf_id_tlv ::
    "u8 \<Rightarrow> u32 \<Rightarrow> mem \<Rightarrow> nat \<Rightarrow> kheap \<Rightarrow> (int \<times> mih_tlv option \<times> kheap) cres" where
  "unpack_mihf_id_tlv type len buf p h =
     (case kmalloc sizeof_mih_tlv_t h of
        (None, h) \<Rightarrow> Fault NullDeref
      | (Some b, h) \<Rightarrow>
          cbind (unpack_octet_string buf p len Indet h) (\<lambda>(s, string, h).
          if s < 0 then cbind (kfree (Some b) h) (\<lambda>h. Ok (- 1, None, h))
          else if word_of_int s \<noteq> len
          then cbind (kfree_buf string h) (\<lambda>h.
               cbind (kfree (Some b) h) (\<lambda>h. Ok (- 1, None, h)))
          else Ok (s, Some \<lparr>tlv_blk = Some b, tlv_type = type, tlv_length = len,
                            tlv_value = string\<rparr>, h)))"

text \<open>
  Only the two identifier types are packed and unpacked; all the other types the switch
  lists fall through to its default.
\<close>

definition pack_mih_tlv ::
    "mih_tlv \<Rightarrow> mem \<Rightarrow> nat \<Rightarrow> u32 \<Rightarrow> kheap \<Rightarrow> (int \<times> mem \<times> kheap) cres" where
  "pack_mih_tlv tlv out_buf p buf_size h =
     (let type = tlv_type tlv in
      if buf_size < 1 then Ok (- 1, out_buf, h)
      else cbind (mem_write out_buf p type) (\<lambda>out_buf.
        if type = SRC_MIHF_ID_TLV \<or> type = DST_MIHF_ID_TLV
        then cbind (pack_mihf_id_tlv tlv out_buf (p + 1) (buf_size - 1) h) (\<lambda>(s, out_buf, h).
             Ok (if s \<ge> 0 then int32 (s + 1) else s, out_buf, h))
        else Ok (- 1, out_buf, h)))"

definition unpack_mih_tlv ::
    "mem \<Rightarrow> nat \<Rightarrow> u32 \<Rightarrow> kheap \<Rightarrow> (int \<times> mih_tlv option \<times> kheap) cres" where
  "unpack_mih_tlv in_buf p in_len h =
     cbind (mem_read in_buf p) (\<lambda>type.
     if in_len < 2 then Ok (- 1, None, h)
     else cbind (parse_variable_length_field in_buf (p + 1) (in_len - 1)) (\<lambda>(rd, length_value).
       if rd < 0 then Ok (rd, None, h)
       else if type = SRC_MIHF_ID_TLV \<or> type = DST_MIHF_ID_TLV
       then (case length_value of
               None \<Rightarrow> Fault Uninit
             | Some tlv_len \<Rightarrow>
                 cbind (unpack_mihf_id_tlv type tlv_len in_buf (p + nat (rd + 1)) h)
                   (\<lambda>(s, tlv, h).
                   Ok (if s < 0 then s else int32 (rd + 1 + s), tlv, h)))
       else Ok (- 1, None, h)))"

definition free_tlv :: "mih_tlv \<Rightarrow> kheap \<Rightarrow> kheap cres" where
  "free_tlv tlv h =
     cbind (kfree_buf (tlv_value tlv) h) (\<lambda>h.
     case tlv_blk tlv of None \<Rightarrow> Fault BadFree | Some b \<Rightarrow> kfree (Some b) h)"

fun free_tlvs :: "mih_tlv list \<Rightarrow> kheap \<Rightarrow> kheap cres" where
  "free_tlvs [] h = Ok h"
| "free_tlvs (tlv # ts) h = cbind (free_tlv tlv h) (\<lambda>h. free_tlvs ts h)"

section \<open>Reference encoding of identifier elements\<close>

definition enc_string :: "u8 list \<Rightarrow> u8 list" where
  "enc_string bs = enc_len (length bs) @ bs"

definition enc_id :: "u8 list \<Rightarrow> u8 list" where
  "enc_id bs = enc_len (length (enc_string bs)) @ enc_string bs"

definition enc_id_tlv :: "u8 \<Rightarrow> u8 list \<Rightarrow> u8 list" where
  "enc_id_tlv type bs = type # enc_id bs"

text \<open>The number of bytes an unpacked element is taken to have.\<close>

definition id_tlv_read :: "u8 list \<Rightarrow> nat" where
  "id_tlv_read bs = 1 + length (enc_len (length (enc_string bs))) + dec_len (length (enc_string bs))"

abbreviation id_type :: "u8 \<Rightarrow> bool" where
  "id_type ty \<equiv> ty = SRC_MIHF_ID_TLV \<or> ty = DST_MIHF_ID_TLV"

lemma length_enc_string: "length (enc_string bs) = length (enc_len (length bs)) + length bs"
  by (simp add: enc_string_def)

lemma length_enc_string_bounds:
  "length bs < length (enc_string bs)" "length (enc_string bs) \<le> length bs + 5"
  using enc_len_bounds [of "length bs"] unfolding length_enc_string by linarith+

lemma length_enc_id: "length (enc_id bs) = length (enc_len (length (enc_string bs))) + length (enc_string bs)"
  by (simp add: enc_id_def)

section \<open>Packing\<close>

lemma word_of_nat_le: "n < 2 ^ 31 \<Longrightarrow> unat (word_of_int (int n) :: u32) = n"
  by (simp add: unat_of_nat)

lemma cstring_holds: "cstring m = Ok bs \<Longrightarrow> holds m 0 bs"
  using cstring_prefix [of m bs] by (simp add: holds_append)

lemma pack_octet_string_fits:
  assumes "deref string = Ok src" and "cstring src = Ok bs" and "length bs + 5 < 2 ^ 31"
    and "p + unat n \<le> length m" and "length (enc_string bs) \<le> unat n"
  shows "pack_octet_string string m p n
     = Ok (int (length (enc_string bs)), blit m p (enc_string bs))"
proof -
  let ?e = "enc_len (length bs)"
  have len: "int32 (int (length bs)) = int (length bs)"
    and sum: "int32 (int (length ?e) + int (length bs)) = int (length (enc_string bs))"
    using assms(3) enc_len_bounds [of "length bs"] by (simp_all add: length_enc_string)
  have fits: "length ?e + length bs \<le> unat n"
    using assms(5) by (simp add: length_enc_string)
  have "length (enc_string bs) < 2 ^ 31"
    using assms(3) length_enc_string_bounds(2) [of bs] by linarith
  then have cmp: "\<not> n < word_of_int (int (length (enc_string bs)))"
    using assms(5) by (simp add: word_less_nat_alt unat_of_nat)
  have "length bs < 2 ^ 31" using assms(3) by simp
  note frame = vlf.put_frame [OF assms(4) cstring_holds [OF assms(2)] this fits]
  have sz: "size_of_int (int (length bs)) = length bs" using assms(3) by simp
  show ?thesis
    using assms(1,2) frame cmp
    by (simp add: pack_octet_string_def Let_def len sum sz)
       (simp add: enc_string_def)
qed

lemma pack_octet_string_refuses:
  assumes "deref string = Ok src" and "cstring src = Ok bs" and "length bs + 5 < 2 ^ 31"
    and "p + unat n \<le> length m" and "unat n < length (enc_string bs)"
  shows "\<exists>m'. pack_octet_string string m p n = Ok (- 1, m') \<and> confined m p (unat n) m'"
proof -
  let ?e = "enc_len (length bs)"
  have len: "int32 (int (length bs)) = int (length bs)"
    and sum: "int32 (int (length ?e) + int (length bs)) = int (length (enc_string bs))"
    using assms(3) enc_len_bounds [of "length bs"] by (simp_all add: length_enc_string)
  have "length (enc_string bs) < 2 ^ 31"
    using assms(3) length_enc_string_bounds(2) [of bs] by linarith
  then have cmp: "n < word_of_int (int (length (enc_string bs)))"
    using assms(5) by (simp add: word_less_nat_alt unat_of_nat)
  have u: "unat (word_of_int (int (length bs)) :: u32) = length bs"
    using assms(3) by (intro word_of_nat_le) simp
  have put: "pack_variable_length_field (word_of_int (int (length bs))) m p n =
     (if length ?e \<le> unat n then Ok (int (length ?e), blit m p ?e) else Ok (- 1, m))"
    using vlf.put_spec [OF assms(4), of "word_of_int (int (length bs))"] unfolding u .
  show ?thesis
  proof (cases "length ?e \<le> unat n")
    case True
    then have "confined m p (unat n) (blit m p ?e)"
      using assms(4) by (intro confined_blit) simp_all
    with True show ?thesis
      using assms(1,2) cmp by (simp add: pack_octet_string_def Let_def len put sum del: of_int_of_nat_eq)
  next
    case False
    then show ?thesis
      using assms(1,2) by (simp add: pack_octet_string_def Let_def len put del: of_int_of_nat_eq)
  qed
qed

lemma tlv_stringE:
  assumes "tlv_string t bs"
  obtains src where "deref (tlv_value t) = Ok src" and "cstring src = Ok bs"
  using assms by (auto simp: tlv_string_def)

lemma pack_mihf_id_tlv_fits:
  assumes t: "tlv_string t bs" and n: "p + unat n \<le> length m" and wf: "wf_heap h"
    and a: "kmalloc 4096 h = (Some b, h1)"
    and s: "length (enc_string bs) \<le> 4096" and f: "length (enc_id bs) \<le> unat n"
  shows "\<exists>h'. pack_mihf_id_tlv t m p n h
     = Ok (int (length (enc_id bs)), blit m p (enc_id bs), h') \<and> balanced h h'"
proof -
  let ?e = "enc_len (length (enc_string bs))" and ?s = "length (enc_string bs)"
  let ?buf = "replicate 4096 None :: mem"
  obtain src where src: "deref (tlv_value t) = Ok src" "cstring src = Ok bs"
    using t by (rule tlv_stringE)
  have short: "length bs + 5 < 2 ^ 31" using s length_enc_string_bounds(1) [of bs] by simp
  have str: "pack_octet_string (tlv_value t) ?buf 0 4096 = Ok (int ?s, blit ?buf 0 (enc_string bs))"
    using src short s by (intro pack_octet_string_fits) simp_all
  have held: "holds (blit ?buf 0 (enc_string bs)) 0 (enc_string bs)" using s by simp
  have fits: "length ?e + ?s \<le> unat n" using f by (simp add: length_enc_id)
  have "?s < 2 ^ 31" using s by simp
  note frame = vlf.put_frame [OF n held this fits]
  have sum: "int32 (int (length ?e) + int ?s) = int (length (enc_id bs))"
    "int32 (int ?s + int (length ?e)) = int (length (enc_id bs))"
    using s enc_len_bounds(2) [of ?s] by (simp_all add: length_enc_id)
  have "length (enc_id bs) < 2 ^ 31" 
    using s enc_len_bounds(2) [of ?s] unfolding length_enc_id by simp
  then have cmp: "\<not> n < word_of_int (int (length (enc_id bs)))"
    using f by (simp add: word_less_nat_alt unat_of_nat)
  have sz: "size_of_int (int ?s) = ?s" using s by simp
  obtain h2 where free: "kfree (Some b) h1 = Ok h2" "balanced h h2"
    using wf a by (rule kmalloc_kfree)
  show ?thesis
    using str frame cmp free
    by (simp add: pack_mihf_id_tlv_def kmalloc_buf_def a sum sz) (simp add: enc_id_def)
qed

lemma pack_mihf_id_tlv_refuses:
  assumes t: "tlv_string t bs" and n: "p + unat n \<le> length m" and wf: "wf_heap h"
    and a: "kmalloc 4096 h = (Some b, h1)" and short: "length bs + 5 < 2 ^ 31"
    and f: "4096 < length (enc_string bs) \<or> unat n < length (enc_id bs)"
  shows "\<exists>m' h'. pack_mihf_id_tlv t m p n h = Ok (- 1, m', h') \<and>
     confined m p (unat n) m' \<and> balanced h h'"
proof -
  let ?e = "enc_len (length (enc_string bs))" and ?s = "length (enc_string bs)"
  let ?buf = "replicate 4096 None :: mem"
  obtain src where src: "deref (tlv_value t) = Ok src" "cstring src = Ok bs"
    using t by (rule tlv_stringE)
  obtain h2 where free: "kfree (Some b) h1 = Ok h2" "balanced h h2"
    using wf a by (rule kmalloc_kfree)
  show ?thesis
  proof (cases "4096 < ?s")
    case True
    have "\<exists>m'. pack_octet_string (tlv_value t) ?buf 0 4096 = Ok (- 1, m') \<and>
        confined ?buf 0 (unat (4096 :: u32)) m'"
      using src short True by (intro pack_octet_string_refuses) simp_all
    with free show ?thesis
      by (auto simp: pack_mihf_id_tlv_def kmalloc_buf_def a)
  next
    case False
    with f have f: "unat n < length (enc_id bs)" by simp
    have str: "pack_octet_string (tlv_value t) ?buf 0 4096 = Ok (int ?s, blit ?buf 0 (enc_string bs))"
      using src short False by (intro pack_octet_string_fits) simp_all
    have u: "unat (word_of_int (int ?s) :: u32) = ?s"
      using False by (intro word_of_nat_le) simp
    have put: "pack_variable_length_field (word_of_int (int ?s)) m p n =
       (if length ?e \<le> unat n then Ok (int (length ?e), blit m p ?e) else Ok (- 1, m))"
      using vlf.put_spec [OF n, of "word_of_int (int ?s)"] unfolding u .
    have sum: "int32 (int (length ?e) + int ?s) = int (length (enc_id bs))"
      using False enc_len_bounds(2) [of ?s] by (simp_all add: length_enc_id)
    have "length (enc_id bs) < 2 ^ 31" 
      using False enc_len_bounds(2) [of ?s] unfolding length_enc_id by simp
    then have cmp: "n < word_of_int (int (length (enc_id bs)))"
      using f by (simp add: word_less_nat_alt unat_of_nat)
    have "confined m p (unat n) (blit m p ?e)" if "length ?e \<le> unat n"
      using n that by (intro confined_blit) simp_all
    with str put cmp free show ?thesis
      by (auto simp: pack_mihf_id_tlv_def kmalloc_buf_def a sum simp del: of_int_of_nat_eq)
  qed
qed

lemma pack_mihf_id_tlv_no_memory:
  "kmalloc 4096 h = (None, h1) \<Longrightarrow> pack_mihf_id_tlv t m p n h = Fault NullDeref"
  by (simp add: pack_mihf_id_tlv_def kmalloc_buf_def)

lemma unat_minus_one': "1 \<le> n \<Longrightarrow> unat (n - 1 :: u32) = unat n - 1"
  by (simp add: unat_sub)

lemma pack_mih_tlv_fits:
  assumes t: "tlv_string t bs" and ty: "id_type (tlv_type t)" and n: "p + unat n \<le> length m"
    and wf: "wf_heap h" and a: "kmalloc 4096 h = (Some b, h1)"
    and s: "length (enc_string bs) \<le> 4096"
    and f: "length (enc_id_tlv (tlv_type t) bs) \<le> unat n"
  shows "\<exists>h'. pack_mih_tlv t m p n h
     = Ok (int (length (enc_id_tlv (tlv_type t) bs)), blit m p (enc_id_tlv (tlv_type t) bs), h')
     \<and> balanced h h'"
proof -
  let ?m = "blit m p [tlv_type t]"
  have one: "1 \<le> n" using f by (simp add: enc_id_tlv_def word_le_nat_alt)
  then have un: "unat (n - 1) = unat n - 1" by (rule unat_minus_one')
  have w: "mem_write m p (tlv_type t) = Ok ?m"
    using n one by (intro mem_write_blit) (simp add: word_le_nat_alt)
  have "\<exists>h'. pack_mihf_id_tlv t ?m (Suc p) (n - 1) h
     = Ok (int (length (enc_id bs)), blit ?m (Suc p) (enc_id bs), h') \<and> balanced h h'"
    using t n wf a s f one by (intro pack_mihf_id_tlv_fits) (auto simp: un enc_id_tlv_def word_le_nat_alt)
  then obtain h' where run: "pack_mihf_id_tlv t ?m (Suc p) (n - 1) h
     = Ok (int (length (enc_id bs)), blit ?m (Suc p) (enc_id bs), h')" and bal: "balanced h h'"
    by blast
  have "blit ?m (Suc p) (enc_id bs) = blit m p (enc_id_tlv (tlv_type t) bs)"
    using n f by (simp add: blit_blit enc_id_tlv_def)
  moreover have "length (enc_id bs) \<le> 4101"
    using s enc_len_bounds(2) [of "length (enc_string bs)"] unfolding length_enc_id by linarith
  then have "int32 (int (length (enc_id bs)) + 1) = int (length (enc_id_tlv (tlv_type t) bs))"
    by (simp add: enc_id_tlv_def)
  ultimately show ?thesis
    using ty one bal by (auto simp: pack_mih_tlv_def Let_def w run word_less_nat_alt word_le_nat_alt)
qed


lemma pack_mih_tlv_refuses:
  assumes t: "tlv_string t bs" and n: "p + unat n \<le> length m" and wf: "wf_heap h"
    and a: "kmalloc 4096 h = (Some b, h1)" and short: "length bs + 5 < 2 ^ 31"
    and f: "\<not> id_type (tlv_type t) \<or> 4096 < length (enc_string bs)
      \<or> unat n < length (enc_id_tlv (tlv_type t) bs)"
  shows "\<exists>m' h'. pack_mih_tlv t m p n h = Ok (- 1, m', h') \<and>
     confined m p (unat n) m' \<and> balanced h h'"
proof (cases "1 \<le> n")
  case one: True
  let ?m = "blit m p [tlv_type t]"
  have un: "unat (n - 1) = unat n - 1" and pos: "0 < unat n" and big: "\<not> n < 1"
    using one unat_minus_one' [OF one] by (simp_all add: word_le_nat_alt word_less_nat_alt)
  have w: "mem_write m p (tlv_type t) = Ok ?m" using n pos by (intro mem_write_blit) simp
  have c: "confined m p (unat n) ?m" using n pos by (intro confined_blit) simp_all
  show ?thesis
  proof (cases "id_type (tlv_type t)")
    case True
    with f have "4096 < length (enc_string bs) \<or> unat (n - 1) < length (enc_id bs)"
      using pos by (auto simp: un enc_id_tlv_def)
    with t n wf a short pos have "\<exists>m' h'. pack_mihf_id_tlv t ?m (Suc p) (n - 1) h = Ok (- 1, m', h') \<and>
        confined ?m (Suc p) (unat (n - 1)) m' \<and> balanced h h'"
      by (intro pack_mihf_id_tlv_refuses) (auto simp: un)
    then obtain m' h' where run: "pack_mihf_id_tlv t ?m (Suc p) (n - 1) h = Ok (- 1, m', h')"
      and m': "confined ?m (Suc p) (unat (n - 1)) m'" and bal: "balanced h h'" by blast
    have "confined ?m p (unat n) m'" using m' by (rule confined_mono) (use pos un in simp_all)
    with c have "confined m p (unat n) m'" by (rule confined_trans)
    with True big bal show ?thesis by (auto simp: pack_mih_tlv_def Let_def w run)
  next
    case False
    with big c show ?thesis by (auto simp: pack_mih_tlv_def Let_def w)
  qed
next
  case False
  then show ?thesis by (simp add: pack_mih_tlv_def not_le)
qed

section \<open>Unpacking\<close>

text \<open>What any call can return, whatever the input.\<close>

lemma unpack_octet_string_OkE:
  assumes "unpack_octet_string buf p n string h = Ok (s, str, h')"
  obtains (refused) "s = - 1" "str = string" "balanced h h'"
  | (taken) r v b cells where "parse_variable_length_field buf p n = Ok (int r, Some v)"
      "1 \<le> r" "r \<le> 5" "p + r + size_of_int (sint v) \<le> length buf"
      "s = int32 (int r + sint v)" "str = Blk b cells" "extends h h' {b}"
proof -
  obtain r lv where parse: "parse_variable_length_field buf p n = Ok (r, lv)"
    using assms by (auto simp: unpack_octet_string_def elim: cbind_OkE)
  note run = assms [unfolded unpack_octet_string_def parse cbind.simps prod.case]
  from parse_result [OF parse] consider "r = - 1" "lv = None"
    | v where "lv = Some v" "1 \<le> r" "r \<le> 5" by blast
  then show ?thesis
  proof cases
    case 1
    with run show ?thesis by (intro refused) auto
  next
    case (2 v)
    obtain q h1 where alloc: "kmalloc (size_of_int (int32 (sint v + 1))) h = (q, h1)"
      by fastforce
    show ?thesis
    proof (cases q)
      case None
      with run 2 alloc show ?thesis
        by (intro refused) (auto simp: Let_def dest: kmalloc_None)
    next
      case (Some b)
      with run 2 alloc obtain m1 m2 where
        cp: "memcpy (replicate (size_of_int (int32 (sint v + 1))) None) 0 buf (p + nat r)
           (size_of_int (sint v)) = Ok m1"
        and res: "s = int32 (r + sint v)" "str = Blk b m2" "h' = h1"
        by (auto simp: Let_def elim!: cbind_OkE)
      have "p + nat r + size_of_int (sint v) \<le> length buf"
        using memcpy_safe [OF cp] by simp
      with res 2 parse alloc Some show ?thesis
        by (intro taken [of "nat r" v b m2]) (auto dest: kmalloc_Some)
    qed
  qed
qed

text \<open>What it makes of bytes that the packer wrote.\<close>

lemma sint_of_small: "n < 2 ^ 31 \<Longrightarrow> sint (of_nat n :: u32) = int n"
  by (simp add: sint_uint signed_take_bit_int_eq_self unsigned_of_nat take_bit_nat_eq_self)

lemma holds_take: "holds m p (bs @ cs) \<Longrightarrow> k \<le> length cs \<Longrightarrow> holds m (p + length bs) (take k cs)"
  by (metis append_take_drop_id holds_append)

lemma unpack_octet_string_enc:
  assumes held: "holds buf p (enc_string bs)" and short: "length bs + 10 < 2 ^ 31"
    and alloc: "kmalloc (Suc (dec_len (length bs))) h = (Some b, h1)"
  shows "unpack_octet_string buf p n string h =
    Ok (int (length (enc_len (length bs)) + dec_len (length bs)),
        Blk b (zstr (take (dec_len (length bs)) bs)), h1)"
proof -
  let ?d = "dec_len (length bs)" and ?e = "enc_len (length bs)"
  have d: "?d \<le> length bs" by (rule dec_len_le)
  have parse: "parse_variable_length_field buf p n = Ok (int (length ?e), Some (of_nat ?d))"
    using held short by (intro vlf.get_frame(1)) (simp_all add: enc_string_def)
  have at: "holds buf (p + length ?e) (take ?d bs)"
    using held d by (intro holds_take) (simp_all add: enc_string_def)
  have si: "sint (of_nat ?d :: u32) = int ?d" using d short by (intro sint_of_small) simp
  have sz: "size_of_int (int32 (int ?d + 1)) = Suc ?d" "size_of_int (int ?d) = ?d"
    using d short by simp_all
  have cp: "memcpy (replicate (Suc ?d) None) 0 buf (p + length ?e) ?d
      = Ok (blit (replicate (Suc ?d) None) 0 (take ?d bs))"
    using at d by (intro memcpy_blit) simp_all
  have wr: "mem_write (blit (replicate (Suc ?d) None) 0 (take ?d bs)) ?d 0
      = Ok (zstr (take ?d bs))"
    using d by (subst mem_write_blit_next) (simp_all add: zstr_def blit_whole)
  have sum: "int32 (int (length ?e) + int ?d) = int (length ?e + ?d)"
    using d short enc_len_bounds(2) [of "length bs"] by simp
  show ?thesis
    unfolding unpack_octet_string_def
    by (simp del: replicate_Suc add: parse si Let_def sz alloc cp wr sum)
qed

lemma small_sum:
  assumes "p + r + size_of_int v \<le> len" and "- (2 ^ 31) \<le> v" "v < 2 ^ 31" and "1 \<le> r" "r \<le> 5"
    and "0 \<le> int32 (int r + v)"
  shows "p + nat (int32 (int r + v)) \<le> len"
proof (cases "0 \<le> v")
  case True
  then have sz: "size_of_int v = nat v" using assms(3) by simp
  have "int32 (int r + v) = int r + v"
    using True assms(3,5,6) by (intro int32_nonneg(1)) simp_all
  with True assms(1) sz show ?thesis by simp
next
  case False
  then have "int32 (int r + v) = int r + v" using assms(2,5) by (intro int32_id) simp_all
  with False assms(1) show ?thesis by simp
qed

lemma unpack_octet_string_bound:
  assumes "unpack_octet_string buf p n string h = Ok (s, str, h')" and "0 \<le> s"
  shows "p + nat s \<le> length buf" and "s < 2 ^ 31"
proof -
  show "s < 2 ^ 31"
    using assms(1) by (cases rule: unpack_octet_string_OkE) (use int32_range in simp_all)
  show "p + nat s \<le> length buf"
    using assms(1)
  proof (cases rule: unpack_octet_string_OkE)
    case refused
    with assms(2) show ?thesis by simp
  next
    case (taken r v b cells)
    with assms(2) show ?thesis using sint_range32 [of v] by (auto intro: small_sum)
  qed
qed

lemma unpack_mihf_id_tlv_OkE:
  assumes run: "unpack_mihf_id_tlv ty len buf p h = Ok (s, t, h')"
  obtains (refused) "s = - 1" "t = None"
  | (taken) b string where "0 \<le> s" "s < 2 ^ 31" "p + nat s \<le> length buf" "t = Some \<lparr>tlv_blk = Some b,
      tlv_type = ty, tlv_length = len, tlv_value = string\<rparr>"
proof -
  obtain b h1 s1 str h2 where a: "kmalloc 32 h = (Some b, h1)"
    and u: "unpack_octet_string buf p len Indet h1 = Ok (s1, str, h2)"
    using run by (auto simp: unpack_mihf_id_tlv_def split: prod.splits option.splits elim: cbind_OkE)
  note run = run [unfolded unpack_mihf_id_tlv_def a u cbind.simps prod.case option.case]
  consider "s1 < 0" | "0 \<le> s1" "word_of_int s1 \<noteq> len" | "0 \<le> s1" "word_of_int s1 = len" by linarith
  then show ?thesis
  proof cases
    case 3
    with run u show ?thesis by (intro taken) (auto dest: unpack_octet_string_bound)
  qed (use run in \<open>auto intro: refused elim!: cbind_OkE\<close>)
qed

lemma unpack_mih_tlv_OkE:
  assumes run: "unpack_mih_tlv in_buf p in_len h = Ok (s, t, h')"
  obtains (refused) "s = - 1" "t = None" "h' = h"
  | (taken) ty rd v s1 where "mem_read in_buf p = Ok ty" "id_type ty" "1 \<le> rd" "rd \<le> 5"
      "unpack_mihf_id_tlv ty v in_buf (p + nat (rd + 1)) h = Ok (s1, t, h')"
      "s = (if s1 < 0 then s1 else int32 (rd + 1 + s1))"
proof -
  obtain ty where ty: "mem_read in_buf p = Ok ty"
    using run by (auto simp: unpack_mih_tlv_def elim: cbind_OkE)
  note run = run [unfolded unpack_mih_tlv_def ty cbind.simps]
  show ?thesis
  proof (cases "in_len < 2")
    case True
    with run show ?thesis by (intro refused) auto
  next
    case False
    with run obtain rd lv
      where parse: "parse_variable_length_field in_buf (p + 1) (in_len - 1) = Ok (rd, lv)"
      by (auto elim: cbind_OkE)
    note run = run [unfolded parse cbind.simps prod.case]
    from parse_result [OF parse] consider "rd = - 1" "lv = None"
      | v where "lv = Some v" "1 \<le> rd" "rd \<le> 5" by blast
    then show ?thesis
    proof cases
      case 1
      with run False show ?thesis by (intro refused) auto
    next
      case (2 v)
      show ?thesis
      proof (cases "id_type ty")
        case True
        then show ?thesis
          using run False 2(1-3) by (auto elim!: cbind_OkE intro!: taken [OF ty _ 2(2,3)])
      next
        case False
        then show ?thesis
          using run \<open>\<not> in_len < 2\<close> 2(1,2) by (intro refused) auto
      qed
    qed
  qed
qed

text \<open>An element that is unpacked moves the reader forward, and never past the block.\<close>

lemma unpack_mih_tlv_progress:
  assumes run: "unpack_mih_tlv in_buf p in_len h = Ok (s, t, h')" and s: "0 \<le> s"
  shows "1 \<le> s \<and> p + nat s \<le> length in_buf \<and> t \<noteq> None"
  using run
proof (cases rule: unpack_mih_tlv_OkE)
  case refused
  with s show ?thesis by simp
next
  case (taken ty rd v s1)
  from taken(5) have *: "0 \<le> s1 \<and> s1 < 2 ^ 31 \<and> p + nat (rd + 1) + nat s1 \<le> length in_buf \<and> t \<noteq> None"
    using taken(6) s by (cases rule: unpack_mihf_id_tlv_OkE) auto
  then have "int32 (rd + 1 + s1) = rd + 1 + s1"
    using taken(3,4,6) s by (intro int32_nonneg(1)) simp_all
  with * taken(3,4,6) show ?thesis by (simp add: nat_add_distrib)
qed

text \<open>
  What an element costs: on success the structure and the string, on failure nothing.
\<close>

lemma unpack_mihf_id_tlv_heap:
  assumes run: "unpack_mihf_id_tlv ty len buf p h = Ok (s, t, h')" and wf: "wf_heap h"
    and small: "length buf < 2 ^ 31"
  shows "s = - 1 \<and> t = None \<and> balanced h h' \<or>
    0 \<le> s \<and> (\<exists>u. t = Some u \<and> tlv_type u = ty \<and> owned_tlv u \<and> extends h h' (tlv_blocks u))"
proof -
  obtain b h1 s1 str h2 where a: "kmalloc 32 h = (Some b, h1)"
    and u: "unpack_octet_string buf p len Indet h1 = Ok (s1, str, h2)"
    using run by (auto simp: unpack_mihf_id_tlv_def split: prod.splits option.splits elim: cbind_OkE)
  note run = run [unfolded unpack_mihf_id_tlv_def a u cbind.simps prod.case option.case]
  have ext: "extends h h1 {b}" using a by (simp add: kmalloc_Some)
  from u show ?thesis
  proof (cases rule: unpack_octet_string_OkE)
    case refused
    with ext have "extends h h2 {b}" using extends_trans by fastforce
    from kfree_gained [OF wf this, of b] obtain h3
      where "kfree (Some b) h2 = Ok h3" "balanced h h3" by auto
    with refused run show ?thesis by auto
  next
    case (taken r v c cells)
    have nn: "0 \<le> sint v"
    proof (rule ccontr)
      assume "\<not> ?thesis"
      with size_of_int_neg [of "sint v"] sint_range32 [of v]
      have "2 ^ 31 \<le> size_of_int (sint v)" by simp
      with taken(4) small show False by simp
    qed
    then have "size_of_int (sint v) = nat (sint v)" using sint_range32 [of v] by simp
    then have s1: "s1 = int r + sint v" using taken(4,5) small nn by simp
    from ext taken(7) have two: "extends h h2 {b, c}" using extends_trans by fastforce
    have ne: "b \<noteq> c" using extends_disjoint [OF wf ext taken(7)] by auto
    obtain h3 where h3: "kfree (Some c) h2 = Ok h3" "extends h h3 {b}"
      using kfree_gained [OF wf two, of c] ne by (auto simp: insert_Diff_if)
    obtain h4 where h4: "kfree (Some b) h3 = Ok h4" "balanced h h4"
      using kfree_gained [OF wf h3(2), of b] by auto
    show ?thesis
      using run s1 nn h3 h4 two ne taken(6)
      by (auto simp: owned_tlv_def tlv_blocks_def insert_commute split: if_splits)
  qed
qed

lemma unpack_mih_tlv_heap:
  assumes run: "unpack_mih_tlv in_buf p in_len h = Ok (s, t, h')" and wf: "wf_heap h"
    and small: "length in_buf < 2 ^ 31"
  shows "s = - 1 \<and> t = None \<and> balanced h h' \<or>
    1 \<le> s \<and> p + nat s \<le> length in_buf \<and>
    (\<exists>u. t = Some u \<and> id_type (tlv_type u) \<and> owned_tlv u \<and> extends h h' (tlv_blocks u))"
  using run
proof (cases rule: unpack_mih_tlv_OkE)
  case (taken ty rd v s1)
  from taken(5) have bound: "s1 = - 1 \<or> 0 \<le> s1 \<and> p + nat (rd + 1) + nat s1 \<le> length in_buf"
    by (cases rule: unpack_mihf_id_tlv_OkE) auto
  then have "s1 = - 1 \<or> 0 \<le> s1 \<and> int32 (rd + 1 + s1) = rd + 1 + s1"
    using small taken(3,4) by auto
  with unpack_mihf_id_tlv_heap [OF taken(5) wf small] taken(2,3,6) bound show ?thesis
    by (auto simp: nat_add_distrib)
qed simp


text \<open>
  What it makes of bytes that the packer wrote. The two length fields agree unless the
  string has exactly 128 bytes, when only the outer one loses its 128.
\<close>

lemma enc_string_dec_len:
  "dec_len (length (enc_string bs)) =
     (if length bs = 128 then 1 else length (enc_len (length bs)) + dec_len (length bs))"
  using enc_len_bounds(1) [of "length bs"]
  by (auto simp: length_enc_string dec_len_def enc_len_short)

lemma unpack_mihf_id_tlv_enc:
  assumes held: "holds buf p (enc_string bs)" and short: "length bs + 10 < 2 ^ 31"
    and wf: "wf_heap h" and b: "kmalloc 32 h = (Some b, h1)"
    and c: "kmalloc (Suc (dec_len (length bs))) h1 = (Some c, h2)"
    and n: "n = of_nat (dec_len (length (enc_string bs)))"
  shows "length bs \<noteq> 128 \<Longrightarrow> unpack_mihf_id_tlv ty n buf p h =
      Ok (int (dec_len (length (enc_string bs))),
        Some \<lparr>tlv_blk = Some b, tlv_type = ty, tlv_length = n,
              tlv_value = Blk c (zstr (take (dec_len (length bs)) bs))\<rparr>, h2)"
    and "length bs = 128 \<Longrightarrow> \<exists>h'. unpack_mihf_id_tlv ty n buf p h = Ok (- 1, None, h') \<and> balanced h h'"
proof -
  let ?s = "length (enc_len (length bs)) + dec_len (length bs)"
  have str: "unpack_octet_string buf p n Indet h1 =
      Ok (int ?s, Blk c (zstr (take (dec_len (length bs)) bs)), h2)"
    using held short c by (rule unpack_octet_string_enc)
  show "unpack_mihf_id_tlv ty n buf p h =
      Ok (int (dec_len (length (enc_string bs))),
        Some \<lparr>tlv_blk = Some b, tlv_type = ty, tlv_length = n,
              tlv_value = Blk c (zstr (take (dec_len (length bs)) bs))\<rparr>, h2)"
    if "length bs \<noteq> 128"
  proof -
    have "word_of_int (int ?s) = n" using that by (simp add: n enc_string_dec_len)
    with that show ?thesis
      by (simp add: unpack_mihf_id_tlv_def b str enc_string_dec_len
          del: of_int_of_nat_eq of_int_add)
  qed
  assume eq: "length bs = 128"
  then have "n = 1" and "?s = 129"
    by (simp add: n enc_string_dec_len, simp add: enc_len_short dec_len_def)
  then have ne: "word_of_int (int ?s) \<noteq> n" by (simp only:) simp
  have one: "extends h h1 {b}" and two: "extends h1 h2 {c}"
    using b c by (simp_all add: kmalloc_Some)
  from extends_disjoint [OF wf one two] have bc: "b \<noteq> c" by auto
  from one two have "extends h h2 {b, c}" using extends_trans by fastforce
  from kfree_gained [OF wf this, of c] bc obtain h3
    where h3: "kfree (Some c) h2 = Ok h3" "extends h h3 {b}" by (auto simp: insert_Diff_if)
  from kfree_gained [OF wf h3(2), of b] obtain h4
    where h4: "kfree (Some b) h3 = Ok h4" "balanced h h4" by auto
  show "\<exists>h'. unpack_mihf_id_tlv ty n buf p h = Ok (- 1, None, h') \<and> balanced h h'"
    using ne h3 h4 by (simp add: unpack_mihf_id_tlv_def b str del: of_int_of_nat_eq of_int_add)
qed

lemma unpack_mih_tlv_enc:
  assumes held: "holds buf p (enc_id_tlv ty bs)" and ty: "id_type ty"
    and short: "length bs + 20 < 2 ^ 31" and n: "2 \<le> n"
    and wf: "wf_heap h" and b: "kmalloc 32 h = (Some b, h1)"
    and c: "kmalloc (Suc (dec_len (length bs))) h1 = (Some c, h2)"
  shows "length bs \<noteq> 128 \<Longrightarrow> unpack_mih_tlv buf p n h =
      Ok (int (id_tlv_read bs),
        Some \<lparr>tlv_blk = Some b, tlv_type = ty,
              tlv_length = of_nat (dec_len (length (enc_string bs))),
              tlv_value = Blk c (zstr (take (dec_len (length bs)) bs))\<rparr>, h2)"
    and "length bs = 128 \<Longrightarrow> \<exists>h'. unpack_mih_tlv buf p n h = Ok (- 1, None, h') \<and> balanced h h'"
proof -
  let ?l = "length (enc_string bs)"
  let ?e = "enc_len ?l"
  have l: "?l \<le> length bs + 5" by (rule length_enc_string_bounds)
  have rd: "mem_read buf p = Ok ty" and rest: "holds buf (Suc p) (?e @ enc_string bs)"
    using held by (simp_all add: enc_id_tlv_def enc_id_def holds_Cons)
  have parse: "parse_variable_length_field buf (Suc p) (n - 1) = Ok (int (length ?e), Some (of_nat (dec_len ?l)))"
    using rest l short by (intro vlf.get_frame(1)) simp_all
  have "holds buf (Suc p + length ?e) (enc_string bs)"
    using rest l short by (intro vlf.get_frame(2)) simp_all
  moreover have "p + nat (int (length ?e) + 1) = Suc p + length ?e" by simp
  ultimately have at: "holds buf (p + nat (int (length ?e) + 1)) (enc_string bs)" by simp
  have "length bs + 10 < 2 ^ 31" using short by simp
  note id = unpack_mihf_id_tlv_enc [OF at this wf b c refl]
  have sum: "int32 (int (length ?e) + 1 + int (dec_len ?l)) = int (id_tlv_read bs)"
    using l short dec_len_le [of ?l] enc_len_bounds(2) [of ?l] by (simp add: id_tlv_read_def)
  have n2: "\<not> n < 2" using n by (simp add: not_less)
  show "unpack_mih_tlv buf p n h =
      Ok (int (id_tlv_read bs),
        Some \<lparr>tlv_blk = Some b, tlv_type = ty,
              tlv_length = of_nat (dec_len (length (enc_string bs))),
              tlv_value = Blk c (zstr (take (dec_len (length bs)) bs))\<rparr>, h2)"
    if "length bs \<noteq> 128"
    using ty id(1) [OF that] by (simp add: unpack_mih_tlv_def rd parse n2 sum)
  show "\<exists>h'. unpack_mih_tlv buf p n h = Ok (- 1, None, h') \<and> balanced h h'"
    if "length bs = 128"
    using ty id(2) [OF that, of ty] by (auto simp: unpack_mih_tlv_def rd parse n2)
qed

section \<open>Releasing\<close>

lemma free_tlv_gained:
  assumes "wf_heap h" and "extends h h' B" and "owned_tlv t" and "tlv_blocks t \<subseteq> B"
  obtains h'' where "free_tlv t h' = Ok h''" and "extends h h'' (B - tlv_blocks t)"
proof -
  obtain b c m where t: "tlv_blk t = Some b" "tlv_value t = Blk c m" and bc: "b \<noteq> c"
    using assms(3) by (auto simp: owned_tlv_def)
  then have blocks: "tlv_blocks t = {b, c}" by (auto simp: tlv_blocks_def)
  obtain h1 where h1: "kfree (Some c) h' = Ok h1" "extends h h1 (B - {c})"
    using kfree_gained [OF assms(1,2), of c] assms(4) blocks by auto
  obtain h2 where h2: "kfree (Some b) h1 = Ok h2" "extends h h2 (B - {c} - {b})"
    using kfree_gained [OF assms(1) h1(2), of b] assms(4) blocks bc by auto
  have "B - {c} - {b} = B - tlv_blocks t" using blocks by auto
  with h1 h2 t show ?thesis by (intro that [of h2]) (simp_all add: free_tlv_def)
qed

lemma free_tlvs_gained:
  "wf_heap h \<Longrightarrow> extends h h' (B \<union> tlvs_blocks ts) \<Longrightarrow> owned_tlvs ts \<Longrightarrow> B \<inter> tlvs_blocks ts = {} \<Longrightarrow>
   \<exists>h''. free_tlvs ts h' = Ok h'' \<and> extends h h'' B"
proof (induction ts arbitrary: h')
  case Nil
  then show ?case by simp
next
  case (Cons t ts)
  have o: "owned_tlv t" "owned_tlvs ts" and d: "tlv_blocks t \<inter> tlvs_blocks ts = {}"
    "B \<inter> tlv_blocks t = {}" "B \<inter> tlvs_blocks ts = {}"
    using Cons.prems(3,4) by auto
  obtain h1 where h1: "free_tlv t h' = Ok h1"
    "extends h h1 (B \<union> tlvs_blocks (t # ts) - tlv_blocks t)"
    using free_tlv_gained [OF Cons.prems(1,2) o(1)] by auto
  have "B \<union> tlvs_blocks (t # ts) - tlv_blocks t = B \<union> tlvs_blocks ts" using d by auto
  with Cons.IH [of h1] Cons.prems(1) h1 o(2) d(3) show ?case by simp
qed

text \<open>The same for elements that are not the newest blocks.\<close>

lemma free_tlvs_gains:
  "gains h h' (B \<union> tlvs_blocks ts) \<Longrightarrow> owned_tlvs ts \<Longrightarrow> B \<inter> tlvs_blocks ts = {} \<Longrightarrow>
   \<exists>h''. free_tlvs ts h' = Ok h'' \<and> gains h h'' B"
proof (induction ts arbitrary: h')
  case Nil
  then show ?case by simp
next
  case (Cons t ts)
  obtain b c m where t: "tlv_blk t = Some b" "tlv_value t = Blk c m" and bc: "b \<noteq> c"
    using Cons.prems(2) by (auto simp: owned_tlv_def)
  then have tb: "tlv_blocks t = {b, c}" by (auto simp: tlv_blocks_def)
  have "B \<union> tlvs_blocks (t # ts) = {b, c} \<union> (B \<union> tlvs_blocks ts)" using tb by auto
  moreover have "{b, c} \<inter> (B \<union> tlvs_blocks ts) = {}" using Cons.prems(2,3) tb by auto
  ultimately obtain h1 h2 where "kfree (Some c) h' = Ok h1" "kfree (Some b) h1 = Ok h2"
    "gains h h2 (B \<union> tlvs_blocks ts)"
    using Cons.prems(1) bc by (metis kfree_two)
  with t Cons.IH [of h2] Cons.prems(2,3) show ?case by (auto simp: free_tlv_def)
qed

section \<open>Packing and unpacking with an allocator that does not refuse\<close>

lemma pack_mih_tlv_succeeds:
  assumes "tlv_string t bs" and "id_type (tlv_type t)" and "p + unat n \<le> length m"
    and "wf_heap h" and "allocs_succeed h" and "length bs \<le> 4000"
    and "length (enc_id_tlv (tlv_type t) bs) \<le> unat n"
  obtains h' where "pack_mih_tlv t m p n h
      = Ok (int (length (enc_id_tlv (tlv_type t) bs)), blit m p (enc_id_tlv (tlv_type t) bs), h')"
    and "balanced h h'" and "wf_heap h'" and "allocs_succeed h'"
    and "holds (blit m p (enc_id_tlv (tlv_type t) bs)) p (enc_id_tlv (tlv_type t) bs)"
proof -
  obtain a h0 where "kmalloc 4096 h = (Some a, h0)"
    using assms(5) by (rule kmalloc_succeedE [of _ 4096]) simp
  moreover have "length (enc_string bs) \<le> 4096"
    using assms(6) length_enc_string_bounds(2) [of bs] by simp
  ultimately obtain h' where h': "pack_mih_tlv t m p n h
      = Ok (int (length (enc_id_tlv (tlv_type t) bs)), blit m p (enc_id_tlv (tlv_type t) bs), h')"
    "balanced h h'"
    using pack_mih_tlv_fits [OF assms(1-4)] assms(7) by blast
  then show ?thesis
    using assms by (intro that [of h']) (auto intro: extends_wf)
qed

lemma unpack_id_allocs:
  assumes "wf_heap h" and "allocs_succeed h" and "length bs \<le> 4000"
  obtains b c h1 h2 where "kmalloc 32 h = (Some b, h1)"
    and "kmalloc (Suc (dec_len (length bs))) h1 = (Some c, h2)"
    and "extends h h2 {b, c}" and "b \<noteq> c"
proof -
  obtain b h1 where b: "kmalloc 32 h = (Some b, h1)" "extends h h1 {b}"
    using assms(2) by (rule kmalloc_succeedE [of _ 32]) simp
  have "allocs_succeed h1" using assms(2) b(2) by simp
  moreover have "Suc (dec_len (length bs)) \<le> 4096"
    using assms(3) dec_len_le [of "length bs"] by simp
  ultimately obtain c h2 where c: "kmalloc (Suc (dec_len (length bs))) h1 = (Some c, h2)"
    "extends h1 h2 {c}" by (rule kmalloc_succeedE)
  have "b \<noteq> c" using extends_disjoint [OF assms(1) b(2) c(2)] by auto
  moreover have "extends h h2 {b, c}"
    using extends_trans [OF b(2) c(2)] by (simp add: insert_commute)
  ultimately show ?thesis using b(1) c(1) by (intro that)
qed

lemma unpack_mih_tlv_succeeds:
  assumes "holds buf p (enc_id_tlv ty bs)" and "id_type ty" and "2 \<le> n"
    and "wf_heap h" and "allocs_succeed h" and "length bs \<le> 4000" and "length bs \<noteq> 128"
    and "0 \<notin> set bs"
  obtains u h' where "unpack_mih_tlv buf p n h = Ok (int (id_tlv_read bs), Some u, h')"
    and "tlv_type u = ty" and "tlv_string u (take (dec_len (length bs)) bs)"
    and "owned_tlv u" and "extends h h' (tlv_blocks u)"
proof -
  obtain b c h1 h2 where al: "kmalloc 32 h = (Some b, h1)"
    "kmalloc (Suc (dec_len (length bs))) h1 = (Some c, h2)" "extends h h2 {b, c}" "b \<noteq> c"
    using assms(4-6) by (rule unpack_id_allocs)
  have "length bs + 20 < 2 ^ 31" using assms(6) by simp
  note run = unpack_mih_tlv_enc(1) [OF assms(1,2) this assms(3,4) al(1,2) assms(7)]
  have "cstring (zstr (take (dec_len (length bs)) bs)) = Ok (take (dec_len (length bs)) bs)"
    using assms(8) by (intro cstring_zstr') (auto dest: in_set_takeD)
  with run al(3,4) show ?thesis
    by (intro that) (auto simp: tlv_string_def owned_tlv_def tlv_blocks_def insert_commute)
qed

lemma tlv_string_nonzero: "tlv_string t bs \<Longrightarrow> 0 \<notin> set bs"
  using cstring_prefix by (auto simp: tlv_string_def)

lemma short_id_lengths:
  assumes "length bs \<le> 127"
  shows "length (enc_id_tlv ty bs) = length bs + 3" and "id_tlv_read bs = length bs + 3"
    and "take (dec_len (length bs)) bs = bs"
  using assms by (simp_all add: length_enc_string enc_id_tlv_def length_enc_id enc_len_short
      id_tlv_read_def dec_len_def)

lemma long_id_lengths:
  assumes "128 < length bs"
  shows "length (enc_id_tlv ty bs) = id_tlv_read bs + 128"
    and "length (enc_id_tlv ty bs) \<le> length bs + 11"
    and "take (dec_len (length bs)) bs = take (length bs - 128) bs"
proof -
  have l: "128 < length (enc_string bs)"
    using assms length_enc_string_bounds(1) [of bs] by simp
  then show "length (enc_id_tlv ty bs) = id_tlv_read bs + 128"
    by (simp add: enc_id_tlv_def length_enc_id id_tlv_read_def dec_len_def)
  show "length (enc_id_tlv ty bs) \<le> length bs + 11"
    using enc_len_bounds(2) [of "length (enc_string bs)"] length_enc_string_bounds(2) [of bs]
    by (simp add: enc_id_tlv_def length_enc_id)
  show "take (dec_len (length bs)) bs = take (length bs - 128) bs"
    using assms by (simp add: dec_len_def)
qed

section \<open>Properties\<close>

text \<open>
  An identifier element whose string has at most 127 bytes, packed into a
  buffer with room for it, is unpacked again to an element of the same type and string,
  over exactly the bytes that were written. Packing leaves the allocator's ledger as it
  was; unpacking gains the element's two blocks.
\<close>

theorem id_tlv_roundtrip:
  assumes "tlv_string t bs" and "id_type (tlv_type t)" and "length bs \<le> 127"
    and "length bs + 3 \<le> unat n" and "p + unat n \<le> length m"
    and "wf_heap h" and "allocs_succeed h" and "2 \<le> k"
  shows "\<exists>m' h1 u h2. pack_mih_tlv t m p n h = Ok (int (length bs + 3), m', h1) \<and> balanced h h1 \<and>
     unpack_mih_tlv m' p k h1 = Ok (int (length bs + 3), Some u, h2) \<and>
     tlv_type u = tlv_type t \<and> tlv_string u bs \<and> owned_tlv u \<and> extends h1 h2 (tlv_blocks u)"
proof -
  let ?x = "enc_id_tlv (tlv_type t) bs"
  note len = short_id_lengths [OF assms(3)]
  have le: "length bs \<le> 4000" and ne: "length bs \<noteq> 128" and fit: "length ?x \<le> unat n"
    using assms(3,4) by (simp_all add: len)
  obtain h1 where pack: "pack_mih_tlv t m p n h = Ok (int (length ?x), blit m p ?x, h1)"
    "balanced h h1" "wf_heap h1" "allocs_succeed h1" "holds (blit m p ?x) p ?x"
    using assms(1,2,5-7) le fit by (rule pack_mih_tlv_succeeds)
  obtain u h2 where "unpack_mih_tlv (blit m p ?x) p k h1 = Ok (int (id_tlv_read bs), Some u, h2)"
    "tlv_type u = tlv_type t" "tlv_string u (take (dec_len (length bs)) bs)"
    "owned_tlv u" "extends h1 h2 (tlv_blocks u)"
    using pack(5) assms(2,8) pack(3,4) le ne tlv_string_nonzero [OF assms(1)]
    by (rule unpack_mih_tlv_succeeds)
  with pack(1,2) show ?thesis by (auto simp: len)
qed

text \<open>
  An identifier of exactly 128 bytes is packed and then rejected by the
  unpacker, with everything it allocated given back.
\<close>

theorem id_tlv_128_rejected:
  assumes "tlv_string t bs" and "id_type (tlv_type t)" and "length bs = 128"
    and "132 \<le> unat n" and "p + unat n \<le> length m"
    and "wf_heap h" and "allocs_succeed h" and "2 \<le> k"
  shows "\<exists>m' h1 h2. pack_mih_tlv t m p n h = Ok (132, m', h1) \<and>
     unpack_mih_tlv m' p k h1 = Ok (- 1, None, h2) \<and> balanced h h2"
proof -
  let ?x = "enc_id_tlv (tlv_type t) bs"
  have "length (enc_string bs) = 129"
    using assms(3) by (simp add: length_enc_string enc_len_short)
  moreover have "n_octets 1 = 1" by (simp add: n_octets_def)
  ultimately have len: "length ?x = 132"
    by (simp add: enc_id_tlv_def length_enc_id enc_len_def)
  have le: "length bs \<le> 4000" and short: "length bs + 20 < 2 ^ 31" and fit: "length ?x \<le> unat n"
    using assms(3,4) by (simp_all add: len)
  obtain h1 where pack: "pack_mih_tlv t m p n h = Ok (int (length ?x), blit m p ?x, h1)"
    "balanced h h1" "wf_heap h1" "allocs_succeed h1" "holds (blit m p ?x) p ?x"
    using assms(1,2,5-7) le fit by (rule pack_mih_tlv_succeeds)
  obtain b c h2 h3 where al: "kmalloc 32 h1 = (Some b, h2)"
    "kmalloc (Suc (dec_len (length bs))) h2 = (Some c, h3)"
    using pack(3,4) le by (rule unpack_id_allocs)
  obtain h4 where "unpack_mih_tlv (blit m p ?x) p k h1 = Ok (- 1, None, h4)" "balanced h1 h4"
    using unpack_mih_tlv_enc(2) [OF pack(5) assms(2) short assms(8) pack(3) al assms(3)] by blast
  with pack(1) extends_trans [OF pack(2)] show ?thesis by (fastforce simp: len)
qed

text \<open>
  A longer identifier is packed, accepted by the unpacker and silently cut:
  the string that comes back is the first \<open>length - 128\<close> bytes, and the reader stops
  128 bytes short of the end of the element, so that the rest of the identifier is read
  as further elements.
\<close>

theorem id_tlv_long_truncated:
  assumes "tlv_string t bs" and "id_type (tlv_type t)" and "128 < length bs" and "length bs \<le> 4000"
    and "length bs + 11 \<le> unat n" and "p + unat n \<le> length m"
    and "wf_heap h" and "allocs_succeed h" and "2 \<le> k"
  shows "\<exists>s m' h1 u h2. pack_mih_tlv t m p n h = Ok (s, m', h1) \<and>
     unpack_mih_tlv m' p k h1 = Ok (s - 128, Some u, h2) \<and>
     tlv_string u (take (length bs - 128) bs)"
proof -
  let ?x = "enc_id_tlv (tlv_type t) bs"
  note len = long_id_lengths [OF assms(3)]
  have ne: "length bs \<noteq> 128" and fit: "length ?x \<le> unat n"
    using assms(3,5) len(2) [of "tlv_type t"] by simp_all
  obtain h1 where pack: "pack_mih_tlv t m p n h = Ok (int (length ?x), blit m p ?x, h1)"
    "balanced h h1" "wf_heap h1" "allocs_succeed h1" "holds (blit m p ?x) p ?x"
    using assms(1,2,6-8,4) fit by (rule pack_mih_tlv_succeeds)
  obtain u h2 where "unpack_mih_tlv (blit m p ?x) p k h1 = Ok (int (id_tlv_read bs), Some u, h2)"
    "tlv_string u (take (dec_len (length bs)) bs)"
    using pack(5) assms(2,9) pack(3,4) assms(4) ne tlv_string_nonzero [OF assms(1)]
    by (rule unpack_mih_tlv_succeeds)
  with pack(1) show ?thesis by (auto simp: len(1,3))
qed

end
