(* ===== verification/Message.thy ===== *)
theory Message
  imports Message_Tlv
begin

text \<open>
  Whole messages of \<open>message.c\<close>: \<open>pack_mih_message\<close> and \<open>unpack_mih_message\<close>. A message
  is packed at the start of its buffer and unpacked from the start of its buffer.
\<close>

section \<open>The code\<close>

text \<open>
  The loop over the elements: \<open>Inl s\<close> is the early return of an error, \<open>Inr pos\<close> the
  position after the last element.
\<close>

fun pack_tlvs ::
    "mih_tlv list \<Rightarrow> int \<Rightarrow> mem \<Rightarrow> u32 \<Rightarrow> kheap \<Rightarrow> ((int + int) \<times> mem \<times> kheap) cres" where
  "pack_tlvs [] pos out_buf buf_size h = Ok (Inr pos, out_buf, h)"
| "pack_tlvs (tlv # ts) pos out_buf buf_size h =
     cbind (pack_mih_tlv tlv out_buf (nat pos) (buf_size - word_of_int pos) h) (\<lambda>(s, out_buf, h).
     if s < 0 then Ok (Inl s, out_buf, h)
     else pack_tlvs ts (int32 (pos + s)) out_buf buf_size h)"

definition pack_mih_message ::
    "mih_message \<Rightarrow> mem \<Rightarrow> u32 \<Rightarrow> kheap \<Rightarrow> (int \<times> mih_message \<times> mem \<times> kheap) cres" where
  "pack_mih_message msg out_buf buf_size h =
     (if buf_size < of_nat MIH_HLEN then Ok (- 1, msg, out_buf, h)
      else cbind (pack_tlvs (tlvs msg) (int MIH_HLEN) out_buf buf_size h) (\<lambda>(r, out_buf, h).
        case r of
          Inl s \<Rightarrow> Ok (s, msg, out_buf, h)
        | Inr pos \<Rightarrow>
            (let msg = msg\<lparr>header := (header msg)\<lparr>payloadlength := word_of_int (pos - int MIH_HLEN)\<rparr>\<rparr> in
             cbind (pack_mih_header (header msg) out_buf 0) (\<lambda>out_buf.
             Ok (pos, msg, out_buf, h)))))"

text \<open>
  The loop over the payload. The payload pointer is the block and the position \<open>pos\<close>;
  \<open>ts\<close> are the elements on the list so far. It ends because every element that is
  accepted moves the position forward inside the block.
\<close>

function unpack_tlvs ::
    "mem \<Rightarrow> nat \<Rightarrow> u32 \<Rightarrow> int \<Rightarrow> int \<Rightarrow> mih_tlv list \<Rightarrow> kheap \<Rightarrow> (int \<times> mih_tlv list \<times> kheap) cres" where
  "unpack_tlvs in_buf pos payload_len i n ts h =
     (if i < n
      then cbind (unpack_mih_tlv in_buf pos payload_len h) (\<lambda>(s, tlv, h).
           if s < 0 then cbind (free_tlvs ts h) (\<lambda>h. Ok (s, [], h))
           else case tlv of
               None \<Rightarrow> Fault Uninit
             | Some tlv \<Rightarrow>
                 unpack_tlvs in_buf (pos + nat s) (payload_len - word_of_int s)
                   (int32 (i + s)) n (ts @ [tlv]) h)
      else Ok (0, ts, h))"
  by pat_completeness auto
termination
proof (relation "measure (\<lambda>(in_buf, pos, _). length in_buf - pos)")
  fix in_buf :: mem and pos :: nat and payload_len :: u32 and i n :: int
    and ts :: "mih_tlv list" and h :: kheap and x s y tlv h' t
  assume "unpack_mih_tlv in_buf pos payload_len h = Ok x" and "(s, y) = x" and "(tlv, h') = y"
    and "\<not> s < 0"
  then have "1 \<le> s" and "pos + nat s \<le> length in_buf"
    using unpack_mih_tlv_progress [of in_buf pos payload_len h s tlv h'] by auto
  then have "length in_buf - (pos + nat s) < length in_buf - pos" by linarith
  then show "((in_buf, pos + nat s, payload_len - word_of_int s, int32 (i + s), n, ts @ [t], h'),
      in_buf, pos, payload_len, i, n, ts, h) \<in> measure (\<lambda>(in_buf, pos, _). length in_buf - pos)"
    by simp
qed simp

declare unpack_tlvs.simps [simp del]

definition unpack_mih_message ::
    "mem \<Rightarrow> u32 \<Rightarrow> mih_message \<Rightarrow> kheap \<Rightarrow> (int \<times> mih_message \<times> kheap) cres" where
  "unpack_mih_message in_buf in_len msg h =
     (let payload_len = in_len - of_nat MIH_HLEN in
      if unat in_len < MIH_HLEN then Ok (- 1, msg, h)
      else cbind (unpack_mih_header in_buf 0 (header msg)) (\<lambda>hdr.
        let msg = msg\<lparr>header := hdr\<rparr> in
        if unat in_len \<noteq> unat (payloadlength hdr) + MIH_HLEN then Ok (- 1, msg, h)
        else cbind (unpack_tlvs in_buf MIH_HLEN payload_len 0 (uint (payloadlength hdr)) [] h)
          (\<lambda>(r, ts, h). Ok (r, msg\<lparr>tlvs := ts\<rparr>, h))))"

section \<open>Reference encoding of messages\<close>

text \<open>An element as type and string.\<close>

definition is_id :: "mih_tlv \<Rightarrow> u8 \<times> u8 list \<Rightarrow> bool" where
  "is_id t x \<longleftrightarrow> tlv_type t = fst x \<and> id_type (fst x) \<and> tlv_string t (snd x)"

definition enc_tlvs :: "(u8 \<times> u8 list) list \<Rightarrow> u8 list" where
  "enc_tlvs xs = concat (map (\<lambda>(ty, bs). enc_id_tlv ty bs) xs)"

text \<open>A message with two short identifiers, for examples.\<close>

definition sample_message :: mih_message where
  "sample_message =
     \<lparr>header = zero_header\<lparr>version := 1, sid := 1, opcode := 1, aid := 1\<rparr>,
      tlvs_head = \<lparr>tlv_blk = None, tlv_type = 0, tlv_length = 0, tlv_value = Indet\<rparr>,
      tlvs = [\<lparr>tlv_blk = None, tlv_type = 1, tlv_length = 0, tlv_value = Blk 7 (zstr [109])\<rparr>,
              \<lparr>tlv_blk = None, tlv_type = 2, tlv_length = 0, tlv_value = Blk 8 (zstr [])\<rparr>]\<rparr>"

text \<open>A datagram of eleven bytes in a larger receive buffer that was cleared before.\<close>

definition short_datagram :: mem where
  "short_datagram = map Some [16, 0, 20, 1, 0, 7, 0, 3, 1, 5, 4] @ replicate 20 (Some 0)"

text \<open>An element whose value is a C string, of any type; its length fits an \<open>int\<close>.\<close>

definition cstr_tlv :: "mih_tlv \<Rightarrow> bool" where
  "cstr_tlv t \<longleftrightarrow> (\<exists>bs. tlv_string t bs \<and> length bs + 5 < 2 ^ 31)"

lemma enc_tlvs_Nil [simp]: "enc_tlvs [] = []"
  by (simp add: enc_tlvs_def)

lemma enc_tlvs_Cons [simp]: "enc_tlvs ((ty, bs) # xs) = enc_id_tlv ty bs @ enc_tlvs xs"
  by (simp add: enc_tlvs_def)

section \<open>Packing\<close>

lemma unat_sub_pos:
  "pos \<le> unat n \<Longrightarrow> unat (n - word_of_int (int pos) :: u32) = unat n - pos"
proof -
  assume le: "pos \<le> unat n"
  have "unat n < 2 ^ LENGTH(32)" by (rule unsigned_less)
  with le have "pos < 2 ^ 32" by simp
  then have u: "unat (of_nat pos :: u32) = pos" by (simp add: unat_of_nat)
  then have "(of_nat pos :: u32) \<le> n" using le by (simp add: word_le_nat_alt)
  then show ?thesis by (simp add: unat_sub u)
qed

lemma pack_tlvs_fits:
  "list_all2 is_id ts xs \<Longrightarrow> \<forall>x \<in> set xs. length (snd x) \<le> 4000 \<Longrightarrow> wf_heap h \<Longrightarrow> allocs_succeed h \<Longrightarrow>
   pos + length (enc_tlvs xs) \<le> unat n \<Longrightarrow> unat n \<le> length m \<Longrightarrow> unat n < 2 ^ 31 \<Longrightarrow>
   \<exists>h'. pack_tlvs ts (int pos) m n h
     = Ok (Inr (int (pos + length (enc_tlvs xs))), blit m pos (enc_tlvs xs), h') \<and> balanced h h'"
proof (induction ts xs arbitrary: pos m h rule: list_all2_induct)
  case Nil
  then show ?case by simp
next
  case (Cons t ts x xs)
  obtain ty bs where x: "x = (ty, bs)" by (cases x)
  let ?e = "enc_id_tlv ty bs"
  have t: "tlv_string t bs" "tlv_type t = ty" "id_type ty" using Cons.hyps(1) by (simp_all add: is_id_def x)
  have len: "pos + length ?e + length (enc_tlvs xs) \<le> unat n" using Cons.prems(4) by (simp add: x)
  then have un: "unat (n - word_of_int (int pos)) = unat n - pos" by (intro unat_sub_pos) simp
  have le: "length bs \<le> 4000" and room: "pos + unat (n - word_of_int (int pos)) \<le> length m"
    and fit: "length (enc_id_tlv (tlv_type t) bs) \<le> unat (n - word_of_int (int pos))"
    using Cons.prems(1,5) len t(2) by (simp_all add: x un del: of_int_of_nat_eq)
  obtain h1 where h1: "pack_mih_tlv t m pos (n - word_of_int (int pos)) h = Ok (int (length ?e), blit m pos ?e, h1)"
    "balanced h h1" "wf_heap h1" "allocs_succeed h1"
    using t(1) t(3) [folded t(2)] room Cons.prems(2,3) le fit unfolding t(2) [symmetric]
    by (rule pack_mih_tlv_succeeds)
  have sum: "int32 (int pos + int (length ?e)) = int (pos + length ?e)"
    using len Cons.prems(6) by simp
  have "\<exists>h'. pack_tlvs ts (int (pos + length ?e)) (blit m pos ?e) n h1
     = Ok (Inr (int (pos + length ?e + length (enc_tlvs xs))), blit (blit m pos ?e) (pos + length ?e) (enc_tlvs xs), h')
     \<and> balanced h1 h'"
    using Cons.prems h1(3,4) len by (intro Cons.IH) simp_all
  then obtain h2 where h2: "pack_tlvs ts (int (pos + length ?e)) (blit m pos ?e) n h1
     = Ok (Inr (int (pos + length ?e + length (enc_tlvs xs))), blit (blit m pos ?e) (pos + length ?e) (enc_tlvs xs), h2)"
     "balanced h1 h2" by blast
  have "blit (blit m pos ?e) (pos + length ?e) (enc_tlvs xs) = blit m pos (enc_tlvs (x # xs))"
    using len Cons.prems(5) by (simp add: blit_blit x)
  with h1(1) h2 extends_trans [OF h1(2) h2(2)] sum show ?case
    by (simp add: x add.assoc)
qed


text \<open>Packing stays inside the buffer and gives back what it allocates, whatever the strings.\<close>

lemma pack_mih_tlv_safe:
  assumes "cstr_tlv t" and "p + unat n \<le> length m" and "wf_heap h" and "allocs_succeed h"
  obtains s m' h' where "pack_mih_tlv t m p n h = Ok (s, m', h')"
    and "s < 0 \<or> 0 \<le> s \<and> nat s \<le> unat n" and "confined m p (unat n) m'" and "balanced h h'"
proof -
  obtain bs where bs: "tlv_string t bs" "length bs + 5 < 2 ^ 31"
    using assms(1) by (auto simp: cstr_tlv_def)
  let ?x = "enc_id_tlv (tlv_type t) bs"
  obtain a h0 where a: "kmalloc 4096 h = (Some a, h0)"
    using assms(4) by (rule kmalloc_succeedE [of _ 4096]) simp
  show ?thesis
  proof (cases "id_type (tlv_type t) \<and> length (enc_string bs) \<le> 4096 \<and> length ?x \<le> unat n")
    case True
    then have ty: "id_type (tlv_type t)" and s: "length (enc_string bs) \<le> 4096"
      and f: "length ?x \<le> unat n" by simp_all
    obtain h' where "pack_mih_tlv t m p n h = Ok (int (length ?x), blit m p ?x, h')" "balanced h h'"
      using pack_mih_tlv_fits [OF bs(1) ty assms(2,3) a s f] by blast
    then show ?thesis using f assms(2) by (intro that) (auto intro: confined_blit)
  next
    case False
    then have "\<not> id_type (tlv_type t) \<or> 4096 < length (enc_string bs) \<or> unat n < length ?x" by linarith
    from pack_mih_tlv_refuses [OF bs(1) assms(2,3) a bs(2) this] show ?thesis
      by (auto intro: that)
  qed
qed

lemma pack_tlvs_safe:
  "\<forall>t \<in> set ts. cstr_tlv t \<Longrightarrow> wf_heap h \<Longrightarrow> allocs_succeed h \<Longrightarrow> pos \<le> unat n \<Longrightarrow>
   unat n \<le> length m \<Longrightarrow> unat n < 2 ^ 31 \<Longrightarrow>
   \<exists>r m' h'. pack_tlvs ts (int pos) m n h = Ok (r, m', h') \<and>
     (case r of Inl s \<Rightarrow> s < 0 | Inr q \<Rightarrow> int pos \<le> q \<and> nat q \<le> unat n) \<and>
     confined m pos (unat n - pos) m' \<and> balanced h h'"
proof (induction ts arbitrary: pos m h)
  case Nil
  then show ?case by simp
next
  case (Cons t ts)
  let ?k = "n - word_of_int (int pos)"
  have un: "unat ?k = unat n - pos" using Cons.prems(4) by (rule unat_sub_pos)
  have c: "cstr_tlv t" and room: "pos + unat ?k \<le> length m"
    using Cons.prems(1,4,5) un by simp_all
  obtain s m1 h1 where t: "pack_mih_tlv t m pos ?k h = Ok (s, m1, h1)"
    "s < 0 \<or> 0 \<le> s \<and> nat s \<le> unat ?k" "confined m pos (unat ?k) m1" "balanced h h1"
    using c room Cons.prems(2,3) by (rule pack_mih_tlv_safe)
  show ?case
  proof (cases "s < 0")
    case True
    with t un show ?thesis by (simp del: of_int_of_nat_eq)
  next
    case False
    define q where "q = pos + nat s"
    from False t(2) have q: "q \<le> unat n" "int32 (int pos + s) = int q" "pos \<le> q"
      using un Cons.prems(4,6) by (auto simp: q_def)
    have "\<exists>r m' h'. pack_tlvs ts (int q) m1 n h1 = Ok (r, m', h') \<and>
       (case r of Inl s \<Rightarrow> s < 0 | Inr p \<Rightarrow> int q \<le> p \<and> nat p \<le> unat n) \<and>
       confined m1 q (unat n - q) m' \<and> balanced h1 h'"
      using Cons.prems t(3,4) q by (intro Cons.IH) (auto dest: confined_length intro: extends_wf)
    then obtain r m' h' where r: "pack_tlvs ts (int q) m1 n h1 = Ok (r, m', h')"
      "case r of Inl s \<Rightarrow> s < 0 | Inr p \<Rightarrow> int q \<le> p \<and> nat p \<le> unat n"
      "confined m1 q (unat n - q) m'" "balanced h1 h'" by blast
    have "confined m1 pos (unat n - pos) m'"
      using r(3) by (rule confined_mono) (use q in simp_all)
    with t(3) un have "confined m pos (unat n - pos) m'" by (metis confined_trans)
    moreover have "balanced h h'" using extends_trans [OF t(4) r(4)] by simp
    moreover have "case r of Inl s \<Rightarrow> s < 0 | Inr p \<Rightarrow> int pos \<le> p \<and> nat p \<le> unat n"
      using r(2) q(3) by (auto split: sum.splits)
    ultimately show ?thesis
      using False t(1) r(1) q(2) by (auto simp del: of_int_of_nat_eq)
  qed
qed

section \<open>Unpacking\<close>

text \<open>
  Reading back bytes that the packer wrote: \<open>i\<close> bytes of \<open>n\<close> have been read.
\<close>

lemma unat_small: "n < 2 ^ 31 \<Longrightarrow> unat (of_nat n :: u32) = n"
  by (simp add: unat_of_nat)

lemma unpack_tlvs_step:
  assumes "i < n" and "unpack_mih_tlv m pos k h = Ok (int r, Some v, h')"
  shows "unpack_tlvs m pos k i n ts h
    = unpack_tlvs m (pos + r) (k - word_of_int (int r)) (int32 (i + int r)) n (ts @ [v]) h'"
  using assms by (subst unpack_tlvs.simps) simp

lemma unpack_tlvs_enc:
  "holds m pos (enc_tlvs xs) \<Longrightarrow> \<forall>x \<in> set xs. id_type (fst x) \<and> length (snd x) \<le> 127 \<and> 0 \<notin> set (snd x) \<Longrightarrow>
   wf_heap h \<Longrightarrow> allocs_succeed h \<Longrightarrow> i + length (enc_tlvs xs) = n \<Longrightarrow> n < 2 ^ 31 \<Longrightarrow>
   \<exists>us h'. unpack_tlvs m pos (of_nat (n - i)) (int i) (int n) ts h = Ok (0, ts @ us, h') \<and>
     list_all2 is_id us xs \<and> owned_tlvs us \<and> extends h h' (tlvs_blocks us)"
proof (induction xs arbitrary: pos i ts h)
  case Nil
  then show ?case by (subst unpack_tlvs.simps) simp
next
  case (Cons x xs)
  obtain ty bs where x: "x = (ty, bs)" by (cases x)
  let ?e = "enc_id_tlv ty bs"
  have ty: "id_type ty" and le: "length bs \<le> 127" and nz: "0 \<notin> set bs" using Cons.prems(2) by (auto simp: x)
  note len = short_id_lengths [OF le]
  have at: "holds m pos ?e" and rest: "holds m (pos + length ?e) (enc_tlvs xs)"
    using Cons.prems(1) by (simp_all add: x holds_append)
  have sum: "i + length ?e + length (enc_tlvs xs) = n" using Cons.prems(5) by (simp add: x)
  then have u: "unat (of_nat (n - i) :: u32) = n - i" using Cons.prems(6) by (intro unat_small) simp
  then have two: "2 \<le> (of_nat (n - i) :: u32)" using sum by (simp add: word_le_nat_alt len)
  have le': "length bs \<le> 4000" and ne: "length bs \<noteq> 128" using le by simp_all
  obtain v h1 where v: "unpack_mih_tlv m pos (of_nat (n - i)) h = Ok (int (id_tlv_read bs), Some v, h1)"
    "tlv_type v = ty" "tlv_string v (take (dec_len (length bs)) bs)" "owned_tlv v" "extends h h1 (tlv_blocks v)"
    using at ty two Cons.prems(3,4) le' ne nz by (rule unpack_mih_tlv_succeeds)
  have w: "of_nat (n - i) - word_of_int (int (length ?e)) = (of_nat (n - (i + length ?e)) :: u32)"
    using sum by (simp flip: of_nat_diff)
  have s: "int32 (int i + int (length ?e)) = int (i + length ?e)" using sum Cons.prems(6) by simp
  have "\<exists>us h'. unpack_tlvs m (pos + length ?e) (of_nat (n - (i + length ?e))) (int (i + length ?e)) (int n) (ts @ [v]) h1
       = Ok (0, (ts @ [v]) @ us, h') \<and> list_all2 is_id us xs \<and> owned_tlvs us \<and> extends h1 h' (tlvs_blocks us)"
    using rest Cons.prems(2,3,4,6) sum v(5) by (intro Cons.IH) (auto intro: extends_wf)
  then obtain us h2 where us: "unpack_tlvs m (pos + length ?e) (of_nat (n - (i + length ?e))) (int (i + length ?e)) (int n) (ts @ [v]) h1
       = Ok (0, (ts @ [v]) @ us, h2)" "list_all2 is_id us xs" "owned_tlvs us" "extends h1 h2 (tlvs_blocks us)" by blast
  have er: "id_tlv_read bs = length ?e" and lt: "int i < int n" using sum by (simp_all add: len)
  have "tlv_blocks v \<inter> tlvs_blocks us = {}" using extends_disjoint [OF Cons.prems(3) v(5) us(4)] .
  moreover have "unpack_tlvs m pos (of_nat (n - i)) (int i) (int n) ts h = Ok (0, ts @ (v # us), h2)"
    unfolding unpack_tlvs_step [OF lt v(1) [unfolded er]] w s us(1) by simp
  moreover have "is_id v x" using v(2,3) len(3) ty by (simp add: is_id_def x)
  ultimately show ?case
    using us(2,3) v(4) extends_trans [OF v(5) us(4)]
    by (intro exI [of _ "v # us"] exI [of _ h2]) simp
qed

text \<open>On any input: what is gained is on the list, or nothing is gained.\<close>

lemma unpack_tlvs_heap:
  "unpack_tlvs m pos k i n ts h1 = Ok (r, us, h') \<Longrightarrow> length m < 2 ^ 31 \<Longrightarrow> wf_heap h \<Longrightarrow>
   extends h h1 (tlvs_blocks ts) \<Longrightarrow> owned_tlvs ts \<Longrightarrow> \<forall>t \<in> set ts. id_type (tlv_type t) \<Longrightarrow>
   r = - 1 \<and> us = [] \<and> balanced h h' \<or>
   r = 0 \<and> owned_tlvs us \<and> extends h h' (tlvs_blocks us) \<and> (\<forall>t \<in> set us. id_type (tlv_type t))"
proof (induction m pos k i n ts h1 rule: unpack_tlvs.induct)
  case (1 m pos k i n ts h1)
  show ?case
  proof (cases "i < n")
    case True
    obtain s t h2 where u: "unpack_mih_tlv m pos k h1 = Ok (s, t, h2)"
      using "1.prems"(1) True by (subst (asm) unpack_tlvs.simps) (auto elim: cbind_OkE)
    note run = "1.prems"(1) [unfolded unpack_tlvs.simps [of m pos k i n ts h1] u]
    have wf1: "wf_heap h1" using "1.prems"(3,4) by (rule extends_wf)
    from unpack_mih_tlv_heap [OF u wf1 "1.prems"(2)] consider (bad) "s = - 1" "balanced h1 h2"
      | (good) v where "1 \<le> s" "t = Some v" "id_type (tlv_type v)" "owned_tlv v" "extends h1 h2 (tlv_blocks v)"
      by blast
    then show ?thesis
    proof cases
      case bad
      have "extends h h2 ({} \<union> tlvs_blocks ts)" using extends_trans [OF "1.prems"(4) bad(2)] by simp
      from free_tlvs_gained [OF "1.prems"(3) this "1.prems"(5)] obtain h3
        where "free_tlvs ts h2 = Ok h3" "balanced h h3" by auto
      with run True bad(1) show ?thesis by auto
    next
      case (good v)
      have ext: "extends h h2 (tlvs_blocks (ts @ [v]))"
        using extends_trans [OF "1.prems"(4) good(5)] by simp
      have own: "owned_tlvs (ts @ [v])"
        using "1.prems"(5) good(4) extends_disjoint [OF "1.prems"(3,4) good(5)]
        by (simp add: owned_tlvs_append)
      have "unpack_tlvs m (pos + nat s) (k - word_of_int s) (int32 (i + s)) n (ts @ [v]) h2 = Ok (r, us, h')"
        using run True good(1,2) by simp
      then show ?thesis
        using "1.IH" [OF True u refl refl _ good(2) _ "1.prems"(2,3) ext own] good(1,3) "1.prems"(6)
        by auto
    qed
  next
    case False
    with "1.prems" show ?thesis by (subst (asm) unpack_tlvs.simps) auto
  qed
qed

lemma unpack_message_result:
  assumes "unpack_mih_message in_buf in_len msg h = Ok (r, msg', h')"
    and "wf_heap h" and "length in_buf < 2 ^ 31"
  shows "r = - 1 \<and> balanced h h' \<or>
     r = 0 \<and> owned_tlvs (tlvs msg') \<and> extends h h' (tlvs_blocks (tlvs msg')) \<and>
     (\<forall>t \<in> set (tlvs msg'). id_type (tlv_type t))"
proof -
  have "balanced h h \<and> owned_tlvs []" by simp
  then show ?thesis
    using assms(1) unpack_tlvs_heap [OF _ assms(3,2), of 8 "in_len - 8" 0 _ "[]" h]
    by (fastforce simp: unpack_mih_message_def Let_def split: if_splits elim!: cbind_OkE)
qed

lemma list_all2_is_id:
  "list_all2 is_id ts xs \<Longrightarrow> \<forall>x \<in> set xs. id_type (fst x) \<and> 0 \<notin> set (snd x)"
  by (induction rule: list_all2_induct) (auto simp: is_id_def dest: tlv_string_nonzero)

text \<open>Packing and unpacking a whole message, in terms of the reference encoding.\<close>

lemma pack_mih_message_enc:
  assumes "list_all2 is_id (tlvs msg) xs" and "\<forall>x \<in> set xs. length (snd x) \<le> 127"
    and "8 + length (enc_tlvs xs) \<le> unat n" and "unat n \<le> length buf" and "unat n \<le> 4096"
    and "wf_heap h" and "allocs_succeed h"
  obtains h1 where "pack_mih_message msg buf n h
      = Ok (int (8 + length (enc_tlvs xs)),
          msg\<lparr>header := (header msg)\<lparr>payloadlength := of_nat (length (enc_tlvs xs))\<rparr>\<rparr>,
          blit buf 0 (enc_header ((header msg)\<lparr>payloadlength := of_nat (length (enc_tlvs xs))\<rparr>)
            @ enc_tlvs xs), h1)"
    and "balanced h h1"
proof -
  let ?e = "enc_tlvs xs"
  let ?hdr = "(header msg)\<lparr>payloadlength := of_nat (length ?e)\<rparr>"
  have "\<exists>h'. pack_tlvs (tlvs msg) (int 8) buf n h
     = Ok (Inr (int (8 + length ?e)), blit buf 8 ?e, h') \<and> balanced h h'"
    using assms by (intro pack_tlvs_fits) auto
  then obtain h1 where run: "pack_tlvs (tlvs msg) 8 buf n h = Ok (Inr (int (8 + length ?e)), blit buf 8 ?e, h1)"
    and bal: "balanced h h1" by auto
  have "\<not> n < 8" using assms(3) by (simp add: word_less_nat_alt)
  moreover have "pack_mih_header ?hdr (blit buf 8 ?e) 0 = Ok (blit (blit buf 8 ?e) 0 (enc_header ?hdr))"
    using assms(3,4) by (intro pack_mih_header_blit) simp
  moreover have "blit (blit buf 8 ?e) 0 (enc_header ?hdr) = blit buf 0 (enc_header ?hdr @ ?e)"
    using assms(3,4) by (simp add: blit_def)
  ultimately show ?thesis
    using run bal by (intro that [of h1]) (simp_all add: pack_mih_message_def Let_def)
qed

lemma unpack_mih_message_enc:
  assumes held: "holds buf 0 (enc_header hdr @ enc_tlvs xs)"
    and pl: "payloadlength hdr = of_nat (length (enc_tlvs xs))" and l: "length (enc_tlvs xs) \<le> 4088"
    and ids: "\<forall>x \<in> set xs. id_type (fst x) \<and> length (snd x) \<le> 127 \<and> 0 \<notin> set (snd x)"
    and al: "wf_heap h" "allocs_succeed h"
  obtains us h' where "unpack_mih_message buf (of_nat (8 + length (enc_tlvs xs))) msg0 h
      = Ok (0, msg0\<lparr>header := hdr\<lparr>rsvd1 := 0, rsvd2 := 0\<rparr>, tlvs := us\<rparr>, h')"
    and "list_all2 is_id us xs" and "owned_tlvs us" and "extends h h' (tlvs_blocks us)"
proof -
  define len where "len = length (enc_tlvs xs)"
  have hd: "unpack_mih_header buf 0 (header msg0) = Ok (hdr\<lparr>rsvd1 := 0, rsvd2 := 0\<rparr>)"
    and at: "holds buf 8 (enc_tlvs xs)"
    using held by (simp_all add: holds_append unpack_enc_header)
  have "\<exists>us h'. unpack_tlvs buf 8 (of_nat (len - 0)) (int 0) (int len) [] h = Ok (0, [] @ us, h') \<and>
     list_all2 is_id us xs \<and> owned_tlvs us \<and> extends h h' (tlvs_blocks us)"
    using l by (intro unpack_tlvs_enc [OF at ids al]) (simp_all add: len_def)
  then obtain us h' where us: "unpack_tlvs buf 8 (of_nat len) 0 (int len) [] h = Ok (0, us, h')"
     "list_all2 is_id us xs" "owned_tlvs us" "extends h h' (tlvs_blocks us)" by auto
  have u8: "unat (of_nat (8 + len) :: u32) = 8 + len" using l by (intro unat_small) (simp add: len_def)
  have u: "unat (of_nat len :: 16 word) = len" "uint (of_nat len :: 16 word) = int len"
    "of_nat (8 + len) - 8 = (of_nat len :: u32)"
    using l by (simp_all add: len_def unat_of_nat uint_nat)
  have "unpack_mih_message buf (of_nat (8 + len)) msg0 h =
      Ok (0, msg0\<lparr>header := hdr\<lparr>rsvd1 := 0, rsvd2 := 0\<rparr>, tlvs := us\<rparr>, h')"
    unfolding unpack_mih_message_def Let_def hd
    by (simp del: of_nat_add add: u8 u us(1) pl flip: len_def)
  with us(2-4) show ?thesis by (intro that) (simp_all add: len_def)
qed

lemma unpack_short_datagram:
  "\<exists>msg' h'. unpack_mih_message short_datagram 11 sample_message heap0 = Ok (0, msg', h') \<and>
     map tlv_value (tlvs msg') = [Blk 1 [Some 0, Some 0, Some 0, Some 0, Some 0]]"
proof -
  have hdr: "\<exists>hdr. unpack_mih_header short_datagram 0 h0 = Ok hdr \<and> payloadlength hdr = 3" for h0
    by (simp add: unpack_mih_header_def short_datagram_def mem_read_def del: replicate.simps)
  have "\<exists>t h'. unpack_mih_tlv short_datagram 8 3 heap0 = Ok (7, Some t, h') \<and>
      tlv_value t = Blk 1 [Some 0, Some 0, Some 0, Some 0, Some 0]"
    by (simp add: unpack_mih_tlv_def parse_variable_length_field_def unpack_mihf_id_tlv_def
        unpack_octet_string_def short_datagram_def mem_read_def kmalloc_def heap0_def memcpy_def
        mem_write_def del: replicate.simps) (simp add: numeral_eq_Suc)
  then obtain t h' where t: "unpack_mih_tlv short_datagram 8 3 heap0 = Ok (7, Some t, h')"
    "tlv_value t = Blk 1 [Some 0, Some 0, Some 0, Some 0, Some 0]" by blast
  then have "unpack_tlvs short_datagram 8 3 0 3 [] heap0 = Ok (0, [t], h')"
    by (simp add: unpack_tlvs.simps)
  with hdr [of "header sample_message"] t(2) show ?thesis
    by (auto simp: unpack_mih_message_def Let_def)
qed

section \<open>Properties\<close>

text \<open>
  Property C2: a message whose elements are identifiers of at most 127 bytes, packed into
  a buffer with room for it, is unpacked from the packed bytes to a message with the same
  header (its payload length filled in, the reserved fields cleared) and elements of the
  same types and strings in the same order. The packer gives back all it allocates; the
  unpacker gains exactly the blocks of the elements.
\<close>

theorem message_roundtrip:
  assumes "list_all2 is_id (tlvs msg) xs" and "\<forall>x \<in> set xs. length (snd x) \<le> 127"
    and "8 + length (enc_tlvs xs) \<le> unat n" and "unat n \<le> length buf" and "unat n \<le> 4096"
    and "wf_heap h" and "allocs_succeed h"
  shows "\<exists>len msg' buf' h1 msg'' h2.
     pack_mih_message msg buf n h = Ok (int (8 + len), msg', buf', h1) \<and> balanced h h1 \<and>
     unpack_mih_message buf' (of_nat (8 + len)) msg0 h1 = Ok (0, msg'', h2) \<and>
     header msg'' = (header msg)\<lparr>rsvd1 := 0, rsvd2 := 0, payloadlength := of_nat len\<rparr> \<and>
     list_all2 is_id (tlvs msg'') xs \<and>
     owned_tlvs (tlvs msg'') \<and> extends h1 h2 (tlvs_blocks (tlvs msg''))"
proof -
  let ?e = "enc_tlvs xs"
  let ?hdr = "(header msg)\<lparr>payloadlength := of_nat (length ?e)\<rparr>"
  obtain h1 where pack: "pack_mih_message msg buf n h
      = Ok (int (8 + length ?e), msg\<lparr>header := ?hdr\<rparr>, blit buf 0 (enc_header ?hdr @ ?e), h1)"
    "balanced h h1"
    using assms by (rule pack_mih_message_enc)
  have al: "wf_heap h1" "allocs_succeed h1" using assms(6,7) pack(2) by (auto intro: extends_wf)
  have at: "holds (blit buf 0 (enc_header ?hdr @ ?e)) 0 (enc_header ?hdr @ ?e)"
    using assms(3,4) by (intro holds_blit) simp
  have ids: "\<forall>x \<in> set xs. id_type (fst x) \<and> length (snd x) \<le> 127 \<and> 0 \<notin> set (snd x)"
    using assms(2) list_all2_is_id [OF assms(1)] by blast
  have pl: "payloadlength ?hdr = of_nat (length ?e)" and le: "length ?e \<le> 4088"
    using assms(3,5) by simp_all
  obtain us h2 where "unpack_mih_message (blit buf 0 (enc_header ?hdr @ ?e)) (of_nat (8 + length ?e)) msg0 h1
      = Ok (0, msg0\<lparr>header := ?hdr\<lparr>rsvd1 := 0, rsvd2 := 0\<rparr>, tlvs := us\<rparr>, h2)"
    "list_all2 is_id us xs" "owned_tlvs us" "extends h1 h2 (tlvs_blocks us)"
    using at pl le ids al by (rule unpack_mih_message_enc)
  with pack show ?thesis by (intro exI [of _ "length ?e"]) simp
qed

theorem message_roundtrip_witness:
  "\<exists>len msg' buf' h1 msg'' h2.
     pack_mih_message sample_message (replicate 100 None) 100 heap0 = Ok (int (8 + len), msg', buf', h1) \<and>
     unpack_mih_message buf' (of_nat (8 + len)) sample_message h1 = Ok (0, msg'', h2) \<and>
     list_all2 is_id (tlvs msg'') [(1, [109]), (2, [])]"
proof -
  have "list_all2 is_id (tlvs sample_message) [(1, [109]), (2, [])]"
    by (simp add: sample_message_def is_id_def tlv_string_def)
  moreover have "length (enc_tlvs [(1, [109]), (2, [])]) = 7" by (simp add: short_id_lengths)
  ultimately show ?thesis
    using message_roundtrip [of sample_message "[(1, [109]), (2, [])]" 100 "replicate 100 None"
        heap0 sample_message]
    by (simp del: replicate.simps) blast
qed



text \<open>
  Property C11: whatever bytes arrive, when the unpacker returns it has either failed with
  everything it allocated given back, or succeeded with a list of identifier elements that
  share no block and own exactly what was allocated.
\<close>

theorem unpack_message_no_leak:
  assumes "unpack_mih_message in_buf in_len msg h = Ok (r, msg', h')"
    and "wf_heap h" and "length in_buf < 2 ^ 31"
  shows "r = - 1 \<and> balanced h h' \<or>
     r = 0 \<and> owned_tlvs (tlvs msg') \<and> extends h h' (tlvs_blocks (tlvs msg')) \<and>
     (\<forall>t \<in> set (tlvs msg'). id_type (tlv_type t))"
  using assms by (rule unpack_message_result)

theorem unpack_message_no_leak_witness:
  "\<exists>msg' h'. unpack_mih_message short_datagram 11 sample_message heap0 = Ok (0, msg', h') \<and>
     owned_tlvs (tlvs msg') \<and> extends heap0 h' (tlvs_blocks (tlvs msg'))"
proof -
  obtain msg' h' where run: "unpack_mih_message short_datagram 11 sample_message heap0 = Ok (0, msg', h')"
    using unpack_short_datagram by blast
  from unpack_message_no_leak [OF this] show ?thesis
    using run by (simp add: short_datagram_def)
qed


text \<open>
  The length of an element is never compared with the length of the datagram.
  A datagram of eleven bytes whose only element claims a string of four bytes that are not
  there is accepted, and the string handed to the protocol is made of the four cells of the
  receive buffer after the datagram.
\<close>

theorem unpack_message_accepts_unsent_bytes:
  "\<exists>msg' h'. unpack_mih_message short_datagram 11 sample_message heap0 = Ok (0, msg', h') \<and>
     map tlv_value (tlvs msg') = [Blk 1 [Some 0, Some 0, Some 0, Some 0, Some 0]]"
  by (rule unpack_short_datagram)

text \<open>
  Property C37: a datagram of thirteen bytes can make the unpacker read outside the receive
  buffer. When the inner length field of an identifier announces more bytes than the
  buffer has left and the allocator grants a block for them, the copy runs past the end of
  the buffer, before the two length fields are compared.
\<close>

theorem unpack_message_overread:
  assumes "holds buf 0 (enc_header hdr @ [ty, 3, 0x82, hi, lo])" and "payloadlength hdr = 5"
    and "id_type ty" and "length buf < 13 + (unat hi * 256 + unat lo)"
    and "\<forall>i k. k \<le> 65536 \<longrightarrow> kh_ok h i k"
  shows "unpack_mih_message buf 13 msg h = Fault OutOfBounds"
proof -
  define L where "L = unat hi * 256 + unat lo"
  have hi: "unat hi < 256" "unat lo < 256" using unsigned_less [of hi] unsigned_less [of lo] by simp_all
  then have L: "L < 65536" by (simp add: L_def)
  have hd: "unpack_mih_header buf 0 (header msg) = Ok (hdr\<lparr>rsvd1 := 0, rsvd2 := 0\<rparr>)"
    using assms(1) by (intro unpack_enc_header) (simp add: holds_append)
  have rd: "mem_read buf 8 = Ok ty" "mem_read buf 9 = Ok 3" "mem_read buf 10 = Ok 0x82"
    "mem_read buf 11 = Ok hi" "mem_read buf 12 = Ok lo"
    using assms(1) by (simp_all add: holds_append holds_Cons numeral_eq_Suc)
  have outer: "parse_variable_length_field buf 9 4 = Ok (1, Some 3)"
    by (simp add: parse_variable_length_field_def rd)
  have "push_bit 8 (ucast hi) OR ucast lo = (of_nat L :: u32)"
    unfolding shift_in_byte by (simp add: L_def)
  then have "plf_read buf 10 2 3 (ucast hi) = Ok (3, of_nat L)"
    by (simp add: plf_read.simps rd)
  then have inner: "parse_variable_length_field buf 10 3 = Ok (3, Some (of_nat L))"
    by (simp add: parse_variable_length_field_def rd)
  obtain b h1 where b: "kmalloc 32 h = (Some b, h1)" and ok: "kh_ok h1 = kh_ok h"
    using assms(5) by (simp add: kmalloc_def)
  have si: "sint (of_nat L :: u32) = int L" using L by (intro sint_of_small) simp
  obtain c h2 where c: "kmalloc (Suc L) h1 = (Some c, h2)"
    using assms(5) ok L by (simp add: kmalloc_def)
  have sz: "size_of_int (int32 (int L + 1)) = Suc L" "size_of_int (int L) = L" using L by simp_all
  have "memcpy (replicate (Suc L) None) 0 buf 13 L = Fault OutOfBounds"
    using assms(4) by (simp add: memcpy_def L_def)
  then have str: "unpack_octet_string buf 10 3 Indet h1 = Fault OutOfBounds"
    unfolding unpack_octet_string_def inner by (simp add: si sz c Let_def del: replicate.simps)
  have "unpack_mih_tlv buf 8 5 h = Fault OutOfBounds"
    using assms(3) by (simp add: unpack_mih_tlv_def unpack_mihf_id_tlv_def rd outer b str)
  then have "unpack_tlvs buf 8 5 0 5 [] h = Fault OutOfBounds"
    by (simp add: unpack_tlvs.simps)
  then show ?thesis
    using assms(2) by (simp add: unpack_mih_message_def Let_def hd)
qed

theorem unpack_message_overread_witness:
  "unpack_mih_message (map Some (enc_header (zero_header\<lparr>payloadlength := 5\<rparr>)
       @ [1, 3, 0x82, 0x20, 0x00]) @ replicate 4083 None) 13 sample_message heap0
     = Fault OutOfBounds"
  using unpack_message_overread [of "map Some (enc_header (zero_header\<lparr>payloadlength := 5\<rparr>)
       @ [1, 3, 0x82, 0x20, 0x00]) @ replicate 4083 None" "zero_header\<lparr>payloadlength := 5\<rparr>"
       1 32 0 heap0 sample_message]
  by (simp add: holds_def heap0_def zero_header_def del: replicate.simps)

end
