(* ===== verification/Mih_World.thy ===== *)
theory Mih_World
  imports Message
begin

text \<open>
  The state the module's threads share: the allocator, the two task queues of
  \<open>queue.h\<close> and the sockets, with the structures that travel through the queues
  (\<open>proto.h\<close>, \<open>net_hand.c\<close>, \<open>mih_link_sap.h\<close>). What the kernel's socket calls answer
  is not ours to decide: \<open>net_ret\<close> gives the answer of each call, numbered in program
  order, and every theorem holds for all answers unless it assumes otherwise.
\<close>

section \<open>Structures\<close>

record sockaddr_in =
  sin_family :: u16
  sin_port :: u16
  sin_addr :: u32

text \<open>A pointer to a structure on the heap: its block and its content.\<close>

type_synonym 'a ptr = "nat \<times> 'a"

text \<open>
  The functions whose address is stored in a task or a reply handler: \<open>Addr_f\<close> is the
  address of \<open>f\<close>. \<open>poison_task\<close> does nothing; only its address is used.
\<close>

datatype handler = poison_task | Addr_handle_message | Addr_handle_connection | Addr_handle_udp_reply
  | Addr_Link_Up_indication | Addr_Link_Down_indication | Addr_Link_Going_Down_indication

record reply_handler =
  rh_handler :: handler
  rh_param :: "sockaddr_in ptr option"

record reply_parameter =
  rp_message :: "mih_message ptr option"
  rp_param :: "sockaddr_in ptr option"

text \<open>
  \<open>struct received_message\<close> also has a socket, which is always null and never read; it is
  left out.
\<close>

record received_message =
  rm_len :: int
  rm_msg :: bufptr
  rm_reply :: "reply_handler ptr"

text \<open>
  The parameter of a link indication: the link type (\<open>None\<close> when it is not assigned), the
  device whose address it points into, the block of its own copy of the link address, and
  the reason code or renewal flag it carries.
\<close>

datatype link_type = ETHERNET | WIRELESS_IEEE_802_11

record link_parameter =
  lp_type :: "link_type option"
  lp_dev_addr :: nat
  lp_link_addr :: nat
  lp_reason :: int

text \<open>A socket: its identity and whether \<open>sock->sk\<close> is set.\<close>

record sock =
  sock_id :: nat
  sock_sk :: bool

datatype parameter = NULL
  | Received "received_message ptr"
  | Reply "reply_parameter ptr"
  | Connection "sock option"
  | Link "link_parameter ptr"

record queued_task =
  qt_blk :: nat
  qt_task :: handler
  qt_parameter :: parameter

record task_queue =
  tasks :: "queued_task list"
  sem :: nat
  locked :: bool

text \<open>A datagram handed to \<open>sock_sendmsg\<close>: the destination and the bytes.\<close>

record datagram =
  dg_to :: "sockaddr_in option"
  dg_bytes :: mem

record world =
  kheap :: kheap
  mihf_queue :: task_queue
  dispatch_queue :: task_queue
  net_calls :: nat
  net_ret :: "nat \<Rightarrow> int"
  net_sk :: "nat \<Rightarrow> bool"
  open_socks :: "nat set"
  sent :: "datagram list"

abbreviation (input) sizeof_queued_task :: nat where "sizeof_queued_task \<equiv> 32"
abbreviation (input) sizeof_reply_parameter :: nat where "sizeof_reply_parameter \<equiv> 16"
abbreviation (input) sizeof_reply_handler :: nat where "sizeof_reply_handler \<equiv> 16"
abbreviation (input) sizeof_received_message :: nat where "sizeof_received_message \<equiv> 32"
abbreviation (input) sizeof_sockaddr_in :: nat where "sizeof_sockaddr_in \<equiv> 16"

text \<open>A fresh state with empty queues, a benign allocator and kernel, for examples.\<close>

definition world0 :: world where
  "world0 =
     \<lparr>kheap = heap0, mihf_queue = \<lparr>tasks = [], sem = 0, locked = False\<rparr>,
      dispatch_queue = \<lparr>tasks = [], sem = 0, locked = False\<rparr>,
      net_calls = 0, net_ret = (\<lambda>i. 0), net_sk = (\<lambda>i. True), open_socks = {}, sent = []\<rparr>"

section \<open>Blocks a queued task owns\<close>

text \<open>
  What the function run for a task has to release: the parameter's structure and what
  hangs from it. The reply handler of a received message and its address are not among
  them: no function of the module releases them.
\<close>

fun param_blocks :: "parameter \<Rightarrow> nat set" where
  "param_blocks NULL = {}"
| "param_blocks (Received (b, rm)) = {b} \<union> buf_blocks (rm_msg rm)"
| "param_blocks (Reply (b, rp)) =
     {b} \<union> (case rp_message rp of None \<Rightarrow> {} | Some (mb, m) \<Rightarrow> {mb} \<union> tlvs_blocks (tlvs m))"
| "param_blocks (Connection s) = {}"
| "param_blocks (Link (b, lp)) = {b, lp_link_addr lp}"

definition task_blocks :: "queued_task \<Rightarrow> nat set" where
  "task_blocks t = {qt_blk t} \<union> param_blocks (qt_parameter t)"

text \<open>The blocks of a parameter are all different, so that each is released once.\<close>

fun param_ok :: "parameter \<Rightarrow> bool" where
  "param_ok NULL \<longleftrightarrow> True"
| "param_ok (Received (b, rm)) \<longleftrightarrow>
     (\<exists>c m. rm_msg rm = Blk c m \<and> c \<noteq> b \<and> length m < 2 ^ 31)"
| "param_ok (Reply (b, rp)) \<longleftrightarrow>
     (\<exists>mb m. rp_message rp = Some (mb, m) \<and> b \<noteq> mb \<and> owned_tlvs (tlvs m) \<and>
        b \<notin> tlvs_blocks (tlvs m) \<and> mb \<notin> tlvs_blocks (tlvs m))"
| "param_ok (Connection s) \<longleftrightarrow> True"
| "param_ok (Link (b, lp)) \<longleftrightarrow> b \<noteq> lp_link_addr lp"

definition task_ok :: "queued_task \<Rightarrow> bool" where
  "task_ok t \<longleftrightarrow> param_ok (qt_parameter t) \<and> qt_blk t \<notin> param_blocks (qt_parameter t)"

section \<open>Queues by reference\<close>

text \<open>A \<open>struct task_queue *\<close> is one of the two global queues.\<close>

datatype queue_ref = MIHF | DISPATCH

fun queue_of :: "queue_ref \<Rightarrow> world \<Rightarrow> task_queue" where
  "queue_of MIHF w = mihf_queue w"
| "queue_of DISPATCH w = dispatch_queue w"

fun set_queue :: "queue_ref \<Rightarrow> task_queue \<Rightarrow> world \<Rightarrow> world" where
  "set_queue MIHF q w = w\<lparr>mihf_queue := q\<rparr>"
| "set_queue DISPATCH q w = w\<lparr>dispatch_queue := q\<rparr>"

lemma queue_of_set_queue [simp]:
  "queue_of r (set_queue r q w) = q" "r \<noteq> r' \<Longrightarrow> queue_of r' (set_queue r q w) = queue_of r' w"
  by (cases r; cases r'; simp)+

lemma set_queue_fields [simp]:
  "kheap (set_queue r q w) = kheap w" "net_calls (set_queue r q w) = net_calls w"
  "net_ret (set_queue r q w) = net_ret w" "net_sk (set_queue r q w) = net_sk w"
  "open_socks (set_queue r q w) = open_socks w" "sent (set_queue r q w) = sent w"
  by (cases r; simp)+

lemma queue_of_update [simp]:
  "queue_of r (w\<lparr>kheap := h\<rparr>) = queue_of r w"
  "queue_of r (w\<lparr>open_socks := s\<rparr>) = queue_of r w" "queue_of r (w\<lparr>net_calls := n\<rparr>) = queue_of r w"
  "queue_of r (w\<lparr>sent := d\<rparr>) = queue_of r w"
  by (cases r; simp)+

lemma set_queue_twice [simp]: "set_queue r p (set_queue r q w) = set_queue r p w"
  by (cases r) simp_all

section \<open>Allocation in the shared state\<close>

definition w_kmalloc :: "nat \<Rightarrow> world \<Rightarrow> nat option \<times> world" where
  "w_kmalloc n w = (case kmalloc n (kheap w) of (p, h) \<Rightarrow> (p, w\<lparr>kheap := h\<rparr>))"

text \<open>An allocation whose result is used without a test: a null result is dereferenced.\<close>

definition w_alloc :: "nat \<Rightarrow> world \<Rightarrow> (nat \<times> world) cres" where
  "w_alloc n w = (case w_kmalloc n w of (None, w) \<Rightarrow> Fault NullDeref | (Some b, w) \<Rightarrow> Ok (b, w))"

definition w_kfree :: "nat \<Rightarrow> world \<Rightarrow> world cres" where
  "w_kfree b w = cbind (kfree (Some b) (kheap w)) (\<lambda>h. Ok (w\<lparr>kheap := h\<rparr>))"

definition tasks_blocks :: "queued_task list \<Rightarrow> nat set" where
  "tasks_blocks ts = \<Union> (task_blocks ` set ts)"

text \<open>
  \<open>replies w ts w'\<close>: between the two states the tasks \<open>ts\<close> were queued for dispatch and own
  all that was allocated; nothing else changed.
  \<open>replies_from h\<close> is the same with the ledger compared to \<open>h\<close>.
\<close>

definition queues_replies :: "world \<Rightarrow> queued_task list \<Rightarrow> world \<Rightarrow> bool" where
  "queues_replies w ts w' \<longleftrightarrow>
     dispatch_queue w' = (dispatch_queue w)\<lparr>tasks := tasks (dispatch_queue w) @ ts,
       sem := sem (dispatch_queue w) + length ts\<rparr> \<and>
     mihf_queue w' = mihf_queue w \<and> open_socks w' = open_socks w \<and> sent w' = sent w \<and>
     net_calls w' = net_calls w \<and> (\<forall>t \<in> set ts. task_ok t)"

definition replies :: "world \<Rightarrow> queued_task list \<Rightarrow> world \<Rightarrow> bool" where
  "replies w ts w' \<longleftrightarrow> queues_replies w ts w' \<and> extends (kheap w) (kheap w') (tasks_blocks ts)"

definition replies_from :: "kheap \<Rightarrow> world \<Rightarrow> queued_task list \<Rightarrow> world \<Rightarrow> bool" where
  "replies_from h w ts w' \<longleftrightarrow> queues_replies w ts w' \<and> gains h (kheap w') (tasks_blocks ts)"

lemma w_alloc_Ok: "w_alloc n w = Ok (b, w') \<Longrightarrow>
   \<exists>h. w' = w\<lparr>kheap := h\<rparr> \<and> extends (kheap w) h {b}"
  by (auto simp: w_alloc_def w_kmalloc_def dest: kmalloc_Some split: prod.splits option.splits)

lemma w_alloc_succeeds:
  assumes "allocs_succeed (kheap w)" and "n \<le> 4096"
  obtains b h where "w_alloc n w = Ok (b, w\<lparr>kheap := h\<rparr>)" and "extends (kheap w) h {b}"
proof -
  obtain b h where "kmalloc n (kheap w) = (Some b, h)" "extends (kheap w) h {b}"
    using assms by (rule kmalloc_succeedE)
  then show ?thesis by (intro that) (simp_all add: w_alloc_def w_kmalloc_def)
qed

end
