(* ===== verification/Task_Queue.thy ===== *)
theory Task_Queue
  imports Mih_World
begin

text \<open>
  The task queues of \<open>queue.h\<close>. Each operation is given whole, and \<open>queue_task\<close> and
  \<open>execute_task\<close> are composed of the parts at which another thread can come in between,
  so that the interleavings of producers and executor are the steps of a relation over
  the same definitions.
\<close>

section \<open>The code\<close>

definition init_queue :: "queue_ref \<Rightarrow> world \<Rightarrow> int \<times> world" where
  "init_queue r w = (0, set_queue r \<lparr>tasks = [], sem = 0, locked = False\<rparr> w)"

text \<open>
  \<open>spin_lock\<close> as its caller sees it when nobody else holds the lock: a lock that is held
  is held by the caller itself, who then spins forever.
\<close>

definition spin_lock :: "queue_ref \<Rightarrow> world \<Rightarrow> world cres" where
  "spin_lock r w =
     (if locked (queue_of r w) then Fault Deadlock
      else Ok (set_queue r ((queue_of r w)\<lparr>locked := True\<rparr>) w))"

definition spin_unlock :: "queue_ref \<Rightarrow> world \<Rightarrow> world" where
  "spin_unlock r w = set_queue r ((queue_of r w)\<lparr>locked := False\<rparr>) w"

definition up :: "queue_ref \<Rightarrow> world \<Rightarrow> world" where
  "up r w = set_queue r ((queue_of r w)\<lparr>sem := Suc (sem (queue_of r w))\<rparr>) w"

definition list_add_tail :: "queue_ref \<Rightarrow> queued_task \<Rightarrow> world \<Rightarrow> world" where
  "list_add_tail r t w = set_queue r ((queue_of r w)\<lparr>tasks := tasks (queue_of r w) @ [t]\<rparr>) w"

text \<open>\<open>queue_task\<close> up to the unlock, and the whole of it.\<close>

definition link_task :: "queue_ref \<Rightarrow> handler \<Rightarrow> parameter \<Rightarrow> world \<Rightarrow> world cres" where
  "link_task r f p w =
     cbind (w_alloc sizeof_queued_task w) (\<lambda>(b, w).
     cbind (spin_lock r w) (\<lambda>w.
     Ok (spin_unlock r
          (list_add_tail r \<lparr>qt_blk = b, qt_task = f, qt_parameter = p\<rparr> w))))"

definition queue_task :: "queue_ref \<Rightarrow> handler \<Rightarrow> parameter \<Rightarrow> world \<Rightarrow> (int \<times> world) cres" where
  "queue_task r f p w = cbind (link_task r f p w) (\<lambda>w. Ok (0, up r w))"

text \<open>
  How \<open>down_killable\<close> came back: with a unit of the semaphore, or interrupted by a fatal
  signal with the semaphore as it was. Either way \<open>execute_task\<close> goes on.
\<close>

datatype wake = Acquired | Interrupted

definition down_killable :: "queue_ref \<Rightarrow> wake \<Rightarrow> world \<Rightarrow> world" where
  "down_killable r k w =
     (case k of
        Acquired \<Rightarrow> set_queue r ((queue_of r w)\<lparr>sem := sem (queue_of r w) - 1\<rparr>) w
      | Interrupted \<Rightarrow> w)"

text \<open>
  The rest of \<open>execute_task\<close>, from the lock to the unlock. \<open>call\<close> is the call through
  the function pointer; it runs with the lock held.
\<close>

definition take_task ::
    "(handler \<Rightarrow> parameter \<Rightarrow> world \<Rightarrow> world cres) \<Rightarrow> queue_ref \<Rightarrow> world \<Rightarrow> (int \<times> world) cres" where
  "take_task call r w =
     cbind (spin_lock r w) (\<lambda>w.
     case tasks (queue_of r w) of
       [] \<Rightarrow> Ok (1, spin_unlock r w)
     | t # ts \<Rightarrow>
         (let w = set_queue r ((queue_of r w)\<lparr>tasks := ts\<rparr>) w in
          cbind (if qt_task t = poison_task then Ok (0, w)
                 else cbind (call (qt_task t) (qt_parameter t) w) (\<lambda>w. Ok (1, w)))
            (\<lambda>(result, w).
          cbind (w_kfree (qt_blk t) w) (\<lambda>w.
          Ok (result, spin_unlock r w)))))"

definition execute_task ::
    "(handler \<Rightarrow> parameter \<Rightarrow> world \<Rightarrow> world cres) \<Rightarrow> queue_ref \<Rightarrow> wake \<Rightarrow> world \<Rightarrow> (int \<times> world) cres" where
  "execute_task call r k w = take_task call r (down_killable r k w)"

text \<open>
  \<open>while (execute_task(queue));\<close> with nobody queuing in the meantime. The thread returns
  from the loop at the poison, or waits for a unit of the semaphore that nobody gives;
  the fuel bounds the number of turns. The loop that then waits for \<open>kthread_stop\<close> has
  no effect on the state.
\<close>

datatype executor_end = Returns world | Waits world | Out_of_fuel

fun task_executor ::
    "(handler \<Rightarrow> parameter \<Rightarrow> world \<Rightarrow> world cres) \<Rightarrow> queue_ref \<Rightarrow> nat \<Rightarrow> world \<Rightarrow> executor_end cres" where
  "task_executor call r 0 w = Ok Out_of_fuel"
| "task_executor call r (Suc n) w =
     (if sem (queue_of r w) = 0 then Ok (Waits w)
      else cbind (execute_task call r Acquired w) (\<lambda>(result, w).
           if result = 0 then Ok (Returns w) else task_executor call r n w))"

definition stop_executor :: "queue_ref \<Rightarrow> world \<Rightarrow> world cres" where
  "stop_executor r w = cbind (queue_task r poison_task NULL w) (\<lambda>(_, w). Ok w)"

section \<open>Producers and executor, interleaved\<close>

text \<open>
  The executor thread of a queue is between two calls, past \<open>down_killable\<close>, or has left
  its loop.
\<close>

datatype executor = Idle | Woken | Stopped

text \<open>
  One queue and the threads that use it: \<open>unposted\<close> counts the producers that are between
  the unlock and the \<open>up\<close>; \<open>queued\<close> and \<open>taken\<close> record which tasks were put in and
  taken out, in order.
\<close>

record queue_system =
  state :: world
  unposted :: nat
  executor :: executor
  queued :: "(handler \<times> parameter) list"
  taken :: "(handler \<times> parameter) list"

definition as_call :: "queued_task \<Rightarrow> handler \<times> parameter" where
  "as_call t = (qt_task t, qt_parameter t)"

text \<open>
  \<open>signals\<close> says whether fatal signals arrive; \<open>admits f\<close> which functions are put on this
  queue. A step of the environment may change anything but this queue.
\<close>

inductive queue_step ::
    "(handler \<Rightarrow> parameter \<Rightarrow> world \<Rightarrow> world cres) \<Rightarrow> (handler \<Rightarrow> bool) \<Rightarrow> queue_ref \<Rightarrow> bool \<Rightarrow>
     queue_system \<Rightarrow> queue_system \<Rightarrow> bool"
  for call :: "handler \<Rightarrow> parameter \<Rightarrow> world \<Rightarrow> world cres" and admits :: "handler \<Rightarrow> bool"
    and r :: queue_ref and signals :: bool
where
  link: "admits f \<or> f = poison_task \<Longrightarrow> link_task r f p (state s) = Ok w \<Longrightarrow>
    queue_step call admits r signals s
      (s\<lparr>state := w, unposted := Suc (unposted s), queued := queued s @ [(f, p)]\<rparr>)"
| post: "0 < unposted s \<Longrightarrow>
    queue_step call admits r signals s
      (s\<lparr>state := up r (state s), unposted := unposted s - 1\<rparr>)"
| acquire: "executor s = Idle \<Longrightarrow> 0 < sem (queue_of r (state s)) \<Longrightarrow>
    queue_step call admits r signals s
      (s\<lparr>state := down_killable r Acquired (state s), executor := Woken\<rparr>)"
| interrupt: "executor s = Idle \<Longrightarrow> signals \<Longrightarrow>
    queue_step call admits r signals s
      (s\<lparr>state := down_killable r Interrupted (state s), executor := Woken\<rparr>)"
| run: "executor s = Woken \<Longrightarrow> take_task call r (state s) = Ok (result, w) \<Longrightarrow>
    queue_step call admits r signals s
      (s\<lparr>state := w, executor := (if result = 0 then Stopped else Idle),
         taken := taken s @ map as_call (take 1 (tasks (queue_of r (state s))))\<rparr>)"
| environment: "queue_of r w = queue_of r (state s) \<Longrightarrow>
    queue_step call admits r signals s (s\<lparr>state := w\<rparr>)"

text \<open>A queue right after \<open>init_queue\<close>, with its executor started.\<close>

definition queue_start :: "queue_ref \<Rightarrow> queue_system \<Rightarrow> bool" where
  "queue_start r s \<longleftrightarrow>
     queue_of r (state s) = \<lparr>tasks = [], sem = 0, locked = False\<rparr> \<and> unposted s = 0 \<and>
     executor s = Idle \<and> queued s = [] \<and> taken s = []"

inductive queue_reachable ::
    "(handler \<Rightarrow> parameter \<Rightarrow> world \<Rightarrow> world cres) \<Rightarrow> (handler \<Rightarrow> bool) \<Rightarrow> queue_ref \<Rightarrow> bool \<Rightarrow>
     queue_system \<Rightarrow> bool"
  for call :: "handler \<Rightarrow> parameter \<Rightarrow> world \<Rightarrow> world cres" and admits :: "handler \<Rightarrow> bool"
    and r :: queue_ref and signals :: bool
where
  start: "queue_start r s \<Longrightarrow> queue_reachable call admits r signals s"
| step: "queue_reachable call admits r signals s \<Longrightarrow> queue_step call admits r signals s s' \<Longrightarrow>
    queue_reachable call admits r signals s'"

inductive_cases queue_stepE: "queue_step call admits r signals s s'"

text \<open>Units of the semaphore given or about to be given, and the one the executor holds.\<close>

definition wakeups :: "queue_ref \<Rightarrow> queue_system \<Rightarrow> nat" where
  "wakeups r s = sem (queue_of r (state s)) + unposted s + (if executor s = Woken then 1 else 0)"

definition poisoned :: "(handler \<times> parameter) list \<Rightarrow> bool" where
  "poisoned cs \<longleftrightarrow> poison_task \<in> fst ` set cs"

text \<open>The invariant of a queue system, and the sharper count when no signals arrive.\<close>

definition queue_inv :: "(handler \<Rightarrow> bool) \<Rightarrow> queue_ref \<Rightarrow> queue_system \<Rightarrow> bool" where
  "queue_inv admits r s \<longleftrightarrow>
     \<not> locked (queue_of r (state s)) \<and>
     queued s = taken s @ map as_call (tasks (queue_of r (state s))) \<and>
     length (tasks (queue_of r (state s))) \<le> wakeups r s \<and>
     (\<forall>c \<in> set (queued s). admits (fst c) \<or> fst c = poison_task) \<and>
     (if executor s = Stopped
      then \<not> poisoned (butlast (taken s)) \<and> taken s \<noteq> [] \<and> fst (last (taken s)) = poison_task
      else \<not> poisoned (taken s))"

definition exact_count :: "queue_ref \<Rightarrow> queue_system \<Rightarrow> bool" where
  "exact_count r s \<longleftrightarrow> length (tasks (queue_of r (state s))) = wakeups r s"

section \<open>What the parts do to the queue\<close>

lemma link_task_queue:
  assumes "link_task r f p w = Ok w'"
  obtains b where "queue_of r w' = (queue_of r w)\<lparr>tasks := tasks (queue_of r w) @
      [\<lparr>qt_blk = b, qt_task = f, qt_parameter = p\<rparr>]\<rparr>"
    and "\<not> locked (queue_of r w)" and "extends (kheap w) (kheap w') {b}"
    and "\<forall>r'. r' \<noteq> r \<longrightarrow> queue_of r' w' = queue_of r' w"
    and "open_socks w' = open_socks w" and "sent w' = sent w" and "net_calls w' = net_calls w"
proof -
  obtain b w1 where a: "w_alloc 32 w = Ok (b, w1)" and free: "\<not> locked (queue_of r w1)"
    and w': "w' = spin_unlock r (list_add_tail r \<lparr>qt_blk = b, qt_task = f, qt_parameter = p\<rparr>
       (set_queue r ((queue_of r w1)\<lparr>locked := True\<rparr>) w1))"
    using assms by (auto simp: link_task_def spin_lock_def elim!: cbind_OkE split: if_splits)
  obtain h where h: "w1 = w\<lparr>kheap := h\<rparr>" "extends (kheap w) h {b}"
    using w_alloc_Ok [OF a] by blast
  show ?thesis
    using free h by (intro that [of b]) (auto simp: w' spin_unlock_def list_add_tail_def)
qed

lemma queue_of_up [simp]:
  "queue_of r (up r w) = (queue_of r w)\<lparr>sem := Suc (sem (queue_of r w))\<rparr>"
  by (simp add: up_def)

lemma queue_of_down [simp]:
  "queue_of r (down_killable r Acquired w) = (queue_of r w)\<lparr>sem := sem (queue_of r w) - 1\<rparr>"
  "down_killable r Interrupted w = w"
  by (simp_all add: down_killable_def)

lemma w_kfree_queue: "w_kfree b w = Ok w' \<Longrightarrow> queue_of r w' = queue_of r w"
  by (auto simp: w_kfree_def elim!: cbind_OkE)

text \<open>Taking the head: the call (or not, for the poison), the release of the task, the unlock.\<close>

lemma take_task_split:
  assumes "take_task call r w = Ok (result, w')" and "tasks (queue_of r w) = t # ts"
    and "w1 = set_queue r ((queue_of r w)\<lparr>locked := True, tasks := ts\<rparr>) w"
  obtains w2 w3 where "(if qt_task t = poison_task then Ok (0, w1)
      else cbind (call (qt_task t) (qt_parameter t) w1) (\<lambda>w. Ok (1, w))) = Ok (result, w2)"
    and "w_kfree (qt_blk t) w2 = Ok w3" and "w' = spin_unlock r w3"
proof -
  have "\<not> locked (queue_of r w)"
    using assms(1) by (auto simp: take_task_def spin_lock_def split: if_splits)
  then have "take_task call r w = cbind (if qt_task t = poison_task then Ok (0, w1)
      else cbind (call (qt_task t) (qt_parameter t) w1) (\<lambda>w. Ok (1, w))) (\<lambda>(result, w).
      cbind (w_kfree (qt_blk t) w) (\<lambda>w. Ok (result, spin_unlock r w)))"
    using assms(2,3) by (simp add: take_task_def spin_lock_def Let_def)
  from assms(1) [unfolded this] show ?thesis by (auto elim!: cbind_OkE intro: that)
qed

lemma queue_task_appended:
  assumes "\<not> locked (queue_of r w)" and "allocs_succeed (kheap w)"
  shows "\<exists>b w'. queue_task r f p w = Ok (0, w') \<and>
     queue_of r w' = (queue_of r w)\<lparr>tasks := tasks (queue_of r w) @
        [\<lparr>qt_blk = b, qt_task = f, qt_parameter = p\<rparr>], sem := Suc (sem (queue_of r w))\<rparr> \<and>
     (\<forall>r'. r' \<noteq> r \<longrightarrow> queue_of r' w' = queue_of r' w) \<and> extends (kheap w) (kheap w') {b}"
proof -
  obtain b h where a: "w_alloc 32 w = Ok (b, w\<lparr>kheap := h\<rparr>)" "extends (kheap w) h {b}"
    using assms(2) by (rule w_alloc_succeeds [of _ 32]) simp
  have eq: "(queue_of r w)\<lparr>tasks := ts, locked := False, sem := n\<rparr> = (queue_of r w)\<lparr>tasks := ts, sem := n\<rparr>" for ts n
    using assms(1) by (cases "queue_of r w") simp
  show ?thesis
    using assms(1) a
    by (intro exI [of _ b]) (simp add: queue_task_def link_task_def spin_lock_def spin_unlock_def
        list_add_tail_def up_def eq)
qed

section \<open>A queue whose tasks leave it alone\<close>

text \<open>
  The contract between a queue and the functions put on it: while one of them runs it does
  not touch its own queue (it could not: the lock is held).
\<close>

locale task_runner =
  fixes call :: "handler \<Rightarrow> parameter \<Rightarrow> world \<Rightarrow> world cres"
    and admits :: "handler \<Rightarrow> bool"
    and r :: queue_ref
  assumes call_queue: "admits f \<Longrightarrow> call f p w = Ok w' \<Longrightarrow> queue_of r w' = queue_of r w"
begin

lemma take_task_empty:
  "tasks (queue_of r w) = [] \<Longrightarrow> take_task call r w = Ok (result, w') \<Longrightarrow>
   result = 1 \<and> queue_of r w' = (queue_of r w)\<lparr>locked := False\<rparr>"
  by (auto simp: take_task_def spin_lock_def spin_unlock_def split: if_splits)

lemma take_task_head:
  assumes "tasks (queue_of r w) = t # ts" and "take_task call r w = Ok (result, w')"
    and "admits (qt_task t) \<or> qt_task t = poison_task"
  shows "result = (if qt_task t = poison_task then 0 else 1) \<and>
    queue_of r w' = (queue_of r w)\<lparr>tasks := ts, locked := False\<rparr>"
proof -
  define w1 where "w1 = set_queue r ((queue_of r w)\<lparr>locked := True, tasks := ts\<rparr>) w"
  obtain w2 w3 where mid: "(if qt_task t = poison_task then Ok (0, w1)
        else cbind (call (qt_task t) (qt_parameter t) w1) (\<lambda>w. Ok (1, w))) = Ok (result, w2)"
    and fr: "w_kfree (qt_blk t) w2 = Ok w3" and w': "w' = spin_unlock r w3"
    using assms(2,1) w1_def by (rule take_task_split)
  have "result = (if qt_task t = poison_task then 0 else 1) \<and> queue_of r w2 = queue_of r w1"
    using mid assms(3) by (auto dest: call_queue elim!: cbind_OkE split: if_splits)
  with w_kfree_queue [OF fr, of r] show ?thesis
    by (simp add: w' spin_unlock_def w1_def)
qed

lemma reachable_inv:
  assumes "queue_reachable call admits r signals s"
  shows "queue_inv admits r s"
  using assms
proof (induction rule: queue_reachable.induct)
  case (start s)
  then show ?case by (simp add: queue_start_def queue_inv_def wakeups_def poisoned_def)
next
  case (step s s')
  from step.hyps(2) step.IH show ?case
  proof (cases rule: queue_step.cases)
    case (link f p w)
    then obtain b where "queue_of r w = (queue_of r (state s))\<lparr>tasks := tasks (queue_of r (state s)) @
      [\<lparr>qt_blk = b, qt_task = f, qt_parameter = p\<rparr>]\<rparr>"
      by (elim link_task_queue)
    with link step.IH show ?thesis
      by (auto simp: queue_inv_def wakeups_def as_call_def)
  next
    case (run result w)
    show ?thesis
    proof (cases "tasks (queue_of r (state s))")
      case Nil
      with run step.IH take_task_empty [OF Nil run(3)] show ?thesis
        by (auto simp: queue_inv_def wakeups_def)
    next
      case (Cons t ts)
      then have "admits (qt_task t) \<or> qt_task t = poison_task"
        using step.IH by (auto simp: queue_inv_def as_call_def)
      from take_task_head [OF Cons run(3) this] Cons run step.IH show ?thesis
        by (auto simp: queue_inv_def wakeups_def poisoned_def as_call_def)
    qed
  qed (auto simp: queue_inv_def wakeups_def)
qed

lemma reachable_exact:
  assumes "queue_reachable call admits r False s"
  shows "exact_count r s"
  using assms
proof (induction rule: queue_reachable.induct)
  case (start s)
  then show ?case by (simp add: queue_start_def exact_count_def wakeups_def)
next
  case (step s s')
  have inv: "queue_inv admits r s" using step.hyps(1) by (rule reachable_inv)
  from step.hyps(2) step.IH show ?case
  proof (cases rule: queue_step.cases)
    case (link f p w)
    then obtain b where "queue_of r w = (queue_of r (state s))\<lparr>tasks := tasks (queue_of r (state s)) @
      [\<lparr>qt_blk = b, qt_task = f, qt_parameter = p\<rparr>]\<rparr>"
      by (elim link_task_queue)
    with link step.IH show ?thesis by (auto simp: exact_count_def wakeups_def)
  next
    case (run result w)
    with step.IH obtain t ts where ts: "tasks (queue_of r (state s)) = t # ts"
      by (cases "tasks (queue_of r (state s))") (auto simp: exact_count_def wakeups_def)
    then have "admits (qt_task t) \<or> qt_task t = poison_task"
      using inv by (auto simp: queue_inv_def as_call_def)
    from take_task_head [OF ts run(3) this] ts run step.IH show ?thesis
      by (auto simp: exact_count_def wakeups_def)
  qed (auto simp: exact_count_def wakeups_def)
qed

text \<open>Consequences of the invariant.\<close>

lemma reachable_fifo:
  "queue_reachable call admits r signals s \<Longrightarrow>
   queued s = taken s @ map as_call (tasks (queue_of r (state s)))"
  by (simp add: reachable_inv [unfolded queue_inv_def])

lemma reachable_wakeup:
  assumes "queue_reachable call admits r signals s" and "tasks (queue_of r (state s)) \<noteq> []"
    and "executor s \<noteq> Stopped"
  shows "executor s = Woken \<or> 0 < sem (queue_of r (state s)) \<or> 0 < unposted s"
proof -
  have "0 < length (tasks (queue_of r (state s)))" using assms(2) by simp
  also have "\<dots> \<le> wakeups r s" using reachable_inv [OF assms(1)] by (simp add: queue_inv_def)
  finally show ?thesis by (auto simp: wakeups_def split: if_splits)
qed

lemma reachable_woken:
  "queue_reachable call admits r False s \<Longrightarrow> executor s = Woken \<Longrightarrow>
   tasks (queue_of r (state s)) \<noteq> []"
  using reachable_exact [of s] by (auto simp: exact_count_def wakeups_def)

lemma reachable_stopped:
  assumes "queue_reachable call admits r signals s" and "executor s = Stopped"
  shows "\<exists>p. taken s = takeWhile (\<lambda>c. fst c \<noteq> poison_task) (queued s) @ [(poison_task, p)]"
proof -
  have inv: "queue_inv admits r s" using assms(1) by (rule reachable_inv)
  with assms(2) obtain cs c where cs: "taken s = cs @ [c]" "\<not> poisoned cs" "fst c = poison_task"
    by (cases "taken s" rule: rev_cases) (auto simp: queue_inv_def)
  have "queued s = cs @ c # map as_call (tasks (queue_of r (state s)))"
    using inv cs(1) by (simp add: queue_inv_def)
  moreover have "\<forall>d \<in> set cs. fst d \<noteq> poison_task" using cs(2) by (force simp: poisoned_def)
  ultimately have "takeWhile (\<lambda>c. fst c \<noteq> poison_task) (queued s) = cs"
    using cs(3) by (simp add: takeWhile_append2)
  with cs show ?thesis by (cases c) auto
qed

lemma stopped_takes_nothing:
  "queue_step call admits r signals s s' \<Longrightarrow> executor s = Stopped \<Longrightarrow>
   executor s' = Stopped \<and> taken s' = taken s"
  by (elim queue_stepE) auto

text \<open>
  The executor's loop ends: one turn more than there are units of the semaphore is enough
  fuel, and when it returns it has consumed the queue up to the first poison.
\<close>

lemma executor_ends:
  "\<forall>t \<in> set (tasks (queue_of r w)). admits (qt_task t) \<or> qt_task t = poison_task \<Longrightarrow>
   sem (queue_of r w) < n \<Longrightarrow> task_executor call r n w = Ok e \<Longrightarrow>
   (\<exists>w'. e = Waits w') \<or>
   (\<exists>w' pre t. e = Returns w' \<and> tasks (queue_of r w) = pre @ t # tasks (queue_of r w') \<and>
      qt_task t = poison_task \<and> (\<forall>u \<in> set pre. qt_task u \<noteq> poison_task))"
proof (induction n arbitrary: w)
  case 0
  then show ?case by simp
next
  case (Suc n)
  show ?case
  proof (cases "sem (queue_of r w) = 0")
    case True
    with Suc.prems(3) show ?thesis by auto
  next
    case False
    let ?w = "down_killable r Acquired w"
    obtain result w1 where take: "take_task call r ?w = Ok (result, w1)"
      and rest: "(if result = 0 then Ok (Returns w1) else task_executor call r n w1) = Ok e"
      using Suc.prems(3) False by (auto simp: execute_task_def elim!: cbind_OkE)
    show ?thesis
    proof (cases "tasks (queue_of r ?w)")
      case Nil
      from take_task_empty [OF Nil take] rest Nil Suc.prems False Suc.IH [of w1] show ?thesis
        by auto
    next
      case (Cons t ts)
      then have t: "admits (qt_task t) \<or> qt_task t = poison_task" using Suc.prems(1) by simp
      note q = take_task_head [OF Cons take t]
      show ?thesis
      proof (cases "qt_task t = poison_task")
        case True
        with q rest Cons show ?thesis
          by (intro disjI2 exI [of _ w1] exI [of _ "[]"] exI [of _ t]) auto
      next
        case notpoison: False
        with q rest have run: "task_executor call r n w1 = Ok e" by simp
        have "(\<exists>w'. e = Waits w') \<or>
           (\<exists>w' pre u. e = Returns w' \<and> tasks (queue_of r w1) = pre @ u # tasks (queue_of r w') \<and>
              qt_task u = poison_task \<and> (\<forall>v \<in> set pre. qt_task v \<noteq> poison_task))"
          using q Cons Suc.prems(1,2) False by (intro Suc.IH run) auto
        then show ?thesis
        proof (elim disjE exE conjE)
          fix w' pre u
          assume "e = Returns w'" "tasks (queue_of r w1) = pre @ u # tasks (queue_of r w')"
            "qt_task u = poison_task" "\<forall>v \<in> set pre. qt_task v \<noteq> poison_task"
          with q Cons notpoison show ?thesis
            by (intro disjI2 exI [of _ w'] exI [of _ "t # pre"] exI [of _ u]) auto
        qed auto
      qed
    qed
  qed
qed

end

section \<open>Properties\<close>

text \<open>
  A task that queues a task on the queue it runs from never returns: the
  executor holds the queue's lock while the task runs, and \<open>queue_task\<close> takes it again.
\<close>

theorem queue_task_in_own_task_deadlocks:
  assumes "tasks (queue_of r w) = t # ts" and "qt_task t \<noteq> poison_task" and "\<not> locked (queue_of r w)"
    and "allocs_succeed (kheap w)" and "call = (\<lambda>f p w. cbind (queue_task r g q w) (\<lambda>(_, w). Ok w))"
  shows "execute_task call r k w = Fault Deadlock"
proof -
  define w1 where "w1 = set_queue r ((queue_of r (down_killable r k w))\<lparr>locked := True, tasks := ts\<rparr>)
    (down_killable r k w)"
  have h: "kheap w1 = kheap w" by (cases k) (simp_all add: w1_def down_killable_def)
  have l: "locked (queue_of r w1)" by (simp add: w1_def)
  have "allocs_succeed (kheap w1)" using assms(4) h by simp
  then obtain b hh where "w_alloc 32 w1 = Ok (b, w1\<lparr>kheap := hh\<rparr>)"
    by (rule w_alloc_succeeds [of _ 32]) simp
  with l have "queue_task r g q w1 = Fault Deadlock"
    by (simp add: queue_task_def link_task_def spin_lock_def)
  moreover have "execute_task call r k w =
     cbind (cbind (call (qt_task t) (qt_parameter t) w1) (\<lambda>w. Ok (1, w))) (\<lambda>(result, w).
      cbind (w_kfree (qt_blk t) w) (\<lambda>w. Ok (result, spin_unlock r w)))"
    using assms(1-3) by (cases k) (simp_all add: execute_task_def take_task_def spin_lock_def Let_def
        w1_def down_killable_def)
  ultimately show ?thesis by (simp add: assms(5))
qed

end
