(* ===== verification/Proto.thy ===== *)
theory Proto
  imports Task_Queue
begin

text \<open>
  The protocol (\<open>proto.c\<close>) and the user service access point it calls (\<open>mih_sap.c\<close>):
  the handlers of the single actions, the dispatch by service, acknowledgements and
  \<open>ProcessRequest\<close>. The handlers only look at the header and change nothing; they are
  functions to \<open>int\<close>.
\<close>

section \<open>The handlers\<close>

text \<open>
  The primitives of \<open>mih_sap.c\<close> ignore their arguments. The request primitive fills in a
  header that nobody reads afterwards.
\<close>

definition capability_discover_header :: mih_header where
  "capability_discover_header =
     zero_header\<lparr>version := 1, sid := SERVICE_MANAGEMENT, opcode := REQUEST,
       aid := MIH_CAPABILITY_DISCOVER, payloadlength := 0\<rparr>"

definition MIH_Capability_Discover_request :: int where
  "MIH_Capability_Discover_request = (let header = capability_discover_header in 0)"

definition MIH_Capability_Discover_indication :: int where
  "MIH_Capability_Discover_indication = 0"

definition MIH_Capability_Discover_response :: int where
  "MIH_Capability_Discover_response = 0"

definition MIH_Capability_Discover_confirm :: int where
  "MIH_Capability_Discover_confirm = 0"

text \<open>
  A capability discovery request is not answered (its result stays -1); a response is
  passed on to the user.
\<close>

definition CapabilityDiscover :: "mih_message \<Rightarrow> int" where
  "CapabilityDiscover message =
     (if aid (header message) \<noteq> MIH_CAPABILITY_DISCOVER then - 1
      else if opcode (header message) = REQUEST then - 1
      else if opcode (header message) = RESPONSE then MIH_Capability_Discover_confirm
      else - 1)"

definition Register :: "mih_message \<Rightarrow> int" where
  "Register message =
     (if aid (header message) \<noteq> MIH_REGISTER then - 1
      else if opcode (header message) = REQUEST then 0
      else if opcode (header message) = INDICATION then 0
      else - 1)"

definition Deregister :: "mih_message \<Rightarrow> int" where
  "Deregister message =
     (if aid (header message) \<noteq> MIH_DEREGISTER then - 1
      else if opcode (header message) = REQUEST then 0
      else if opcode (header message) = INDICATION then 0
      else - 1)"

definition EventSubscribe :: "mih_message \<Rightarrow> int" where
  "EventSubscribe message =
     (if aid (header message) \<noteq> MIH_EVENT_SUBSCRIBE then - 1
      else if opcode (header message) = REQUEST then 0
      else - 1)"

definition EventUnsubscribe :: "mih_message \<Rightarrow> int" where
  "EventUnsubscribe message =
     (if aid (header message) \<noteq> MIH_EVENT_UNSUBSCRIBE then - 1
      else if opcode (header message) = REQUEST then 0
      else if opcode (header message) = INDICATION then 0
      else - 1)"

definition LinkDetected :: "mih_message \<Rightarrow> int" where
  "LinkDetected message =
     (if aid (header message) \<noteq> MIH_LINK_DETECTED then - 1
      else if opcode (header message) = REQUEST then 0
      else if opcode (header message) = INDICATION then 0
      else - 1)"

definition LinkUp :: "mih_message \<Rightarrow> int" where
  "LinkUp message =
     (if aid (header message) \<noteq> MIH_LINK_UP then - 1
      else if opcode (header message) = REQUEST then 0
      else if opcode (header message) = INDICATION then 0
      else - 1)"

definition LinkDown :: "mih_message \<Rightarrow> int" where
  "LinkDown message =
     (if aid (header message) \<noteq> MIH_LINK_DOWN then - 1
      else if opcode (header message) = REQUEST then 0
      else if opcode (header message) = INDICATION then 0
      else - 1)"

definition LinkParametersReport :: "mih_message \<Rightarrow> int" where
  "LinkParametersReport message =
     (if aid (header message) \<noteq> MIH_LINK_PARAMETERS_REPORT then - 1
      else if opcode (header message) = REQUEST then 0
      else if opcode (header message) = INDICATION then 0
      else - 1)"

definition LinkGoingDown :: "mih_message \<Rightarrow> int" where
  "LinkGoingDown message =
     (if aid (header message) \<noteq> MIH_LINK_GOING_DOWN then - 1
      else if opcode (header message) = REQUEST then 0
      else if opcode (header message) = INDICATION then 0
      else - 1)"

definition LinkHandoverImminent :: "mih_message \<Rightarrow> int" where
  "LinkHandoverImminent message =
     (if aid (header message) \<noteq> MIH_LINK_HANDOVER_IMMINENT then - 1
      else if opcode (header message) = REQUEST then 0
      else if opcode (header message) = INDICATION then 0
      else - 1)"

definition LinkHandoverComplete :: "mih_message \<Rightarrow> int" where
  "LinkHandoverComplete message =
     (if aid (header message) \<noteq> MIH_LINK_HANDOVER_COMPLETE then - 1
      else if opcode (header message) = REQUEST then 0
      else if opcode (header message) = INDICATION then 0
      else - 1)"

definition LinkGetParameters :: "mih_message \<Rightarrow> int" where
  "LinkGetParameters message =
     (if aid (header message) \<noteq> MIH_LINK_GET_PARAMETERS then - 1
      else if opcode (header message) = REQUEST then 0
      else if opcode (header message) = INDICATION then 0
      else - 1)"

definition LinkConfigureThresholds :: "mih_message \<Rightarrow> int" where
  "LinkConfigureThresholds message =
     (if aid (header message) \<noteq> MIH_LINK_CONFIGURE_THRESHOLDS then - 1
      else if opcode (header message) = REQUEST then 0
      else if opcode (header message) = INDICATION then 0
      else - 1)"

definition LinkActions :: "mih_message \<Rightarrow> int" where
  "LinkActions message =
     (if aid (header message) \<noteq> MIH_LINK_ACTIONS then - 1
      else if opcode (header message) = REQUEST then 0
      else if opcode (header message) = INDICATION then 0
      else - 1)"

definition NetHOCandidateQuery :: "mih_message \<Rightarrow> int" where
  "NetHOCandidateQuery message =
     (if aid (header message) \<noteq> MIH_NET_HO_CANDIDATE_QUERY then - 1
      else if opcode (header message) = REQUEST then 0
      else if opcode (header message) = INDICATION then 0
      else - 1)"

definition MNHOCandidateQuery :: "mih_message \<Rightarrow> int" where
  "MNHOCandidateQuery message =
     (if aid (header message) \<noteq> MIH_MN_HO_CANDIDATE_QUERY then - 1
      else if opcode (header message) = REQUEST then 0
      else if opcode (header message) = INDICATION then 0
      else - 1)"

definition N2NHOQueryResources :: "mih_message \<Rightarrow> int" where
  "N2NHOQueryResources message =
     (if aid (header message) \<noteq> MIH_N2N_HO_QUERY_RESOURCES then - 1
      else if opcode (header message) = REQUEST then 0
      else if opcode (header message) = INDICATION then 0
      else - 1)"

definition MNHOCommit :: "mih_message \<Rightarrow> int" where
  "MNHOCommit message =
     (if aid (header message) \<noteq> MIH_MN_HO_COMMIT then - 1
      else if opcode (header message) = REQUEST then 0
      else if opcode (header message) = INDICATION then 0
      else - 1)"

definition NetHOCommit :: "mih_message \<Rightarrow> int" where
  "NetHOCommit message =
     (if aid (header message) \<noteq> MIH_NET_HO_COMMIT then - 1
      else if opcode (header message) = REQUEST then 0
      else if opcode (header message) = INDICATION then 0
      else - 1)"

definition N2NHOCommit :: "mih_message \<Rightarrow> int" where
  "N2NHOCommit message =
     (if aid (header message) \<noteq> MIH_N2N_HO_COMMIT then - 1
      else if opcode (header message) = REQUEST then 0
      else if opcode (header message) = INDICATION then 0
      else - 1)"

definition MNHOComplete :: "mih_message \<Rightarrow> int" where
  "MNHOComplete message =
     (if aid (header message) \<noteq> MIH_MN_HO_COMPLETE then - 1
      else if opcode (header message) = REQUEST then 0
      else if opcode (header message) = INDICATION then 0
      else - 1)"

definition N2NHOComplete :: "mih_message \<Rightarrow> int" where
  "N2NHOComplete message =
     (if aid (header message) \<noteq> MIH_N2N_HO_COMPLETE then - 1
      else if opcode (header message) = REQUEST then 0
      else if opcode (header message) = INDICATION then 0
      else - 1)"

section \<open>Dispatch by service\<close>

text \<open>The reply handler is passed along but not used.\<close>

definition ProcessService :: "mih_message \<Rightarrow> int" where
  "ProcessService message =
     (if sid (header message) \<noteq> SERVICE_MANAGEMENT then - 1
      else if aid (header message) = MIH_CAPABILITY_DISCOVER then CapabilityDiscover message
      else if aid (header message) = MIH_REGISTER then Register message
      else if aid (header message) = MIH_DEREGISTER then Deregister message
      else if aid (header message) = MIH_EVENT_SUBSCRIBE then EventSubscribe message
      else if aid (header message) = MIH_EVENT_UNSUBSCRIBE then EventUnsubscribe message
      else - 1)"

definition ProcessEvent :: "mih_message \<Rightarrow> int" where
  "ProcessEvent message =
     (if sid (header message) \<noteq> EVENT_SERVICE then - 1
      else if aid (header message) = MIH_LINK_DETECTED then LinkDetected message
      else if aid (header message) = MIH_LINK_UP then LinkUp message
      else if aid (header message) = MIH_LINK_DOWN then LinkDown message
      else if aid (header message) = MIH_LINK_PARAMETERS_REPORT then LinkParametersReport message
      else if aid (header message) = MIH_LINK_GOING_DOWN then LinkGoingDown message
      else if aid (header message) = MIH_LINK_HANDOVER_IMMINENT then LinkHandoverImminent message
      else if aid (header message) = MIH_LINK_HANDOVER_COMPLETE then LinkHandoverComplete message
      else - 1)"

definition ProcessCmd :: "mih_message \<Rightarrow> int" where
  "ProcessCmd message =
     (if sid (header message) \<noteq> COMMAND_SERVICE then - 1
      else if aid (header message) = MIH_LINK_GET_PARAMETERS then LinkGetParameters message
      else if aid (header message) = MIH_LINK_CONFIGURE_THRESHOLDS then LinkConfigureThresholds message
      else if aid (header message) = MIH_LINK_ACTIONS then LinkActions message
      else if aid (header message) = MIH_NET_HO_CANDIDATE_QUERY then NetHOCandidateQuery message
      else if aid (header message) = MIH_MN_HO_CANDIDATE_QUERY then MNHOCandidateQuery message
      else if aid (header message) = MIH_N2N_HO_QUERY_RESOURCES then N2NHOQueryResources message
      else if aid (header message) = MIH_MN_HO_COMMIT then MNHOCommit message
      else if aid (header message) = MIH_NET_HO_COMMIT then NetHOCommit message
      else if aid (header message) = MIH_N2N_HO_COMMIT then N2NHOCommit message
      else if aid (header message) = MIH_MN_HO_COMPLETE then MNHOComplete message
      else if aid (header message) = MIH_N2N_HO_COMPLETE then N2NHOComplete message
      else - 1)"

definition ProcessInfo :: "mih_message \<Rightarrow> int" where
  "ProcessInfo message =
     (if sid (header message) \<noteq> INFORMATION_SERVICE then - 1
      else if aid (header message) = MIH_CAPABILITY_DISCOVER then CapabilityDiscover message
      else if aid (header message) = MIH_REGISTER then Register message
      else if aid (header message) = MIH_DEREGISTER then Deregister message
      else if aid (header message) = MIH_EVENT_SUBSCRIBE then EventSubscribe message
      else if aid (header message) = MIH_EVENT_UNSUBSCRIBE then EventUnsubscribe message
      else - 1)"

section \<open>Replies\<close>

definition queue_message :: "mih_message ptr \<Rightarrow> reply_handler ptr \<Rightarrow> world \<Rightarrow> (int \<times> world) cres" where
  "queue_message message reply w =
     cbind (w_alloc sizeof_reply_parameter w) (\<lambda>(b, w).
     cbind (queue_task DISPATCH (rh_handler (snd reply))
         (Reply (b, \<lparr>rp_message = Some message, rp_param = rh_param (snd reply)\<rparr>)) w) (\<lambda>(_, w).
     Ok (0, w)))"

text \<open>\<open>strcpy\<close> into a block of its own.\<close>

definition c_strcpy :: "mem \<Rightarrow> u8 list \<Rightarrow> mem cres" where
  "c_strcpy dst str =
     (if length str + 1 \<le> length dst then Ok (blit dst 0 (str @ [0])) else Fault OutOfBounds)"

text \<open>
  An element for an acknowledgement: the structure's block \<open>b\<close> is allocated before, the
  value here, for \<open>len + 1\<close> bytes, and the string is copied into it.
\<close>

definition fill_id_tlv :: "nat \<Rightarrow> u8 \<Rightarrow> u8 list \<Rightarrow> world \<Rightarrow> (mih_tlv \<times> world) cres" where
  "fill_id_tlv b type str w =
     (let len = int32 (int (length str)) in
      cbind (w_alloc (size_of_int (int32 (len + 1))) w) (\<lambda>(c, w).
      cbind (c_strcpy (replicate (size_of_int (int32 (len + 1))) None) str) (\<lambda>cells.
      Ok (\<lparr>tlv_blk = Some b, tlv_type = type, tlv_length = word_of_int len,
           tlv_value = Blk c cells\<rparr>, w))))"

text \<open>The embedded list head of a message nobody has written to.\<close>

definition indet_head :: mih_tlv where
  "indet_head = \<lparr>tlv_blk = None, tlv_type = 0, tlv_length = 0, tlv_value = Indet\<rparr>"

definition Acknowledge ::
    "int \<Rightarrow> int \<Rightarrow> int \<Rightarrow> int \<Rightarrow> bufptr \<Rightarrow> reply_handler ptr \<Rightarrow> world \<Rightarrow> (int \<times> world) cres" where
  "Acknowledge sid_arg opcode_arg aid_arg tid_arg dst_mihf_id reply w =
     cbind (cstring mymihfid_mem) (\<lambda>src_id.
     cbind (deref dst_mihf_id) (\<lambda>dst_cells.
     cbind (cstring dst_cells) (\<lambda>dst_id.
     cbind (w_alloc sizeof_mih_message_t w) (\<lambda>(ack_msg, w).
     cbind (w_alloc sizeof_mih_tlv_t w) (\<lambda>(ack_src, w).
     cbind (w_alloc sizeof_mih_tlv_t w) (\<lambda>(ack_dst, w).
     let hdr = zero_header\<lparr>version := 1, ackrsp := 1, sid := word_of_int sid_arg,
           opcode := word_of_int opcode_arg, aid := word_of_int aid_arg,
           tid := word_of_int tid_arg\<rparr> in
     cbind (fill_id_tlv ack_src SRC_MIHF_ID_TLV src_id w) (\<lambda>(src_tlv, w).
     cbind (fill_id_tlv ack_dst DST_MIHF_ID_TLV dst_id w) (\<lambda>(dst_tlv, w).
     cbind (queue_message
         (ack_msg, \<lparr>header = hdr, tlvs_head = indet_head, tlvs = [src_tlv, dst_tlv]\<rparr>) reply w)
       (\<lambda>(_, w). Ok (0, w))))))))))"

section \<open>Requests\<close>

definition ProcessRequest ::
    "mih_message \<Rightarrow> reply_handler ptr \<Rightarrow> world \<Rightarrow> (int \<times> world) cres" where
  "ProcessRequest message reply w =
     (let src_mihf_id = tlv_value (tlv_at message 0);
          dst_mihf_id = tlv_value (tlv_at message 1) in
      cbind (deref dst_mihf_id) (\<lambda>dst_cells.
      cbind (c_strcmp dst_cells mymihfid_mem) (\<lambda>c.
      if c \<noteq> 0 then Ok (- 1, w)
      else
        cbind (if ackreq (header message) \<noteq> 0
               then Acknowledge (uint (sid (header message))) (uint (opcode (header message)))
                      (uint (aid (header message))) (uint (tid (header message)))
                      src_mihf_id reply w
               else Ok (0, w)) (\<lambda>(_, w).
        Ok (if sid (header message) = SERVICE_MANAGEMENT then ProcessService message
            else if sid (header message) = EVENT_SERVICE then ProcessEvent message
            else if sid (header message) = COMMAND_SERVICE then ProcessCmd message
            else if sid (header message) = INFORMATION_SERVICE then ProcessInfo message
            else - 1, w)))))"

section \<open>What is accepted\<close>

text \<open>
  The reference: the actions of each service and the operations accepted for them.
\<close>

definition management_accepts :: "10 word \<Rightarrow> 2 word \<Rightarrow> bool" where
  "management_accepts action operation \<longleftrightarrow>
     action = MIH_CAPABILITY_DISCOVER \<and> operation = RESPONSE \<or>
     action \<in> {MIH_REGISTER, MIH_DEREGISTER, MIH_EVENT_UNSUBSCRIBE} \<and> operation \<in> {REQUEST, INDICATION} \<or>
     action = MIH_EVENT_SUBSCRIBE \<and> operation = REQUEST"

definition accepts :: "mih_header \<Rightarrow> bool" where
  "accepts hdr \<longleftrightarrow>
     sid hdr \<in> {SERVICE_MANAGEMENT, INFORMATION_SERVICE} \<and> management_accepts (aid hdr) (opcode hdr) \<or>
     sid hdr = EVENT_SERVICE \<and> aid hdr \<in> {1, 2, 3, 5, 6, 7, 8} \<and> opcode hdr \<in> {REQUEST, INDICATION} \<or>
     sid hdr = COMMAND_SERVICE \<and> aid hdr \<in> {1, 2, 3, 4, 5, 6, 7, 8, 9, 10, 11} \<and>
       opcode hdr \<in> {REQUEST, INDICATION}"

text \<open>A registration request from the node m and a reply handler, for examples.\<close>

definition sample_request :: "1 word \<Rightarrow> u8 list \<Rightarrow> mih_message" where
  "sample_request ack dst =
     \<lparr>header = zero_header\<lparr>version := 1, ackreq := ack, sid := SERVICE_MANAGEMENT,
        opcode := REQUEST, aid := MIH_REGISTER, tid := 9\<rparr>,
      tlvs_head = indet_head,
      tlvs = [\<lparr>tlv_blk = Some 20, tlv_type = SRC_MIHF_ID_TLV, tlv_length = 1,
               tlv_value = Blk 21 (zstr [109])\<rparr>,
              \<lparr>tlv_blk = Some 22, tlv_type = DST_MIHF_ID_TLV, tlv_length = of_nat (length dst),
               tlv_value = Blk 23 (zstr dst)\<rparr>]\<rparr>"

definition sample_reply :: "reply_handler ptr" where
  "sample_reply =
     (30, \<lparr>rh_handler = Addr_handle_udp_reply,
           rh_param = Some (31, \<lparr>sin_family = 2, sin_port = 4551, sin_addr = 0\<rparr>)\<rparr>)"

section \<open>The interface of a handler\<close>

text \<open>
  What the dispatch relies on: a handler answers 0 exactly for its own action with one of
  its operations, and -1 otherwise.
\<close>

locale pdu_handler =
  fixes handle :: "mih_message \<Rightarrow> int" and action :: "10 word" and operations :: "2 word set"
  assumes handle_spec:
    "handle m = (if aid (header m) = action \<and> opcode (header m) \<in> operations then 0 else - 1)"
begin

lemma handled: "aid (header m) = action \<Longrightarrow> handle m = (if opcode (header m) \<in> operations then 0 else - 1)"
  by (simp add: handle_spec)

lemma answers: "handle m = 0 \<or> handle m = - 1"
  by (simp add: handle_spec)

lemma header_only: "header m = header m' \<Longrightarrow> handle m = handle m'"
  by (simp add: handle_spec)

end

interpretation CapabilityDiscover: pdu_handler CapabilityDiscover MIH_CAPABILITY_DISCOVER "{RESPONSE}"
  by unfold_locales (simp add: CapabilityDiscover_def MIH_Capability_Discover_confirm_def)

interpretation Register: pdu_handler Register MIH_REGISTER "{REQUEST, INDICATION}"
  by unfold_locales (simp add: Register_def)

interpretation Deregister: pdu_handler Deregister MIH_DEREGISTER "{REQUEST, INDICATION}"
  by unfold_locales (simp add: Deregister_def)

interpretation EventSubscribe: pdu_handler EventSubscribe MIH_EVENT_SUBSCRIBE "{REQUEST}"
  by unfold_locales (simp add: EventSubscribe_def)

interpretation EventUnsubscribe: pdu_handler EventUnsubscribe MIH_EVENT_UNSUBSCRIBE "{REQUEST, INDICATION}"
  by unfold_locales (simp add: EventUnsubscribe_def)

interpretation LinkDetected: pdu_handler LinkDetected MIH_LINK_DETECTED "{REQUEST, INDICATION}"
  by unfold_locales (simp add: LinkDetected_def)

interpretation LinkUp: pdu_handler LinkUp MIH_LINK_UP "{REQUEST, INDICATION}"
  by unfold_locales (simp add: LinkUp_def)

interpretation LinkDown: pdu_handler LinkDown MIH_LINK_DOWN "{REQUEST, INDICATION}"
  by unfold_locales (simp add: LinkDown_def)

interpretation LinkParametersReport: pdu_handler LinkParametersReport MIH_LINK_PARAMETERS_REPORT "{REQUEST, INDICATION}"
  by unfold_locales (simp add: LinkParametersReport_def)

interpretation LinkGoingDown: pdu_handler LinkGoingDown MIH_LINK_GOING_DOWN "{REQUEST, INDICATION}"
  by unfold_locales (simp add: LinkGoingDown_def)

interpretation LinkHandoverImminent: pdu_handler LinkHandoverImminent MIH_LINK_HANDOVER_IMMINENT "{REQUEST, INDICATION}"
  by unfold_locales (simp add: LinkHandoverImminent_def)

interpretation LinkHandoverComplete: pdu_handler LinkHandoverComplete MIH_LINK_HANDOVER_COMPLETE "{REQUEST, INDICATION}"
  by unfold_locales (simp add: LinkHandoverComplete_def)

interpretation LinkGetParameters: pdu_handler LinkGetParameters MIH_LINK_GET_PARAMETERS "{REQUEST, INDICATION}"
  by unfold_locales (simp add: LinkGetParameters_def)

interpretation LinkConfigureThresholds: pdu_handler LinkConfigureThresholds MIH_LINK_CONFIGURE_THRESHOLDS "{REQUEST, INDICATION}"
  by unfold_locales (simp add: LinkConfigureThresholds_def)

interpretation LinkActions: pdu_handler LinkActions MIH_LINK_ACTIONS "{REQUEST, INDICATION}"
  by unfold_locales (simp add: LinkActions_def)

interpretation NetHOCandidateQuery: pdu_handler NetHOCandidateQuery MIH_NET_HO_CANDIDATE_QUERY "{REQUEST, INDICATION}"
  by unfold_locales (simp add: NetHOCandidateQuery_def)

interpretation MNHOCandidateQuery: pdu_handler MNHOCandidateQuery MIH_MN_HO_CANDIDATE_QUERY "{REQUEST, INDICATION}"
  by unfold_locales (simp add: MNHOCandidateQuery_def)

interpretation N2NHOQueryResources: pdu_handler N2NHOQueryResources MIH_N2N_HO_QUERY_RESOURCES "{REQUEST, INDICATION}"
  by unfold_locales (simp add: N2NHOQueryResources_def)

interpretation MNHOCommit: pdu_handler MNHOCommit MIH_MN_HO_COMMIT "{REQUEST, INDICATION}"
  by unfold_locales (simp add: MNHOCommit_def)

interpretation NetHOCommit: pdu_handler NetHOCommit MIH_NET_HO_COMMIT "{REQUEST, INDICATION}"
  by unfold_locales (simp add: NetHOCommit_def)

interpretation N2NHOCommit: pdu_handler N2NHOCommit MIH_N2N_HO_COMMIT "{REQUEST, INDICATION}"
  by unfold_locales (simp add: N2NHOCommit_def)

interpretation MNHOComplete: pdu_handler MNHOComplete MIH_MN_HO_COMPLETE "{REQUEST, INDICATION}"
  by unfold_locales (simp add: MNHOComplete_def)

interpretation N2NHOComplete: pdu_handler N2NHOComplete MIH_N2N_HO_COMPLETE "{REQUEST, INDICATION}"
  by unfold_locales (simp add: N2NHOComplete_def)

lemmas handled =
  CapabilityDiscover.handled Register.handled
  Deregister.handled
  EventSubscribe.handled
  EventUnsubscribe.handled
  LinkDetected.handled
  LinkUp.handled
  LinkDown.handled
  LinkParametersReport.handled
  LinkGoingDown.handled
  LinkHandoverImminent.handled
  LinkHandoverComplete.handled
  LinkGetParameters.handled
  LinkConfigureThresholds.handled
  LinkActions.handled
  NetHOCandidateQuery.handled
  MNHOCandidateQuery.handled
  N2NHOQueryResources.handled
  MNHOCommit.handled
  NetHOCommit.handled
  N2NHOCommit.handled
  MNHOComplete.handled
  N2NHOComplete.handled

text \<open>The dispatch, service by service and as a whole.\<close>

lemma service_answer: "sid (header m) = SERVICE_MANAGEMENT \<Longrightarrow>
    ProcessService m = (if management_accepts (aid (header m)) (opcode (header m)) then 0 else - 1)"
  by (auto simp: ProcessService_def handled management_accepts_def)

lemma info_answer: "sid (header m) = INFORMATION_SERVICE \<Longrightarrow>
    ProcessInfo m = (if management_accepts (aid (header m)) (opcode (header m)) then 0 else - 1)"
  by (auto simp: ProcessInfo_def handled management_accepts_def)

lemma event_answer: "sid (header m) = EVENT_SERVICE \<Longrightarrow>
    ProcessEvent m = (if aid (header m) \<in> {1, 2, 3, 5, 6, 7, 8} \<and> opcode (header m) \<in> {REQUEST, INDICATION}
      then 0 else - 1)"
  by (auto simp: ProcessEvent_def handled)

lemma command_answer: "sid (header m) = COMMAND_SERVICE \<Longrightarrow>
    ProcessCmd m = (if aid (header m) \<in> {1, 2, 3, 4, 5, 6, 7, 8, 9, 10, 11} \<and> opcode (header m) \<in> {REQUEST, INDICATION}
      then 0 else - 1)"
  by (auto simp: ProcessCmd_def handled)

lemma dispatch_answer:
  "(if sid (header m) = SERVICE_MANAGEMENT then ProcessService m
    else if sid (header m) = EVENT_SERVICE then ProcessEvent m
    else if sid (header m) = COMMAND_SERVICE then ProcessCmd m
    else if sid (header m) = INFORMATION_SERVICE then ProcessInfo m else - 1)
   = (if accepts (header m) then 0 else - 1)"
  by (simp add: service_answer event_answer command_answer info_answer accepts_def)

section \<open>Acknowledgements\<close>

lemma extends_next: "extends h h' B \<Longrightarrow> b \<in> B \<Longrightarrow> extends h' h'' C \<Longrightarrow> c \<in> C \<Longrightarrow> b < c"
  by (fastforce simp: extends_def)

lemma fill_id_tlv_Ok:
  assumes "length str \<le> 4000" and "allocs_succeed (kheap w)"
  obtains c h where "fill_id_tlv b type str w = Ok (\<lparr>tlv_blk = Some b, tlv_type = type,
      tlv_length = of_nat (length str), tlv_value = Blk c (zstr str)\<rparr>, w\<lparr>kheap := h\<rparr>)"
    and "extends (kheap w) h {c}"
proof -
  have sz: "size_of_int (int32 (int (length str) + 1)) = Suc (length str)"
    "int32 (int (length str)) = int (length str)" using assms(1) by simp_all
  obtain c h where c: "w_alloc (Suc (length str)) w = Ok (c, w\<lparr>kheap := h\<rparr>)" "extends (kheap w) h {c}"
    using assms(2) by (rule w_alloc_succeeds [of _ "Suc (length str)"]) (use assms(1) in simp)
  have "c_strcpy (replicate (Suc (length str)) None) str = Ok (zstr str)"
    by (simp add: c_strcpy_def blit_whole zstr_def del: replicate.simps)
  with c show ?thesis
    by (intro that [of c h]) (simp_all add: fill_id_tlv_def sz Let_def del: replicate.simps)
qed

lemma queue_message_Ok:
  assumes "\<not> locked (dispatch_queue w)" and "allocs_succeed (kheap w)"
  obtains b c w' where "queue_message message reply w = Ok (0, w')"
    and "dispatch_queue w' = (dispatch_queue w)\<lparr>tasks := tasks (dispatch_queue w) @
        [\<lparr>qt_blk = c, qt_task = rh_handler (snd reply),
          qt_parameter = Reply (b, \<lparr>rp_message = Some message, rp_param = rh_param (snd reply)\<rparr>)\<rparr>],
        sem := Suc (sem (dispatch_queue w))\<rparr>"
    and "mihf_queue w' = mihf_queue w" and "extends (kheap w) (kheap w') {b, c}" and "b < c"
    and "kh_next (kheap w) \<le> b"
proof -
  obtain b h where b: "w_alloc 16 w = Ok (b, w\<lparr>kheap := h\<rparr>)" "extends (kheap w) h {b}"
    using assms(2) by (rule w_alloc_succeeds [of _ 16]) simp
  let ?p = "Reply (b, \<lparr>rp_message = Some message, rp_param = rh_param (snd reply)\<rparr>)"
  have "allocs_succeed h" using assms(2) b(2) by simp
  then obtain c w' where c: "queue_task DISPATCH (rh_handler (snd reply)) ?p (w\<lparr>kheap := h\<rparr>) = Ok (0, w')"
    "queue_of DISPATCH w' = (dispatch_queue w)\<lparr>tasks := tasks (dispatch_queue w) @
        [\<lparr>qt_blk = c, qt_task = rh_handler (snd reply), qt_parameter = ?p\<rparr>],
        sem := Suc (sem (dispatch_queue w))\<rparr>"
    "queue_of MIHF w' = queue_of MIHF (w\<lparr>kheap := h\<rparr>)" "extends h (kheap w') {c}"
    using queue_task_appended [of DISPATCH "w\<lparr>kheap := h\<rparr>" "rh_handler (snd reply)" ?p] assms(1) by auto
  have "extends (kheap w) (kheap w') {b, c}"
    using extends_trans [OF b(2) c(4)] by (simp add: insert_commute)
  then show ?thesis
    using b c extends_next [OF b(2) _ c(4), of b c]
    by (intro that [of w' c b]) (simp_all add: queue_message_def extends_def)
qed


text \<open>The five allocations of an acknowledgement before it is queued.\<close>

lemma ack_allocs:
  assumes "length name \<le> 4000" and "allocs_succeed (kheap w)"
  obtains b1 b2 b3 b4 b5 h1 h2 h3 h4 h5 where "w_alloc 40 w = Ok (b1, w\<lparr>kheap := h1\<rparr>)"
    and "w_alloc 32 (w\<lparr>kheap := h1\<rparr>) = Ok (b2, w\<lparr>kheap := h2\<rparr>)"
    and "w_alloc 32 (w\<lparr>kheap := h2\<rparr>) = Ok (b3, w\<lparr>kheap := h3\<rparr>)"
    and "fill_id_tlv b2 SRC_MIHF_ID_TLV mymihfid (w\<lparr>kheap := h3\<rparr>)
      = Ok (\<lparr>tlv_blk = Some b2, tlv_type = SRC_MIHF_ID_TLV, tlv_length = of_nat (length mymihfid),
             tlv_value = Blk b4 (zstr mymihfid)\<rparr>, w\<lparr>kheap := h4\<rparr>)"
    and "fill_id_tlv b3 DST_MIHF_ID_TLV name (w\<lparr>kheap := h4\<rparr>)
      = Ok (\<lparr>tlv_blk = Some b3, tlv_type = DST_MIHF_ID_TLV, tlv_length = of_nat (length name),
             tlv_value = Blk b5 (zstr name)\<rparr>, w\<lparr>kheap := h5\<rparr>)"
    and "extends (kheap w) h5 {b1, b5, b3, b4, b2}"
    and "b1 < b2" and "b2 < b3" and "b3 < b4" and "b4 < b5" and "b5 < kh_next h5"
proof -
  obtain b1 h1 where 1: "w_alloc 40 w = Ok (b1, w\<lparr>kheap := h1\<rparr>)" "extends (kheap w) h1 {b1}"
    using assms(2) by (rule w_alloc_succeeds [of _ 40]) simp
  have a1: "allocs_succeed (kheap (w\<lparr>kheap := h1\<rparr>))" using assms(2) 1(2) by simp
  obtain b2 h2 where 2: "w_alloc 32 (w\<lparr>kheap := h1\<rparr>) = Ok (b2, w\<lparr>kheap := h2\<rparr>)" "extends h1 h2 {b2}"
    using a1 by (rule w_alloc_succeeds [of _ 32]) simp_all
  have a2: "allocs_succeed (kheap (w\<lparr>kheap := h2\<rparr>))" using a1 2(2) by simp
  obtain b3 h3 where 3: "w_alloc 32 (w\<lparr>kheap := h2\<rparr>) = Ok (b3, w\<lparr>kheap := h3\<rparr>)" "extends h2 h3 {b3}"
    using a2 by (rule w_alloc_succeeds [of _ 32]) simp_all
  have a3: "allocs_succeed (kheap (w\<lparr>kheap := h3\<rparr>))" using a2 3(2) by simp
  have m: "length mymihfid \<le> 4000" by (simp add: mymihfid_def)
  obtain b4 h4 where 4: "fill_id_tlv b2 SRC_MIHF_ID_TLV mymihfid (w\<lparr>kheap := h3\<rparr>)
      = Ok (\<lparr>tlv_blk = Some b2, tlv_type = SRC_MIHF_ID_TLV, tlv_length = of_nat (length mymihfid),
             tlv_value = Blk b4 (zstr mymihfid)\<rparr>, w\<lparr>kheap := h4\<rparr>)" "extends h3 h4 {b4}"
    using m a3 by (rule fill_id_tlv_Ok) simp_all
  have a4: "allocs_succeed (kheap (w\<lparr>kheap := h4\<rparr>))" using a3 4(2) by simp
  obtain b5 h5 where 5: "fill_id_tlv b3 DST_MIHF_ID_TLV name (w\<lparr>kheap := h4\<rparr>)
      = Ok (\<lparr>tlv_blk = Some b3, tlv_type = DST_MIHF_ID_TLV, tlv_length = of_nat (length name),
             tlv_value = Blk b5 (zstr name)\<rparr>, w\<lparr>kheap := h5\<rparr>)" "extends h4 h5 {b5}"
    using assms(1) a4 by (rule fill_id_tlv_Ok) simp_all
  have "extends (kheap w) h5 ({b1} \<union> {b2} \<union> {b3} \<union> {b4} \<union> {b5})"
    using 1(2) 2(2) 3(2) 4(2) 5(2) by (intro extends_trans) simp_all
  moreover have "{b1} \<union> {b2} \<union> {b3} \<union> {b4} \<union> {b5} = {b1, b5, b3, b4, b2}" by auto
  ultimately have ext: "extends (kheap w) h5 {b1, b5, b3, b4, b2}" by simp
  have "b1 < b2" "b2 < b3" "b3 < b4" "b4 < b5" "b5 < kh_next h5"
    using extends_next [OF 1(2) _ 2(2), of b1 b2] extends_next [OF 2(2) _ 3(2), of b2 b3]
      extends_next [OF 3(2) _ 4(2), of b3 b4] extends_next [OF 4(2) _ 5(2), of b4 b5] 5(2)
    by (auto simp: extends_def)
  with ext 1(1) 2(1) 3(1) 4(1) 5(1) show ?thesis by (intro that)
qed

text \<open>The message of an acknowledgement.\<close>

lemma Acknowledge_Ok:
  assumes "deref dst = Ok cells" and "cstring cells = Ok name" and "length name \<le> 4000"
    and "\<not> locked (dispatch_queue w)" and "wf_heap (kheap w)" and "allocs_succeed (kheap w)"
  obtains w' t mb msg where "Acknowledge s q a i dst reply w = Ok (0, w')"
    and "dispatch_queue w' = (dispatch_queue w)\<lparr>tasks := tasks (dispatch_queue w) @ [t],
        sem := Suc (sem (dispatch_queue w))\<rparr>"
    and "mihf_queue w' = mihf_queue w" and "extends (kheap w) (kheap w') (task_blocks t)"
    and "task_ok t" and "qt_task t = rh_handler (snd reply)"
    and "\<exists>b. qt_parameter t = Reply (b, \<lparr>rp_message = Some (mb, msg), rp_param = rh_param (snd reply)\<rparr>)"
    and "header msg = zero_header\<lparr>version := 1, ackrsp := 1, sid := word_of_int s,
        opcode := word_of_int q, aid := word_of_int a, tid := word_of_int i\<rparr>"
    and "list_all2 is_id (tlvs msg) [(SRC_MIHF_ID_TLV, mymihfid), (DST_MIHF_ID_TLV, name)]"
proof -
  obtain b1 b2 b3 b4 b5 h1 h2 h3 h4 h5 where al: "w_alloc 40 w = Ok (b1, w\<lparr>kheap := h1\<rparr>)"
    "w_alloc 32 (w\<lparr>kheap := h1\<rparr>) = Ok (b2, w\<lparr>kheap := h2\<rparr>)"
    "w_alloc 32 (w\<lparr>kheap := h2\<rparr>) = Ok (b3, w\<lparr>kheap := h3\<rparr>)"
    "fill_id_tlv b2 SRC_MIHF_ID_TLV mymihfid (w\<lparr>kheap := h3\<rparr>)
      = Ok (\<lparr>tlv_blk = Some b2, tlv_type = SRC_MIHF_ID_TLV, tlv_length = of_nat (length mymihfid),
             tlv_value = Blk b4 (zstr mymihfid)\<rparr>, w\<lparr>kheap := h4\<rparr>)"
    "fill_id_tlv b3 DST_MIHF_ID_TLV name (w\<lparr>kheap := h4\<rparr>)
      = Ok (\<lparr>tlv_blk = Some b3, tlv_type = DST_MIHF_ID_TLV, tlv_length = of_nat (length name),
             tlv_value = Blk b5 (zstr name)\<rparr>, w\<lparr>kheap := h5\<rparr>)"
    "extends (kheap w) h5 {b1, b5, b3, b4, b2}"
    "b1 < b2" "b2 < b3" "b3 < b4" "b4 < b5" "b5 < kh_next h5"
    using assms(3,6) by (rule ack_allocs)
  have a5: "allocs_succeed (kheap (w\<lparr>kheap := h5\<rparr>))" using assms(6) al(6) by simp
  let ?src = "\<lparr>tlv_blk = Some b2, tlv_type = SRC_MIHF_ID_TLV, tlv_length = of_nat (length mymihfid),
     tlv_value = Blk b4 (zstr mymihfid)\<rparr>"
  let ?dst = "\<lparr>tlv_blk = Some b3, tlv_type = DST_MIHF_ID_TLV, tlv_length = of_nat (length name),
     tlv_value = Blk b5 (zstr name)\<rparr>"
  let ?hdr = "zero_header\<lparr>version := 1, ackrsp := 1, sid := word_of_int s,
     opcode := word_of_int q, aid := word_of_int a, tid := word_of_int i\<rparr>"
  define msg where "msg = \<lparr>header = ?hdr, tlvs_head = indet_head, tlvs = [?src, ?dst]\<rparr>"
  have nl: "\<not> locked (dispatch_queue (w\<lparr>kheap := h5\<rparr>))" using assms(4) by simp
  obtain b6 b7 w' where 6: "queue_message (b1, msg) reply (w\<lparr>kheap := h5\<rparr>) = Ok (0, w')"
    "dispatch_queue w' = (dispatch_queue (w\<lparr>kheap := h5\<rparr>))\<lparr>tasks := tasks (dispatch_queue (w\<lparr>kheap := h5\<rparr>)) @
        [\<lparr>qt_blk = b7, qt_task = rh_handler (snd reply),
          qt_parameter = Reply (b6, \<lparr>rp_message = Some (b1, msg), rp_param = rh_param (snd reply)\<rparr>)\<rparr>],
        sem := Suc (sem (dispatch_queue (w\<lparr>kheap := h5\<rparr>)))\<rparr>"
    "mihf_queue w' = mihf_queue (w\<lparr>kheap := h5\<rparr>)" "extends (kheap (w\<lparr>kheap := h5\<rparr>)) (kheap w') {b6, b7}"
    "b6 < b7" "kh_next (kheap (w\<lparr>kheap := h5\<rparr>)) \<le> b6"
    using nl a5 by (rule queue_message_Ok)
  have "extends (kheap w) (kheap w') ({b1, b5, b3, b4, b2} \<union> {b6, b7})"
    using al(6) 6(4) by (intro extends_trans) simp_all
  moreover have "{b1, b5, b3, b4, b2} \<union> {b6, b7} = {b1, b5, b3, b4, b2, b6, b7}" by auto
  ultimately have ext: "extends (kheap w) (kheap w') {b1, b5, b3, b4, b2, b6, b7}" by (simp only:)
  have lt: "b5 < b6" using al(11) 6(6) by simp
  have nz: "0 \<notin> set name" using cstring_prefix [OF assms(2)] by simp
  have run: "Acknowledge s q a i dst reply w = Ok (0, w')"
    using assms(1,2) al(1-5) 6(1)
    by (simp add: Acknowledge_def Let_def msg_def)
  show ?thesis
    using run 6(2,3,5) ext lt nz al(7-10)
    by (intro that [of w' "\<lparr>qt_blk = b7, qt_task = rh_handler (snd reply),
          qt_parameter = Reply (b6, \<lparr>rp_message = Some (b1, msg), rp_param = rh_param (snd reply)\<rparr>)\<rparr>" b1 msg])
      (simp_all add: msg_def task_blocks_def tlv_blocks_def task_ok_def owned_tlv_def is_id_def
        tlv_string_def mymihfid_def)
qed


section \<open>Requests\<close>

lemma ProcessRequest_cases:
  assumes "deref (tlv_value (tlv_at msg 1)) = Ok cells" and "cstring cells = Ok dst"
  shows "dst \<noteq> mymihfid \<Longrightarrow> ProcessRequest msg reply w = Ok (- 1, w)"
    and "dst = mymihfid \<Longrightarrow> ackreq (header msg) = 0 \<Longrightarrow>
      ProcessRequest msg reply w = Ok (if accepts (header msg) then 0 else - 1, w)"
    and "dst = mymihfid \<Longrightarrow> ackreq (header msg) \<noteq> 0 \<Longrightarrow>
      Acknowledge (uint (sid (header msg))) (uint (opcode (header msg))) (uint (aid (header msg)))
        (uint (tid (header msg))) (tlv_value (tlv_at msg 0)) reply w = Ok (z, w') \<Longrightarrow>
      ProcessRequest msg reply w = Ok (if accepts (header msg) then 0 else - 1, w')"
proof -
  obtain c where c: "c_strcmp cells mymihfid_mem = Ok c" "c = 0 \<longleftrightarrow> dst = mymihfid"
    using c_strcmp_eq_0_iff [OF assms(2) cstring_mymihfid] by blast
  note run = ProcessRequest_def [of msg reply w, unfolded Let_def assms(1) c cbind.simps dispatch_answer]
  show "dst \<noteq> mymihfid \<Longrightarrow> ProcessRequest msg reply w = Ok (- 1, w)"
    and "dst = mymihfid \<Longrightarrow> ackreq (header msg) = 0 \<Longrightarrow>
      ProcessRequest msg reply w = Ok (if accepts (header msg) then 0 else - 1, w)"
    and "dst = mymihfid \<Longrightarrow> ackreq (header msg) \<noteq> 0 \<Longrightarrow>
      Acknowledge (uint (sid (header msg))) (uint (opcode (header msg))) (uint (aid (header msg)))
        (uint (tid (header msg))) (tlv_value (tlv_at msg 0)) reply w = Ok (z, w') \<Longrightarrow>
      ProcessRequest msg reply w = Ok (if accepts (header msg) then 0 else - 1, w')"
    using c(2) unfolding run by simp_all
qed

section \<open>Properties\<close>

text \<open>
  Property C14: a request that does not ask for an acknowledgement changes nothing. It is
  answered with 0 exactly when it is addressed to this node and its service, action and
  operation are accepted ones (the table \<open>accepts\<close>), and with -1 otherwise.
\<close>

theorem request_answer:
  assumes "tlv_string (tlv_at msg 1) dst" and "ackreq (header msg) = 0"
  shows "ProcessRequest msg reply w = Ok (if dst = mymihfid \<and> accepts (header msg) then 0 else - 1, w)"
proof -
  obtain cells where "deref (tlv_value (tlv_at msg 1)) = Ok cells" "cstring cells = Ok dst"
    using assms(1) by (rule tlv_stringE)
  from ProcessRequest_cases(1,2) [OF this, of reply w] assms(2) show ?thesis
    by (cases "dst = mymihfid") simp_all
qed

theorem request_answer_witness:
  "ProcessRequest (sample_request 0 mymihfid) sample_reply world0 = Ok (0, world0)"
proof -
  have "tlv_string (tlv_at (sample_request 0 mymihfid) 1) mymihfid"
    by (simp add: sample_request_def tlv_at_def tlv_string_def mymihfid_def)
  from request_answer [OF this, of sample_reply world0] show ?thesis
    by (simp add: sample_request_def accepts_def management_accepts_def)
qed

text \<open>
  A request addressed to another node is refused without any effect, even
  when it asks for an acknowledgement.
\<close>

theorem request_for_other_node:
  assumes "tlv_string (tlv_at msg 1) dst" and "dst \<noteq> mymihfid"
  shows "ProcessRequest msg reply w = Ok (- 1, w)"
proof -
  obtain cells where "deref (tlv_value (tlv_at msg 1)) = Ok cells" "cstring cells = Ok dst"
    using assms(1) by (rule tlv_stringE)
  from ProcessRequest_cases(1) [OF this assms(2)] show ?thesis .
qed

text \<open>
  A request addressed to this node that asks for an acknowledgement gets
  exactly one, whatever its service: a message with the acknowledgement bit and the
  service, operation, action and transaction of the request, from this node to the
  requester, queued for dispatch with the reply handler's function and address. The
  request is still answered as without the acknowledgement, and all that was allocated
  belongs to the queued task.
\<close>

theorem request_acknowledged:
  assumes "tlv_string (tlv_at msg 0) src" and "length src \<le> 4000"
    and "tlv_string (tlv_at msg 1) mymihfid" and "ackreq (header msg) = 1"
    and "\<not> locked (dispatch_queue w)" and "wf_heap (kheap w)" and "allocs_succeed (kheap w)"
  shows "\<exists>w' t b mb ack. ProcessRequest msg reply w = Ok (if accepts (header msg) then 0 else - 1, w') \<and>
     dispatch_queue w' = (dispatch_queue w)\<lparr>tasks := tasks (dispatch_queue w) @ [t],
        sem := Suc (sem (dispatch_queue w))\<rparr> \<and>
     mihf_queue w' = mihf_queue w \<and>
     qt_task t = rh_handler (snd reply) \<and>
     qt_parameter t = Reply (b, \<lparr>rp_message = Some (mb, ack), rp_param = rh_param (snd reply)\<rparr>) \<and>
     header ack = zero_header\<lparr>version := 1, ackrsp := 1, sid := sid (header msg),
       opcode := opcode (header msg), aid := aid (header msg), tid := tid (header msg)\<rparr> \<and>
     list_all2 is_id (tlvs ack) [(SRC_MIHF_ID_TLV, mymihfid), (DST_MIHF_ID_TLV, src)] \<and>
     task_ok t \<and> extends (kheap w) (kheap w') (task_blocks t)"
proof -
  obtain d where d: "deref (tlv_value (tlv_at msg 1)) = Ok d" "cstring d = Ok mymihfid"
    using assms(3) by (rule tlv_stringE)
  obtain c where c: "deref (tlv_value (tlv_at msg 0)) = Ok c" "cstring c = Ok src"
    using assms(1) by (rule tlv_stringE)
  let ?h = "header msg"
  obtain w' t mb ack where ack: "Acknowledge (uint (sid ?h)) (uint (opcode ?h)) (uint (aid ?h))
      (uint (tid ?h)) (tlv_value (tlv_at msg 0)) reply w = Ok (0, w')"
    "dispatch_queue w' = (dispatch_queue w)\<lparr>tasks := tasks (dispatch_queue w) @ [t],
        sem := Suc (sem (dispatch_queue w))\<rparr>"
    "mihf_queue w' = mihf_queue w" "extends (kheap w) (kheap w') (task_blocks t)"
    "task_ok t" "qt_task t = rh_handler (snd reply)"
    "\<exists>b. qt_parameter t = Reply (b, \<lparr>rp_message = Some (mb, ack), rp_param = rh_param (snd reply)\<rparr>)"
    "header ack = zero_header\<lparr>version := 1, ackrsp := 1, sid := word_of_int (uint (sid ?h)),
        opcode := word_of_int (uint (opcode ?h)), aid := word_of_int (uint (aid ?h)),
        tid := word_of_int (uint (tid ?h))\<rparr>"
    "list_all2 is_id (tlvs ack) [(SRC_MIHF_ID_TLV, mymihfid), (DST_MIHF_ID_TLV, src)]"
    using c assms(2,5-7) by (rule Acknowledge_Ok)
  have "ProcessRequest msg reply w = Ok (if accepts ?h then 0 else - 1, w')"
    using assms(4) by (intro ProcessRequest_cases(3) [OF d refl _ ack(1)]) simp
  with ack(2-9) show ?thesis by auto
qed

text \<open>
  \<open>ProcessRequest\<close> does not check that the message has two elements. For a
  message on the stack, whose list head nobody has written to, with fewer than two
  elements it follows a pointer that was never set.
\<close>

theorem request_needs_two_elements:
  assumes "length (tlvs msg) < 2" and "tlv_value (tlvs_head msg) = Indet"
  shows "ProcessRequest msg reply w = Fault Uninit"
  using assms by (simp add: ProcessRequest_def tlv_at_def)

end
