(* ===== verification/Net_Hand.thy ===== *)
theory Net_Hand
  imports Proto
begin

text \<open>
  The network handlers (\<open>net_hand.c\<close>): the sockets they open, the tasks they queue
  (\<open>handle_message\<close>, \<open>handle_connection\<close>), the reply task \<open>handle_udp_reply\<close> and the
  receive loops. What arrives and when the threads are told to stop are arguments; the
  answers of the kernel's socket calls come from the state.
\<close>

section \<open>Socket calls\<close>

text \<open>A call into the kernel's network code, with its answer.\<close>

definition net_call :: "world \<Rightarrow> int \<times> world" where
  "net_call w = (net_ret w (net_calls w), w\<lparr>net_calls := Suc (net_calls w)\<rparr>)"

text \<open>
  \<open>sock_create(..., &sock)\<close>: on success a new socket, open until it is released; on
  failure the variable is left as it was.
\<close>

definition sock_create :: "sock option \<Rightarrow> world \<Rightarrow> int \<times> sock option \<times> world" where
  "sock_create old w =
     (let n = net_calls w; (s, w) = net_call w in
      if s < 0 then (s, old, w)
      else (s, Some \<lparr>sock_id = n, sock_sk = net_sk w n\<rparr>, w\<lparr>open_socks := insert n (open_socks w)\<rparr>))"

definition sock_release :: "sock \<Rightarrow> world \<Rightarrow> world cres" where
  "sock_release sk w =
     (if sock_id sk \<in> open_socks w then Ok (w\<lparr>open_socks := open_socks w - {sock_id sk}\<rparr>)
      else Fault BadFree)"

text \<open>\<open>AF_INET\<close>, the port 4551 and any address (in host byte order).\<close>

definition inbound_addr :: sockaddr_in where
  "inbound_addr = \<lparr>sin_family = 2, sin_port = 4551, sin_addr = 0\<rparr>"

text \<open>Both results and \<open>_udp_insock\<close>; \<open>*rxaddr\<close> is set to \<open>inbound_addr\<close>.\<close>

definition UdpSockInit :: "world \<Rightarrow> (int \<times> sock option \<times> world) cres" where
  "UdpSockInit w =
     (case sock_create None w of
        (s, insock, w) \<Rightarrow>
          if s < 0 then Ok (- 1, insock, w)
          else (case insock of
              None \<Rightarrow> Fault NullDeref
            | Some sk \<Rightarrow>
                (case net_call w of
                   (s, w) \<Rightarrow>
                     if s < 0 then cbind (sock_release sk w) (\<lambda>w. Ok (- 1, insock, w))
                     else Ok (0, insock, w))))"

definition TcpSockInit :: "world \<Rightarrow> (int \<times> sock option \<times> world) cres" where
  "TcpSockInit w =
     (case sock_create None w of
        (s, insock, w) \<Rightarrow>
          if s < 0 then Ok (- 1, insock, w)
          else (case insock of
              None \<Rightarrow> Fault NullDeref
            | Some sk \<Rightarrow>
                (case net_call w of (s, w) \<Rightarrow>
                 case net_call w of (s, w) \<Rightarrow>
                 case net_call w of (s, w) \<Rightarrow>
                   if s < 0 then cbind (sock_release sk w) (\<lambda>w. Ok (- 1, insock, w))
                   else (case net_call w of (s, w) \<Rightarrow>
                     if s < 0 then cbind (sock_release sk w) (\<lambda>w. Ok (- 1, insock, w))
                     else Ok (0, insock, w)))))"

text \<open>What \<open>sock_sendmsg\<close> is given is recorded; its answer is the result.\<close>

definition udp_send :: "sock \<Rightarrow> sockaddr_in option \<Rightarrow> mem \<Rightarrow> int \<Rightarrow> world \<Rightarrow> (int \<times> world) cres" where
  "udp_send sk addr buf len w =
     (if \<not> sock_sk sk then Ok (0, w)
      else if length buf < size_of_int len then Fault OutOfBounds
      else (case net_call w of (n, w) \<Rightarrow>
        Ok (n, w\<lparr>sent := sent w @ [\<lparr>dg_to = addr, dg_bytes = take (size_of_int len) buf\<rparr>]\<rparr>)))"

text \<open>What the network delivers to a blocked receiver: a datagram, or an error.\<close>

datatype arrival = Datagram "u8 list" sockaddr_in | Failure int

text \<open>The result, the buffer and the sender. A datagram is cut to the size of the buffer.\<close>

definition udp_recv :: "sock \<Rightarrow> arrival \<Rightarrow> mem \<Rightarrow> int \<Rightarrow> (int \<times> mem \<times> sockaddr_in option) cres" where
  "udp_recv sk got buf len =
     (if \<not> sock_sk sk then Ok (0, buf, None)
      else case got of
        Failure e \<Rightarrow> Ok (e, buf, None)
      | Datagram bs from \<Rightarrow>
          (let bs = take (size_of_int len) bs in
           if length buf < length bs then Fault OutOfBounds
           else Ok (int (length bs), blit buf 0 bs, Some from)))"

section \<open>Tasks\<close>

text \<open>The message on the stack of \<open>handle_message\<close>, before it is unpacked.\<close>

definition stack_message :: mih_message where
  "stack_message = \<lparr>header = zero_header, tlvs_head = indet_head, tlvs = []\<rparr>"

definition handle_message :: "received_message ptr \<Rightarrow> world \<Rightarrow> world cres" where
  "handle_message parameter w =
     (let p = snd parameter in
      cbind (deref (rm_msg p)) (\<lambda>cells.
      cbind (unpack_mih_message cells (word_of_int (rm_len p)) stack_message (kheap w))
        (\<lambda>(s, message, h).
      cbind (if s < 0 then Ok (w\<lparr>kheap := h\<rparr>)
             else cbind (ProcessRequest message (rm_reply p) (w\<lparr>kheap := h\<rparr>)) (\<lambda>(_, w).
                  cbind (free_tlvs (tlvs message) (kheap w)) (\<lambda>h. Ok (w\<lparr>kheap := h\<rparr>)))) (\<lambda>w.
      cbind (kfree_buf (rm_msg p) (kheap w)) (\<lambda>h.
      w_kfree (fst parameter) (w\<lparr>kheap := h\<rparr>))))))"

definition handle_connection :: "sock option \<Rightarrow> world \<Rightarrow> world cres" where
  "handle_connection parameter w =
     (case parameter of None \<Rightarrow> Ok w | Some sk \<Rightarrow> sock_release sk w)"

text \<open>The part of \<open>handle_udp_reply\<close> between \<open>sock_create\<close> and \<open>msg_out\<close>.\<close>

definition send_reply ::
    "mih_message \<Rightarrow> sockaddr_in ptr option \<Rightarrow> nat option \<Rightarrow> world \<Rightarrow> (mih_message \<times> world) cres" where
  "send_reply message addr buffer w =
     (case sock_create None w of
        (s, sk, w) \<Rightarrow>
          if s < 0 then Ok (message, w)
          else (case (sk, buffer) of
              (Some sk, Some b) \<Rightarrow>
                cbind (pack_mih_message message (replicate BUFFER_SIZE None) (of_nat BUFFER_SIZE) (kheap w))
                  (\<lambda>(s, message, cells, h).
                cbind (if s < 1 then Ok (w\<lparr>kheap := h\<rparr>)
                       else cbind (udp_send sk (map_option snd addr) cells s (w\<lparr>kheap := h\<rparr>))
                              (\<lambda>(_, w). Ok w)) (\<lambda>w.
                cbind (sock_release sk w) (\<lambda>w. Ok (message, w))))
            | _ \<Rightarrow> Fault NullDeref))"

definition handle_udp_reply :: "reply_parameter ptr \<Rightarrow> world \<Rightarrow> world cres" where
  "handle_udp_reply parameter w =
     (let p = snd parameter; (buffer, w) = w_kmalloc BUFFER_SIZE w in
      cbind (case rp_message p of
               None \<Rightarrow> cbind (kfree (map_option fst (rp_param p)) (kheap w)) (\<lambda>h. Ok (w\<lparr>kheap := h\<rparr>))
             | Some (mb, message) \<Rightarrow>
                 cbind (send_reply message (rp_param p) buffer w) (\<lambda>(message, w).
                 cbind (free_tlvs (tlvs message) (kheap w)) (\<lambda>h.
                 w_kfree mb (w\<lparr>kheap := h\<rparr>)))) (\<lambda>w.
      cbind (w_kfree (fst parameter) w) (\<lambda>w.
      cbind (kfree buffer (kheap w)) (\<lambda>h. Ok (w\<lparr>kheap := h\<rparr>)))))"

section \<open>Receive loops\<close>

text \<open>
  One turn of a receive loop: the test says stop, or it says go on and then something
  arrives.
\<close>

datatype turn = Stop | Go arrival

text \<open>How a loop was left, or that it waits for the next arrival.\<close>

datatype loop_end = Left | Receiving

text \<open>
  One turn of the receive loop of \<open>UdpHandler\<close> after its test. The third argument is the
  state at the label \<open>reuse_allocations\<close>: the address and the buffer of a receive that
  failed; so is the first result, for the next turn. A datagram without a sender comes
  only from a socket without \<open>sk\<close>, has length 0 and is never answered.
\<close>

definition udp_turn ::
    "sock \<Rightarrow> arrival \<Rightarrow> (nat option \<times> nat) option \<Rightarrow> world \<Rightarrow>
     ((nat option \<times> nat) option \<times> world) cres" where
  "udp_turn sk got st w =
     cbind (case st of
              Some (rxaddr, buf) \<Rightarrow> Ok (rxaddr, buf, w)
            | None \<Rightarrow>
                (let (rxaddr, w) = w_kmalloc sizeof_sockaddr_in w in
                 cbind (w_alloc BUFFER_SIZE w) (\<lambda>(buf, w). Ok (rxaddr, buf, w))))
       (\<lambda>(rxaddr, buf, w).
     cbind (udp_recv sk got (replicate BUFFER_SIZE (Some 0)) (int BUFFER_SIZE))
       (\<lambda>(received, cells, from).
     if received < 0 then Ok (Some (rxaddr, buf), w)
     else
       cbind (w_alloc sizeof_reply_handler w) (\<lambda>(rb, w).
       cbind (w_alloc sizeof_received_message w) (\<lambda>(pb, w).
       let addr = (case from of None \<Rightarrow> \<lparr>sin_family = 0, sin_port = 0, sin_addr = 0\<rparr> | Some a \<Rightarrow> a);
           reply_hand = (rb, \<lparr>rh_handler = Addr_handle_udp_reply,
                              rh_param = map_option (\<lambda>b. (b, addr)) rxaddr\<rparr>);
           parameter = (pb, \<lparr>rm_len = received, rm_msg = Blk buf cells, rm_reply = reply_hand\<rparr>) in
       cbind (queue_task MIHF Addr_handle_message (Received parameter) w) (\<lambda>(_, w).
       Ok (None, w))))))"

fun udp_loop ::
    "sock \<Rightarrow> turn list \<Rightarrow> (nat option \<times> nat) option \<Rightarrow> world \<Rightarrow> (loop_end \<times> world) cres" where
  "udp_loop sk [] st w = Ok (Receiving, w)"
| "udp_loop sk (Stop # ts) st w =
     (case st of
        None \<Rightarrow> Ok (Left, w)
      | Some (rxaddr, buf) \<Rightarrow>
          cbind (kfree rxaddr (kheap w)) (\<lambda>h.
          cbind (w_kfree buf (w\<lparr>kheap := h\<rparr>)) (\<lambda>w. Ok (Left, w))))"
| "udp_loop sk (Go got # ts) st w =
     cbind (udp_turn sk got st w) (\<lambda>(st, w). udp_loop sk ts st w)"

text \<open>The loop that waits for \<open>kthread_stop\<close> at the end has no effect on the state.\<close>

definition UdpHandler :: "turn list \<Rightarrow> world \<Rightarrow> (int option \<times> world) cres" where
  "UdpHandler ts w =
     cbind (UdpSockInit w) (\<lambda>(s, insock, w).
     if s < 0 then Ok (Some (- 1), w)
     else case insock of
         None \<Rightarrow> Fault NullDeref
       | Some sk \<Rightarrow>
           cbind (udp_loop sk ts None w) (\<lambda>(e, w).
           case e of
             Receiving \<Rightarrow> Ok (None, w)
           | Left \<Rightarrow> cbind (sock_release sk w) (\<lambda>w. Ok (Some 0, w))))"

text \<open>
  The accept loop of \<open>TcpHandler\<close>; the argument list holds the results of the loop test
  (true: go on). Only the result -1 of \<open>sock_create\<close> is taken for a failure; after any
  other error the loop goes on with the socket of an earlier turn.
\<close>

fun tcp_loop :: "bool list \<Rightarrow> sock option \<Rightarrow> world \<Rightarrow> (loop_end \<times> world) cres" where
  "tcp_loop [] new_sock w = Ok (Receiving, w)"
| "tcp_loop (False # ts) new_sock w = Ok (Left, w)"
| "tcp_loop (True # ts) new_sock w =
     (case sock_create new_sock w of
        (s, new_sock, w) \<Rightarrow>
          if s = - 1 then tcp_loop ts new_sock w
          else (case new_sock of
              None \<Rightarrow> Fault NullDeref
            | Some sk \<Rightarrow>
                (case net_call w of (s, w) \<Rightarrow>
                   if s < 0 then tcp_loop ts new_sock w
                   else cbind (queue_task MIHF Addr_handle_connection (Connection new_sock) w)
                     (\<lambda>(r, w).
                     cbind (if r \<noteq> 0 then sock_release sk w else Ok w) (\<lambda>w.
                     tcp_loop ts new_sock w)))))"

definition TcpHandler :: "bool list \<Rightarrow> world \<Rightarrow> (int option \<times> world) cres" where
  "TcpHandler ts w =
     cbind (TcpSockInit w) (\<lambda>(s, insock, w).
     if s < 0 then Ok (Some (- 1), w)
     else case insock of
         None \<Rightarrow> Fault NullDeref
       | Some sk \<Rightarrow>
           cbind (tcp_loop ts None w) (\<lambda>(e, w).
           case e of
             Receiving \<Rightarrow> Ok (None, w)
           | Left \<Rightarrow> cbind (sock_release sk w) (\<lambda>w. Ok (Some 0, w))))"

text \<open>Socket identities are numbers of past calls.\<close>

definition wf_socks :: "world \<Rightarrow> bool" where
  "wf_socks w \<longleftrightarrow> (\<forall>i \<in> open_socks w. i < net_calls w)"

text \<open>What the queue gets for an arrival: the datagram, cut to the buffer, and its sender.\<close>

fun delivered :: "arrival \<Rightarrow> (u8 list \<times> sockaddr_in) list" where
  "delivered (Datagram bs from) = [(take BUFFER_SIZE bs, from)]"
| "delivered (Failure e) = []"

text \<open>The task queued for a datagram: its bytes, the rest of the buffer cleared, its sender.\<close>

definition task_for :: "queued_task \<Rightarrow> u8 list \<times> sockaddr_in \<Rightarrow> bool" where
  "task_for t d \<longleftrightarrow> qt_task t = Addr_handle_message \<and>
     (\<exists>pb buf rb ab. qt_parameter t = Received (pb, \<lparr>rm_len = int (length (fst d)),
        rm_msg = Blk buf (map Some (fst d) @ replicate (BUFFER_SIZE - length (fst d)) (Some 0)),
        rm_reply = (rb, \<lparr>rh_handler = Addr_handle_udp_reply, rh_param = Some (ab, snd d)\<rparr>)\<rparr>))"

text \<open>The blocks kept for the next turn are allocated and different.\<close>

fun kept :: "(nat option \<times> nat) option \<Rightarrow> world \<Rightarrow> bool" where
  "kept None w \<longleftrightarrow> True"
| "kept (Some (None, buf)) w \<longleftrightarrow> False"
| "kept (Some (Some a, buf)) w \<longleftrightarrow> a \<noteq> buf \<and> {a, buf} \<subseteq> kh_live (kheap w)"

section \<open>Effect of a request on the shared state, whatever the message\<close>

lemma w_alloc_next: "w_alloc n w = Ok (b, w') \<Longrightarrow>
   \<exists>h. w' = w\<lparr>kheap := h\<rparr> \<and> extends (kheap w) h {b} \<and> b = kh_next (kheap w) \<and> kh_next h = Suc b"
  by (auto simp: w_alloc_def w_kmalloc_def kmalloc_def extends_def split: prod.splits option.splits if_splits)

lemma fill_id_tlv_result:
  assumes "fill_id_tlv b ty str w = Ok (t, w')" and "0 \<notin> set str"
  shows "\<exists>c cells h. tlv_blk t = Some b \<and> tlv_type t = ty \<and> tlv_value t = Blk c cells \<and>
     cstring cells = Ok str \<and> w' = w\<lparr>kheap := h\<rparr> \<and> extends (kheap w) h {c} \<and> kh_next (kheap w) \<le> c"
proof -
  let ?n = "size_of_int (int32 (int32 (int (length str)) + 1))"
  obtain c w1 cells where a: "w_alloc ?n w = Ok (c, w1)" and cp: "c_strcpy (replicate ?n None) str = Ok cells"
    and t: "t = \<lparr>tlv_blk = Some b, tlv_type = ty, tlv_length = word_of_int (int32 (int (length str))),
      tlv_value = Blk c cells\<rparr>" and w': "w' = w1"
    using assms(1) by (auto simp: fill_id_tlv_def Let_def elim!: cbind_OkE)
  from cp have "cells = zstr str @ replicate (?n - Suc (length str)) None"
    by (auto simp: c_strcpy_def blit_def zstr_def split: if_splits)
  then have "cstring cells = Ok str" using assms(2) by simp
  with w_alloc_next [OF a] t w' show ?thesis by auto
qed

lemma queue_message_result:
  assumes "queue_message message reply w = Ok (z, w')"
  shows "\<exists>b c. dispatch_queue w' = (dispatch_queue w)\<lparr>tasks := tasks (dispatch_queue w) @
        [\<lparr>qt_blk = c, qt_task = rh_handler (snd reply),
          qt_parameter = Reply (b, \<lparr>rp_message = Some message, rp_param = rh_param (snd reply)\<rparr>)\<rparr>],
        sem := Suc (sem (dispatch_queue w))\<rparr> \<and>
     mihf_queue w' = mihf_queue w \<and> open_socks w' = open_socks w \<and> sent w' = sent w \<and> net_calls w' = net_calls w \<and>
     extends (kheap w) (kheap w') {b, c} \<and> b < c \<and> kh_next (kheap w) \<le> b"
proof -
  let ?p = "\<lambda>b. Reply (b, \<lparr>rp_message = Some message, rp_param = rh_param (snd reply)\<rparr>)"
  obtain b w1 w2 where a: "w_alloc 16 w = Ok (b, w1)"
    and l: "link_task DISPATCH (rh_handler (snd reply)) (?p b) w1 = Ok w2" and w': "w' = up DISPATCH w2"
    using assms by (auto simp: queue_message_def queue_task_def elim!: cbind_OkE)
  obtain h where h: "w1 = w\<lparr>kheap := h\<rparr>" "extends (kheap w) h {b}" "b = kh_next (kheap w)" "kh_next h = Suc b"
    using w_alloc_next [OF a] by blast
  obtain c where c: "queue_of DISPATCH w2 = (queue_of DISPATCH w1)\<lparr>tasks := tasks (queue_of DISPATCH w1) @
      [\<lparr>qt_blk = c, qt_task = rh_handler (snd reply), qt_parameter = ?p b\<rparr>]\<rparr>"
    "\<not> locked (queue_of DISPATCH w1)" "extends (kheap w1) (kheap w2) {c}" "queue_of MIHF w2 = queue_of MIHF w1"
    "open_socks w2 = open_socks w1" "sent w2 = sent w1" "net_calls w2 = net_calls w1"
    using l by (auto elim!: link_task_queue)
  have "extends (kheap w) (kheap w2) {b, c}"
    using extends_trans [OF h(2)] c(3) h(1) by (fastforce simp: insert_commute)
  moreover have "b < c" using c(3) h by (auto simp: extends_def)
  ultimately show ?thesis
    using c(1,4-7) h(1,3) by (intro exI [of _ b] exI [of _ c]) (simp add: w' up_def)
qed

lemma Acknowledge_result:
  assumes "Acknowledge s q a i dst reply w = Ok (z, w')" and wf: "wf_heap (kheap w)"
  shows "\<exists>t. replies w [t] w' \<and> qt_task t = rh_handler (snd reply) \<and>
    (\<exists>b m. qt_parameter t = Reply (b, \<lparr>rp_message = Some m, rp_param = rh_param (snd reply)\<rparr>))"
proof -
  obtain name b1 w1 b2 w2 b3 w3 st w4 dt w5 z' where
    nm: "\<exists>cells. cstring cells = Ok name" and
    al: "w_alloc 40 w = Ok (b1, w1)" "w_alloc 32 w1 = Ok (b2, w2)" "w_alloc 32 w2 = Ok (b3, w3)"
      "fill_id_tlv b2 SRC_MIHF_ID_TLV mymihfid w3 = Ok (st, w4)"
      "fill_id_tlv b3 DST_MIHF_ID_TLV name w4 = Ok (dt, w5)" and
    qm: "\<exists>hdr. queue_message (b1, \<lparr>header = hdr, tlvs_head = indet_head, tlvs = [st, dt]\<rparr>) reply w5 = Ok (z', w')"
    using assms(1) by (fastforce simp: Acknowledge_def Let_def elim!: cbind_OkE)
  have nz: "0 \<notin> set mymihfid" "0 \<notin> set name" using nm cstring_prefix by (auto simp: mymihfid_def)
  obtain h1 where 1: "w1 = w\<lparr>kheap := h1\<rparr>" "extends (kheap w) h1 {b1}"
    using w_alloc_Ok [OF al(1)] by blast
  obtain h2 where 2: "w2 = w\<lparr>kheap := h2\<rparr>" "extends h1 h2 {b2}"
    using w_alloc_Ok [OF al(2)] 1(1) by auto
  obtain h3 where 3: "w3 = w\<lparr>kheap := h3\<rparr>" "extends h2 h3 {b3}"
    using w_alloc_Ok [OF al(3)] 2(1) by auto
  obtain b4 h4 where 4: "tlv_blk st = Some b2" "\<exists>c. tlv_value st = Blk b4 c"
    "w4 = w\<lparr>kheap := h4\<rparr>" "extends h3 h4 {b4}"
    using fill_id_tlv_result [OF al(4) nz(1)] 3(1) by auto
  obtain b5 h5 where 5: "tlv_blk dt = Some b3" "\<exists>c. tlv_value dt = Blk b5 c"
    "w5 = w\<lparr>kheap := h5\<rparr>" "extends h4 h5 {b5}"
    using fill_id_tlv_result [OF al(5) nz(2)] 4(3) by auto
  obtain hdr b6 b7 where 6: "dispatch_queue w' = (dispatch_queue w5)\<lparr>tasks := tasks (dispatch_queue w5) @
        [\<lparr>qt_blk = b7, qt_task = rh_handler (snd reply), qt_parameter = Reply (b6,
          \<lparr>rp_message = Some (b1, \<lparr>header = hdr, tlvs_head = indet_head, tlvs = [st, dt]\<rparr>),
           rp_param = rh_param (snd reply)\<rparr>)\<rparr>],
        sem := Suc (sem (dispatch_queue w5))\<rparr>"
     "mihf_queue w' = mihf_queue w5" "open_socks w' = open_socks w5" "sent w' = sent w5"
     "net_calls w' = net_calls w5"
     "extends (kheap w5) (kheap w') {b6, b7}" "b6 < b7" "kh_next (kheap w5) \<le> b6"
    using qm queue_message_result by blast
  let ?t = "\<lparr>qt_blk = b7, qt_task = rh_handler (snd reply), qt_parameter = Reply (b6,
      \<lparr>rp_message = Some (b1, \<lparr>header = hdr, tlvs_head = indet_head, tlvs = [st, dt]\<rparr>),
       rp_param = rh_param (snd reply)\<rparr>)\<rparr>"
  have lt: "b1 < b2" "b2 < b3" "b3 < b4" "b4 < b5" "b5 < b6"
    using extends_next [OF 1(2) _ 2(2), of b1 b2] extends_next [OF 2(2) _ 3(2), of b2 b3]
      extends_next [OF 3(2) _ 4(4), of b3 b4] extends_next [OF 4(4) _ 5(4), of b4 b5] 5(3,4) 6(8)
    by (auto simp: extends_def)
  have blocks: "task_blocks ?t = {b1} \<union> {b2} \<union> {b3} \<union> {b4} \<union> {b5} \<union> {b6, b7}"
    using 4(1,2) 5(1,2) by (auto simp: task_blocks_def tlv_blocks_def)
  have ext: "extends (kheap w) (kheap w') (task_blocks ?t)"
    unfolding blocks using 1(2) 2(2) 3(2) 4(4) 5(3,4) 6(6) by (intro extends_trans) simp_all
  have "task_ok ?t"
    using lt 6(7) 4(1,2) 5(1,2) by (auto simp: task_ok_def owned_tlv_def tlv_blocks_def)
  with ext 6(1-5) 5(3) show ?thesis
    by (intro exI [of _ ?t]) (simp add: replies_def queues_replies_def tasks_blocks_def)
qed

lemma ProcessRequest_result:
  assumes "ProcessRequest msg reply w = Ok (z, w')" and "wf_heap (kheap w)"
  shows "\<exists>ts. length ts \<le> 1 \<and> replies w ts w' \<and> (\<forall>t \<in> set ts. qt_task t = rh_handler (snd reply) \<and>
    (\<exists>b m. qt_parameter t = Reply (b, \<lparr>rp_message = Some m, rp_param = rh_param (snd reply)\<rparr>)))"
proof (cases "w' = w")
  case True
  then show ?thesis by (intro exI [of _ "[]"]) (simp add: replies_def queues_replies_def tasks_blocks_def)
next
  case False
  then obtain y where "Acknowledge (uint (sid (header msg))) (uint (opcode (header msg)))
      (uint (aid (header msg))) (uint (tid (header msg))) (tlv_value (tlv_at msg 0)) reply w = Ok (y, w')"
    using assms(1) by (auto simp: ProcessRequest_def Let_def elim!: cbind_OkE split: if_splits)
  from Acknowledge_result [OF this assms(2)] obtain t where "replies w [t] w'"
    "qt_task t = rh_handler (snd reply)"
    "\<exists>b m. qt_parameter t = Reply (b, \<lparr>rp_message = Some m, rp_param = rh_param (snd reply)\<rparr>)" by blast
  then show ?thesis by (intro exI [of _ "[t]"]) simp
qed


section \<open>Effect of the tasks\<close>

text \<open>Unpacking, processing and releasing the message of a received datagram.\<close>

lemma process_received:
  assumes un: "unpack_mih_message cells n stack_message (kheap w) = Ok (s, m, h)"
    and mid: "(if s < 0 then Ok (w\<lparr>kheap := h\<rparr>)
       else cbind (ProcessRequest m reply (w\<lparr>kheap := h\<rparr>)) (\<lambda>(_, w).
            cbind (free_tlvs (tlvs m) (kheap w)) (\<lambda>h. Ok (w\<lparr>kheap := h\<rparr>)))) = Ok w1"
    and wf: "wf_heap (kheap w)" and len: "length cells < 2 ^ 31"
  shows "\<exists>ts. length ts \<le> 1 \<and> replies w ts w1 \<and> (\<forall>t \<in> set ts. qt_task t = rh_handler (snd reply) \<and>
    (\<exists>b m. qt_parameter t = Reply (b, \<lparr>rp_message = Some m, rp_param = rh_param (snd reply)\<rparr>)))"
proof (cases "s < 0")
  case True
  with mid unpack_message_result [OF un wf len] show ?thesis
    by (intro exI [of _ "[]"]) (auto simp: replies_def queues_replies_def tasks_blocks_def)
next
  case False
  with unpack_message_result [OF un wf len] have own: "owned_tlvs (tlvs m)"
    and ext: "extends (kheap w) h (tlvs_blocks (tlvs m))" by auto
  obtain z w2 h2 where pr: "ProcessRequest m reply (w\<lparr>kheap := h\<rparr>) = Ok (z, w2)"
    and fr: "free_tlvs (tlvs m) (kheap w2) = Ok h2" and w1: "w1 = w2\<lparr>kheap := h2\<rparr>"
    using mid False by (auto elim!: cbind_OkE)
  have "wf_heap (kheap (w\<lparr>kheap := h\<rparr>))" using extends_wf [OF wf ext] by simp
  from ProcessRequest_result [OF pr this] obtain ts where ts: "length ts \<le> 1"
    "replies (w\<lparr>kheap := h\<rparr>) ts w2"
    "\<forall>t \<in> set ts. qt_task t = rh_handler (snd reply) \<and>
    (\<exists>b m. qt_parameter t = Reply (b, \<lparr>rp_message = Some m, rp_param = rh_param (snd reply)\<rparr>))" by blast
  then have e2: "extends h (kheap w2) (tasks_blocks ts)" by (simp add: replies_def queues_replies_def)
  have "extends (kheap w) (kheap w2) (tasks_blocks ts \<union> tlvs_blocks (tlvs m))"
    using extends_trans [OF ext e2] by (simp add: Un_commute)
  moreover have "tasks_blocks ts \<inter> tlvs_blocks (tlvs m) = {}"
    using extends_disjoint [OF wf ext e2] by auto
  ultimately have "extends (kheap w) h2 (tasks_blocks ts)"
    using free_tlvs_gained [OF wf _ own] fr by fastforce
  with ts w1 show ?thesis by (intro exI [of _ ts]) (simp add: replies_def queues_replies_def)
qed

lemma handle_message_effect:
  assumes run: "handle_message (b, p) w = Ok w'" and ext: "gains h0 (kheap w) {b, c}" and p: "rm_msg p = Blk c cells" "b \<noteq> c" "length cells < 2 ^ 31"
  shows "\<exists>ts. length ts \<le> 1 \<and> replies_from h0 w ts w' \<and>
    (\<forall>t \<in> set ts. qt_task t = rh_handler (snd (rm_reply p)) \<and>
    (\<exists>b m. qt_parameter t = Reply (b, \<lparr>rp_message = Some m, rp_param = rh_param (snd (rm_reply p))\<rparr>)))"
proof -
  have wfw: "wf_heap (kheap w)" using ext by (rule gains_wf)
  obtain s m h w1 h1 h2 where un: "unpack_mih_message cells (word_of_int (rm_len p)) stack_message (kheap w) = Ok (s, m, h)"
    and mid: "(if s < 0 then Ok (w\<lparr>kheap := h\<rparr>)
       else cbind (ProcessRequest m (rm_reply p) (w\<lparr>kheap := h\<rparr>)) (\<lambda>(_, w).
            cbind (free_tlvs (tlvs m) (kheap w)) (\<lambda>h. Ok (w\<lparr>kheap := h\<rparr>)))) = Ok w1"
    and fc: "kfree (Some c) (kheap w1) = Ok h1" and fb: "kfree (Some b) h1 = Ok h2"
    and w': "w' = w1\<lparr>kheap := h2\<rparr>"
    using run p(1) by (auto simp: handle_message_def w_kfree_def Let_def elim!: cbind_OkE)
  from process_received [OF un mid wfw p(3)] obtain ts where ts: "length ts \<le> 1" "replies w ts w1"
    "\<forall>t \<in> set ts. qt_task t = rh_handler (snd (rm_reply p)) \<and>
    (\<exists>b m. qt_parameter t = Reply (b, \<lparr>rp_message = Some m, rp_param = rh_param (snd (rm_reply p))\<rparr>))"
    by blast
  then have e: "extends (kheap w) (kheap w1) (tasks_blocks ts)" by (simp add: replies_def)
  obtain h1' h2' where "kfree (Some c) (kheap w1) = Ok h1'" "kfree (Some b) h1' = Ok h2'"
    "gains h0 h2' (tasks_blocks ts)"
    using gains_extends(1) [OF ext e] p(2) gains_extends(2) [OF ext e] by (rule kfree_two)
  with fc fb have "gains h0 h2 (tasks_blocks ts)" by simp
  with ts w' show ?thesis
    by (intro exI [of _ ts]) (simp add: replies_from_def replies_def queues_replies_def)
qed


text \<open>Whenever packing returns, it has given back what it allocated.\<close>

lemma pack_mihf_id_tlv_balanced:
  assumes "pack_mihf_id_tlv t m p n h = Ok (s, m', h')" and "wf_heap h"
  shows "balanced h h'"
proof -
  obtain b h1 where a: "kmalloc 4096 h = (Some b, h1)"
    using assms(1) by (cases "kmalloc 4096 h"; cases "fst (kmalloc 4096 h)")
      (auto simp: pack_mihf_id_tlv_def kmalloc_buf_def)
  with assms(1) have "kfree (Some b) h1 = Ok h'"
    by (auto simp: pack_mihf_id_tlv_def kmalloc_buf_def elim!: cbind_OkE)
  with kmalloc_kfree [OF assms(2) a] show ?thesis by auto
qed

lemma pack_mih_tlv_balanced:
  "pack_mih_tlv t m p n h = Ok (s, m', h') \<Longrightarrow> wf_heap h \<Longrightarrow> balanced h h'"
  by (auto simp: pack_mih_tlv_def Let_def split: if_splits elim!: cbind_OkE
      dest: pack_mihf_id_tlv_balanced)

lemma pack_tlvs_balanced:
  "pack_tlvs ts pos m n h = Ok (r, m', h') \<Longrightarrow> wf_heap h \<Longrightarrow> balanced h h'"
proof (induction ts arbitrary: pos m h)
  case Nil
  then show ?case by simp
next
  case (Cons t ts)
  obtain s m1 h1 where t: "pack_mih_tlv t m (nat pos) (n - word_of_int pos) h = Ok (s, m1, h1)"
    and rest: "(if s < 0 then Ok (Inl s, m1, h1) else pack_tlvs ts (int32 (pos + s)) m1 n h1) = Ok (r, m', h')"
    using Cons.prems(1) by (auto elim!: cbind_OkE)
  have b: "balanced h h1" using t Cons.prems(2) by (rule pack_mih_tlv_balanced)
  then have "wf_heap h1" using Cons.prems(2) by (auto intro: extends_wf)
  with rest Cons.IH have "balanced h1 h'" by (auto split: if_splits)
  with b show ?case using extends_trans by fastforce
qed

lemma pack_mih_message_balanced:
  assumes "pack_mih_message msg m n h = Ok (s, msg', m', h')" and "wf_heap h"
  shows "balanced h h' \<and> tlvs msg' = tlvs msg"
  using assms by (auto simp: pack_mih_message_def Let_def split: if_splits sum.splits
      elim!: cbind_OkE dest: pack_tlvs_balanced)

text \<open>Packing works in place: the buffer keeps its size.\<close>

named_theorems size_kept

lemma write_keeps_size [size_kept]:
  "mem_write m i v = Ok m' \<Longrightarrow> length m' = length m" "mem_or m i v = Ok m' \<Longrightarrow> length m' = length m"
  "memcpy m i s j n = Ok m' \<Longrightarrow> length m' = length m"
  by (auto simp: mem_write_def mem_or_def memcpy_def split: if_splits elim!: cbind_OkE)

lemma plf_emit_keeps_size [size_kept]: "plf_emit len i k s msk m p = Ok (j, m') \<Longrightarrow> length m' = length m"
proof (induction len i k s msk m p rule: plf_emit.induct)
  case (1 len i k s msk m p)
  then show ?case
    by (subst (asm) (2) plf_emit.simps) (auto split: if_splits elim!: cbind_OkE dest: size_kept)
qed

lemma pack_fields_keep_size [size_kept]:
  "pack_variable_length_field len m p n = Ok (s, m') \<Longrightarrow> length m' = length m"
  "pack_mih_header hdr m p = Ok m' \<Longrightarrow> length m' = length m"
proof -
  show "length m' = length m" if "pack_variable_length_field len m p n = Ok (s, m')"
    using that by (auto simp: pack_variable_length_field_def Let_def split: if_splits option.splits
        elim!: cbind_OkE dest!: size_kept)
  show "length m' = length m" if "pack_mih_header hdr m p = Ok m'"
    using that unfolding pack_mih_header_def by (elim cbind_OkE) (auto dest!: size_kept)
qed

lemma pack_tlv_keeps_size [size_kept]:
  "pack_mih_tlv t m p n h = Ok (s, m', h') \<Longrightarrow> length m' = length m"
  by (auto simp: pack_mih_tlv_def pack_mihf_id_tlv_def Let_def split: if_splits prod.splits
      elim!: cbind_OkE dest!: size_kept)

lemma pack_tlvs_keeps_size [size_kept]:
  "pack_tlvs ts pos m n h = Ok (r, m', h') \<Longrightarrow> length m' = length m"
  by (induction ts arbitrary: pos m h) (auto split: if_splits elim!: cbind_OkE dest: size_kept)

lemma pack_mih_message_size:
  "pack_mih_message msg m n h = Ok (s, msg', m', h') \<Longrightarrow> length m' = length m"
  by (auto simp: pack_mih_message_def Let_def split: if_splits sum.splits elim!: cbind_OkE dest!: size_kept)

lemma send_reply_effect:
  assumes run: "send_reply m addr buffer w = Ok (m', w')" and wf: "wf_heap (kheap w)" and so: "wf_socks w"
  shows "balanced (kheap w) (kheap w') \<and> tlvs m' = tlvs m \<and> open_socks w' = open_socks w \<and>
    mihf_queue w' = mihf_queue w \<and> dispatch_queue w' = dispatch_queue w \<and> wf_socks w' \<and>
    (\<exists>ds. length ds \<le> 1 \<and> sent w' = sent w @ ds \<and> (\<forall>d \<in> set ds. dg_to d = map_option snd addr \<and> length (dg_bytes d) \<le> BUFFER_SIZE))"
proof (cases "net_ret w (net_calls w) < 0")
  case True
  with run so show ?thesis
    by (auto simp: send_reply_def sock_create_def net_call_def Let_def wf_socks_def less_Suc_eq)
next
  case False
  define n where "n = net_calls w"
  let ?w = "w\<lparr>net_calls := Suc n, open_socks := insert n (open_socks w)\<rparr>"
  have fresh: "n \<notin> open_socks w" using so by (auto simp: wf_socks_def n_def)
  obtain s cells h w1 where pk: "pack_mih_message m (replicate 4096 None) 4096 (kheap w) = Ok (s, m', cells, h)"
    and sd: "(if s < 1 then Ok (?w\<lparr>kheap := h\<rparr>)
       else cbind (udp_send \<lparr>sock_id = n, sock_sk = net_sk w n\<rparr> (map_option snd addr) cells s (?w\<lparr>kheap := h\<rparr>))
              (\<lambda>(_, w). Ok w)) = Ok w1"
    and w': "w' = w1\<lparr>open_socks := open_socks w1 - {n}\<rparr>"
    using run False
    by (auto simp: send_reply_def sock_create_def net_call_def Let_def sock_release_def n_def
        split: option.splits if_splits elim!: cbind_OkE)
  have "kheap w1 = h \<and> open_socks w1 = insert n (open_socks w) \<and> mihf_queue w1 = mihf_queue w \<and>
      dispatch_queue w1 = dispatch_queue w \<and> n < net_calls w1 \<and>
      (\<exists>ds. length ds \<le> 1 \<and> sent w1 = sent w @ ds \<and> (\<forall>d \<in> set ds. dg_to d = map_option snd addr \<and> length (dg_bytes d) \<le> BUFFER_SIZE))"
    using sd pack_mih_message_size [OF pk] by (auto simp: udp_send_def net_call_def split: if_splits elim!: cbind_OkE)
  with pack_mih_message_balanced [OF pk wf] fresh so show ?thesis
    by (auto simp: w' wf_socks_def n_def)
qed

lemma handle_udp_reply_effect:
  assumes run: "handle_udp_reply (b, rp) w = Ok w'" and so: "wf_socks w"
    and ok: "param_ok (Reply (b, rp))" and ext: "gains h0 (kheap w) (param_blocks (Reply (b, rp)))"
  shows "gains h0 (kheap w') {} \<and> open_socks w' = open_socks w \<and> wf_socks w' \<and>
    mihf_queue w' = mihf_queue w \<and> dispatch_queue w' = dispatch_queue w \<and>
    (\<exists>ds. length ds \<le> 1 \<and> sent w' = sent w @ ds \<and> (\<forall>d \<in> set ds. dg_to d = map_option snd (rp_param rp) \<and>
      length (dg_bytes d) \<le> BUFFER_SIZE))"
proof -
  obtain mb m where m: "rp_message rp = Some (mb, m)" "b \<noteq> mb" "owned_tlvs (tlvs m)"
    "b \<notin> tlvs_blocks (tlvs m)" "mb \<notin> tlvs_blocks (tlvs m)" using ok by auto
  obtain buf h1 where a: "kmalloc 4096 (kheap w) = (buf, h1)" by fastforce
  define B where "B = set_option buf"
  have eB: "extends (kheap w) h1 B" using a by (cases buf) (auto simp: B_def dest: kmalloc_Some kmalloc_None)
  have wfw: "wf_heap (kheap w)" using ext by (rule gains_wf)
  obtain m' w2 h3 h4 h5 h6 where sr: "send_reply m (rp_param rp) buf (w\<lparr>kheap := h1\<rparr>) = Ok (m', w2)"
    and f3: "free_tlvs (tlvs m') (kheap w2) = Ok h3" and f4: "kfree (Some mb) h3 = Ok h4"
    and f5: "kfree (Some b) h4 = Ok h5" and f6: "kfree buf h5 = Ok h6" and w': "w' = w2\<lparr>kheap := h6\<rparr>"
    using run m(1) by (auto simp: handle_udp_reply_def w_kmalloc_def a w_kfree_def elim!: cbind_OkE)
  have "wf_heap (kheap (w\<lparr>kheap := h1\<rparr>))" "wf_socks (w\<lparr>kheap := h1\<rparr>)"
    using extends_wf [OF wfw eB] so by (simp_all add: wf_socks_def)
  note eff = send_reply_effect [OF sr this]
  have d: "({b, mb} \<union> tlvs_blocks (tlvs m)) \<inter> B = {}"
    using gains_extends(2) [OF ext eB] m(1) by auto
  have "extends h1 (kheap w2) {}" using eff by simp
  from gains_extends(1) [OF gains_extends(1) [OF ext eB] this]
  have "gains h0 (kheap w2) (param_blocks (Reply (b, rp)) \<union> B \<union> {})" .
  moreover have "param_blocks (Reply (b, rp)) \<union> B \<union> {} = ({b, mb} \<union> B) \<union> tlvs_blocks (tlvs m)"
    using m(1) by auto
  ultimately have "gains h0 (kheap w2) (({b, mb} \<union> B) \<union> tlvs_blocks (tlvs m))" by (simp only:)
  moreover have "({b, mb} \<union> B) \<inter> tlvs_blocks (tlvs m) = {}" using m d by auto
  ultimately have "gains h0 h3 ({b, mb} \<union> B)"
    using free_tlvs_gains [OF _ m(3)] f3 eff by fastforce
  moreover have "{b, mb} \<inter> B = {}" using d by auto
  ultimately obtain h4' h5' where "kfree (Some mb) h3 = Ok h4'" "kfree (Some b) h4' = Ok h5'" "gains h0 h5' B"
    using m(2) by (metis kfree_two)
  with f4 f5 have e5: "gains h0 h5 B" by simp
  have "gains h0 h6 {}"
  proof (cases buf)
    case None
    with e5 f6 show ?thesis by (simp add: B_def)
  next
    case (Some x)
    with kfree_gains [OF e5, of x] f6 show ?thesis by (auto simp: B_def)
  qed
  with eff w' show ?thesis by (auto simp: wf_socks_def)
qed

section \<open>Sockets\<close>

lemma init_socket:
  assumes "wf_socks w" and "sock_create None w = (s, sk, w1)"
  shows "s < 0 \<and> sk = None \<and> open_socks w1 = open_socks w \<or>
    0 \<le> s \<and> (\<exists>k. sk = Some k \<and> sock_id k \<notin> open_socks w \<and> open_socks w1 = insert (sock_id k) (open_socks w))"
  using assms by (auto simp: sock_create_def net_call_def Let_def wf_socks_def split: if_splits)

lemma udp_turn_socks:
  assumes "udp_turn sk got st w = Ok (st', w')"
  shows "open_socks w' = open_socks w"
proof -
  have q: "open_socks v' = open_socks v" if "queue_task r f p v = Ok (z, v')" for r f p v z v'
    using that by (auto simp: queue_task_def up_def elim!: cbind_OkE link_task_queue)
  show ?thesis
    using assms by (auto simp: udp_turn_def Let_def w_kmalloc_def elim!: cbind_OkE split: option.splits
        prod.splits if_splits dest!: w_alloc_Ok q)
qed

lemma udp_loop_socks: "udp_loop sk ts st w = Ok (e, w') \<Longrightarrow> open_socks w' = open_socks w"
  by (induction sk ts st w rule: udp_loop.induct)
    (force simp: w_kfree_def elim!: cbind_OkE split: option.splits dest: udp_turn_socks)+

section \<open>What the loops deliver\<close>

text \<open>One turn with memory available.\<close>

lemma udp_turn_delivers:
  assumes sk: "sock_sk sk" and free: "\<not> locked (mihf_queue w)" and al: "allocs_succeed (kheap w)"
    and wf: "wf_heap (kheap w)"
    and k: "kept st w" and got: "\<forall>e. got = Failure e \<longrightarrow> e < 0"
  shows "\<exists>st' w' ts. udp_turn sk got st w = Ok (st', w') \<and> kept st' w' \<and> \<not> locked (mihf_queue w') \<and>
    allocs_succeed (kheap w') \<and> wf_heap (kheap w') \<and> list_all2 task_for ts (delivered got) \<and>
    mihf_queue w' = (mihf_queue w)\<lparr>tasks := tasks (mihf_queue w) @ ts, sem := sem (mihf_queue w) + length ts\<rparr> \<and>
    dispatch_queue w' = dispatch_queue w"
proof -
  have "\<exists>a buf h. (case st of Some (rxaddr, buf) \<Rightarrow> Ok (rxaddr, buf, w)
       | None \<Rightarrow> (let (rxaddr, w) = w_kmalloc sizeof_sockaddr_in w in
           cbind (w_alloc BUFFER_SIZE w) (\<lambda>(buf, w). Ok (rxaddr, buf, w)))) = Ok (Some a, buf, w\<lparr>kheap := h\<rparr>) \<and>
      allocs_succeed h \<and> wf_heap h \<and> a \<noteq> buf \<and> {a, buf} \<subseteq> kh_live h"
  proof (cases st)
    case None
    obtain a h where a: "kmalloc 16 (kheap w) = (Some a, h)" "extends (kheap w) h {a}"
      using al by (rule kmalloc_succeedE [of _ 16]) simp
    have "allocs_succeed (kheap (w\<lparr>kheap := h\<rparr>))" using al a(2) by simp
    then obtain b h' where b: "w_alloc 4096 (w\<lparr>kheap := h\<rparr>) = Ok (b, (w\<lparr>kheap := h\<rparr>)\<lparr>kheap := h'\<rparr>)"
      "extends h h' {b}" using w_alloc_succeeds [of "w\<lparr>kheap := h\<rparr>" 4096] by auto
    have "wf_heap h'" "a \<noteq> b" using extends_wf [OF extends_wf [OF wf a(2)] b(2)]
      extends_disjoint [OF wf a(2) b(2)] by auto
    with None a b al show ?thesis
      by (intro exI [of _ a] exI [of _ b] exI [of _ h']) (auto simp: w_kmalloc_def extends_def allocs_succeed_def)
  next
    case (Some p)
    with k al wf show ?thesis by (cases p; cases "fst p") (auto intro!: exI [of _ "kheap w"])
  qed
  then obtain a buf h where p: "(case st of Some (rxaddr, buf) \<Rightarrow> Ok (rxaddr, buf, w)
       | None \<Rightarrow> (let (rxaddr, w) = w_kmalloc sizeof_sockaddr_in w in
           cbind (w_alloc BUFFER_SIZE w) (\<lambda>(buf, w). Ok (rxaddr, buf, w)))) = Ok (Some a, buf, w\<lparr>kheap := h\<rparr>)"
    and h: "allocs_succeed h" "wf_heap h" "a \<noteq> buf" "{a, buf} \<subseteq> kh_live h" by blast
  show ?thesis
  proof (cases got)
    case (Failure e)
    with got sk p h free show ?thesis by (simp add: udp_turn_def udp_recv_def del: replicate.simps)
  next
    case (Datagram bs src)
    let ?w = "w\<lparr>kheap := h\<rparr>" and ?bs = "take 4096 bs"
    have rc: "udp_recv sk got (replicate 4096 (Some 0)) (int 4096)
       = Ok (int (length ?bs), map Some ?bs @ replicate (4096 - length ?bs) (Some 0), Some src)"
      using sk Datagram by (simp add: udp_recv_def blit_def Let_def del: replicate.simps)
    obtain rb h1 where rb: "w_alloc 16 ?w = Ok (rb, ?w\<lparr>kheap := h1\<rparr>)" "extends h h1 {rb}"
      using w_alloc_succeeds [of ?w 16] h(1) by auto
    obtain pb h2 where pb: "w_alloc 32 (?w\<lparr>kheap := h1\<rparr>) = Ok (pb, ?w\<lparr>kheap := h2\<rparr>)" "extends h1 h2 {pb}"
      using w_alloc_succeeds [of "?w\<lparr>kheap := h1\<rparr>" 32] h(1) rb(2) by auto
    have a2: "allocs_succeed h2" "wf_heap h2"
      using h(1,2) rb(2) pb(2) by (auto intro: extends_wf)
    define q where "q = Received (pb, \<lparr>rm_len = int (length ?bs),
        rm_msg = Blk buf (map Some ?bs @ replicate (4096 - length ?bs) (Some 0)),
        rm_reply = (rb, \<lparr>rh_handler = Addr_handle_udp_reply, rh_param = Some (a, src)\<rparr>)\<rparr>)"
    have "\<not> locked (queue_of MIHF (?w\<lparr>kheap := h2\<rparr>))" "allocs_succeed (kheap (?w\<lparr>kheap := h2\<rparr>))"
      using free a2 by simp_all
    from queue_task_appended [OF this, of Addr_handle_message q]
    obtain b w' where q: "queue_task MIHF Addr_handle_message q (?w\<lparr>kheap := h2\<rparr>) = Ok (0, w')"
      "queue_of MIHF w' = (mihf_queue w)\<lparr>tasks := tasks (mihf_queue w) @ [\<lparr>qt_blk = b, qt_task = Addr_handle_message,
        qt_parameter = q\<rparr>], sem := Suc (sem (mihf_queue w))\<rparr>"
      "queue_of DISPATCH w' = dispatch_queue w" "extends h2 (kheap w') {b}" by auto
    have "udp_turn sk got st w = Ok (None, w')"
      using p rc rb(1) pb(1) q(1) by (simp add: udp_turn_def Let_def q_def del: replicate.simps)
    moreover have "list_all2 task_for [\<lparr>qt_blk = b, qt_task = Addr_handle_message, qt_parameter = q\<rparr>] (delivered got)"
      by (simp add: Datagram task_for_def q_def)
    moreover have "wf_heap (kheap w')" "allocs_succeed (kheap w')"
      using a2 q(4) by (auto intro: extends_wf)
    ultimately show ?thesis using q(2,3) free
      by (intro exI [of _ None] exI [of _ w'] exI [of _ "[\<lparr>qt_blk = b, qt_task = Addr_handle_message, qt_parameter = q\<rparr>]"]) simp
  qed
qed

lemma udp_loop_delivers:
  "sock_sk sk \<Longrightarrow> \<not> locked (mihf_queue w) \<Longrightarrow> allocs_succeed (kheap w) \<Longrightarrow> wf_heap (kheap w) \<Longrightarrow>
   kept st w \<Longrightarrow> \<forall>e. Failure e \<in> set gots \<longrightarrow> e < 0 \<Longrightarrow>
   \<exists>w' ts. udp_loop sk (map Go gots @ [Stop]) st w = Ok (Left, w') \<and>
     list_all2 task_for ts (concat (map delivered gots)) \<and>
     mihf_queue w' = (mihf_queue w)\<lparr>tasks := tasks (mihf_queue w) @ ts, sem := sem (mihf_queue w) + length ts\<rparr> \<and>
     dispatch_queue w' = dispatch_queue w"
proof (induction gots arbitrary: st w)
  case Nil
  then show ?case
    by (cases "(st, w)" rule: kept.cases) (auto simp: kfree_def w_kfree_def)
next
  case (Cons got gots)
  from Cons.prems(6) have "\<forall>e. got = Failure e \<longrightarrow> e < 0" by auto
  from udp_turn_delivers [OF Cons.prems(1-5) this] obtain st1 w1 us where
    t: "udp_turn sk got st w = Ok (st1, w1)" "kept st1 w1" "\<not> locked (mihf_queue w1)" "allocs_succeed (kheap w1)"
    "wf_heap (kheap w1)" "list_all2 task_for us (delivered got)"
    "mihf_queue w1 = (mihf_queue w)\<lparr>tasks := tasks (mihf_queue w) @ us, sem := sem (mihf_queue w) + length us\<rparr>"
    "dispatch_queue w1 = dispatch_queue w" by blast
  from Cons.IH [OF Cons.prems(1) t(3,4,5,2)] Cons.prems(6) obtain w' ts where
    r: "udp_loop sk (map Go gots @ [Stop]) st1 w1 = Ok (Left, w')"
    "list_all2 task_for ts (concat (map delivered gots))"
    "mihf_queue w' = (mihf_queue w1)\<lparr>tasks := tasks (mihf_queue w1) @ ts, sem := sem (mihf_queue w1) + length ts\<rparr>"
    "dispatch_queue w' = dispatch_queue w1" by auto
  show ?case
    using t r by (intro exI [of _ w'] exI [of _ "us @ ts"]) (simp add: list_all2_appendI)
qed

lemma queue_task_frame:
  "queue_task r f p w = Ok (z, w') \<Longrightarrow> net_calls w' = net_calls w \<and> net_ret w' = net_ret w \<and> net_sk w' = net_sk w"
  by (cases r) (auto simp: queue_task_def link_task_def spin_lock_def spin_unlock_def list_add_tail_def up_def
      elim!: cbind_OkE split: if_splits dest!: w_alloc_Ok)

text \<open>One accepted connection: the socket it is accepted into is queued.\<close>

lemma tcp_accept:
  assumes sk: "sock_create old w = (s, Some sk, w1)" "s \<noteq> - 1" and ac: "0 \<le> net_ret w (Suc (net_calls w))"
    and free: "\<not> locked (mihf_queue w)" and al: "allocs_succeed (kheap w)"
  obtains b w' where "tcp_loop (True # ts) old w = tcp_loop ts (Some sk) w'"
    and "tasks (mihf_queue w') = tasks (mihf_queue w) @ [\<lparr>qt_blk = b, qt_task = Addr_handle_connection,
      qt_parameter = Connection (Some sk)\<rparr>]"
    and "\<not> locked (mihf_queue w')" and "allocs_succeed (kheap w')"
    and "net_calls w' = Suc (Suc (net_calls w))" and "net_ret w' = net_ret w"
proof -
  have w1: "net_calls w1 = Suc (net_calls w)" "net_ret w1 = net_ret w" "mihf_queue w1 = mihf_queue w"
    "kheap w1 = kheap w"
    using sk(1) by (auto simp: sock_create_def net_call_def Let_def split: if_splits)
  let ?w = "w1\<lparr>net_calls := Suc (net_calls w1)\<rparr>"
  have "\<not> locked (queue_of MIHF ?w)" "allocs_succeed (kheap ?w)" using free al w1 by simp_all
  from queue_task_appended [OF this, of Addr_handle_connection "Connection (Some sk)"]
  obtain b w' where q: "queue_task MIHF Addr_handle_connection (Connection (Some sk)) ?w = Ok (0, w')"
    "queue_of MIHF w' = (queue_of MIHF ?w)\<lparr>tasks := tasks (queue_of MIHF ?w) @ [\<lparr>qt_blk = b,
      qt_task = Addr_handle_connection, qt_parameter = Connection (Some sk)\<rparr>], sem := Suc (sem (queue_of MIHF ?w))\<rparr>"
    "extends (kheap ?w) (kheap w') {b}" by blast
  have "tcp_loop (True # ts) old w = tcp_loop ts (Some sk) w'"
    using sk ac w1 q(1) by (simp add: net_call_def)
  then show ?thesis
    by (rule that [of w' b]) (use q queue_task_frame [OF q(1)] w1 free al in simp_all)
qed

section \<open>Properties\<close>

text \<open>
  Whatever bytes were received, when \<open>handle_message\<close> returns it has released
  its parameter and the receive buffer and queued at most one reply, for the function and
  the address of the reply handler; what it allocated beyond that belongs to the queued
  reply, and no other block is touched. In particular the reply handler itself is not
  released.
\<close>

theorem handle_message_releases:
  assumes "handle_message (b, p) w = Ok w'" and "wf_heap (kheap w)" and "{b, c} \<subseteq> kh_live (kheap w)"
    and "rm_msg p = Blk c cells" and "b \<noteq> c" and "length cells < 2 ^ 31"
  shows "\<exists>ts. length ts \<le> 1 \<and> queues_replies w ts w' \<and>
    (\<forall>t \<in> set ts. qt_task t = rh_handler (snd (rm_reply p)) \<and>
       (\<exists>b m. qt_parameter t = Reply (b, \<lparr>rp_message = Some m, rp_param = rh_param (snd (rm_reply p))\<rparr>))) \<and>
    kh_live (kheap w') = (kh_live (kheap w) - {b, c}) \<union> tasks_blocks ts"
proof -
  have "gains ((kheap w)\<lparr>kh_live := kh_live (kheap w) - {b, c}\<rparr>) (kheap w) {b, c}"
    using assms(2,3) by (auto simp: gains_def)
  from handle_message_effect [OF assms(1) this assms(4-6)] show ?thesis
    by (fastforce simp: replies_from_def gains_def)
qed

text \<open>
  When \<open>handle_udp_reply\<close> returns it has released its parameter, the message
  and every element of it and its own buffer, and closed the socket it opened, whatever
  the kernel answered; at most one datagram went out, to the address of the parameter.
\<close>

theorem udp_reply_releases:
  assumes "handle_udp_reply (b, rp) w = Ok w'" and "wf_socks w" and "wf_heap (kheap w)"
    and "param_ok (Reply (b, rp))" and "param_blocks (Reply (b, rp)) \<subseteq> kh_live (kheap w)"
  shows "kh_live (kheap w') = kh_live (kheap w) - param_blocks (Reply (b, rp)) \<and>
    open_socks w' = open_socks w \<and> mihf_queue w' = mihf_queue w \<and> dispatch_queue w' = dispatch_queue w \<and>
    (\<exists>ds. length ds \<le> 1 \<and> sent w' = sent w @ ds \<and> (\<forall>d \<in> set ds. dg_to d = map_option snd (rp_param rp)))"
proof -
  let ?B = "param_blocks (Reply (b, rp))"
  have "gains ((kheap w)\<lparr>kh_live := kh_live (kheap w) - ?B\<rparr>) (kheap w) ?B"
    using assms(3,5) by (auto simp: gains_def)
  from handle_udp_reply_effect [OF assms(1,2,4) this] show ?thesis by (auto simp: gains_def)
qed

text \<open>
  Setting up the sockets never faults, whatever the kernel answers: on
  success exactly the new socket is open, on failure (result -1) none more than before.
\<close>

theorem sock_init_closes_on_error:
  assumes "wf_socks w" and "init \<in> {UdpSockInit, TcpSockInit}"
  shows "\<exists>s sk w'. init w = Ok (s, sk, w') \<and>
    (s = 0 \<and> (\<exists>k. sk = Some k \<and> sock_id k \<notin> open_socks w \<and> open_socks w' = insert (sock_id k) (open_socks w)) \<or>
     s = - 1 \<and> open_socks w' = open_socks w)"
proof -
  obtain s sk w1 where c: "sock_create None w = (s, sk, w1)" by (cases "sock_create None w")
  from init_socket [OF assms(1) c] assms(2) show ?thesis
    by (auto simp: UdpSockInit_def TcpSockInit_def c net_call_def sock_release_def)
qed

text \<open>
  When the UDP thread ends, for whatever reason and after whatever arrived,
  its socket is closed and no other socket was opened or closed.
\<close>

theorem udp_handler_closes:
  assumes "UdpHandler ts w = Ok (Some r, w')" and "wf_socks w"
  shows "open_socks w' = open_socks w"
proof -
  obtain s sk w1 where c: "sock_create None w = (s, sk, w1)" by (cases "sock_create None w")
  from init_socket [OF assms(2) c] assms(1) show ?thesis
    by (auto simp: UdpHandler_def UdpSockInit_def c net_call_def sock_release_def elim!: cbind_OkE
        split: if_splits loop_end.splits dest!: udp_loop_socks)
qed

text \<open>
  Property C24: every datagram that arrives is queued for \<open>handle_message\<close>, once and in
  the order of arrival, with its bytes (cut to the 4096 of the buffer, the rest of the
  buffer cleared) and its sender as the address of the reply; failed receives queue
  nothing. The loop ends when it is told to, and gives the semaphore one unit for each
  task.
\<close>

theorem udp_datagrams_queued:
  assumes "sock_sk sk" and "\<not> locked (mihf_queue w)" and "allocs_succeed (kheap w)" and "wf_heap (kheap w)"
    and "\<forall>e. Failure e \<in> set gots \<longrightarrow> e < 0"
  shows "\<exists>w' ts. udp_loop sk (map Go gots @ [Stop]) None w = Ok (Left, w') \<and>
     list_all2 task_for ts (concat (map delivered gots)) \<and>
     mihf_queue w' = (mihf_queue w)\<lparr>tasks := tasks (mihf_queue w) @ ts, sem := sem (mihf_queue w) + length ts\<rparr> \<and>
     dispatch_queue w' = dispatch_queue w"
  using assms by (intro udp_loop_delivers) simp_all

theorem udp_datagrams_queued_witness:
  "\<exists>w' t u. udp_loop \<lparr>sock_id = 0, sock_sk = True\<rparr> [Go (Datagram [1, 2] inbound_addr), Go (Failure (- 4)),
       Go (Datagram [] inbound_addr), Stop] None world0 = Ok (Left, w') \<and>
     tasks (mihf_queue w') = [t, u] \<and> task_for t ([1, 2], inbound_addr) \<and> task_for u ([], inbound_addr)"
proof -
  let ?gots = "[Datagram [1, 2] inbound_addr, Failure (- 4), Datagram [] inbound_addr]"
  have "\<exists>w' ts. udp_loop \<lparr>sock_id = 0, sock_sk = True\<rparr> (map Go ?gots @ [Stop]) None world0 = Ok (Left, w') \<and>
     list_all2 task_for ts (concat (map delivered ?gots)) \<and>
     mihf_queue w' = (mihf_queue world0)\<lparr>tasks := tasks (mihf_queue world0) @ ts,
       sem := sem (mihf_queue world0) + length ts\<rparr> \<and> dispatch_queue w' = dispatch_queue world0"
    by (rule udp_datagrams_queued) (simp_all add: world0_def)
  then show ?thesis by (auto simp: list_all2_Cons2 world0_def simp del: udp_loop.simps)
qed

text \<open>
  The accept loop of the TCP thread takes only the result -1 of
  \<open>sock_create\<close> for a failure. When a second call fails with any other error, the
  connection is accepted into the socket of the first one, which is queued again: two
  tasks own one socket, and the second to run releases a socket that is closed already.
\<close>

theorem tcp_error_queues_socket_twice:
  assumes "net_ret w n = 0" and "0 \<le> net_ret w (n + 1)" and "net_ret w (n + 2) < - 1" and "0 \<le> net_ret w (n + 3)"
    and "n = net_calls w" and "\<not> locked (mihf_queue w)" and "allocs_succeed (kheap w)"
  shows "\<exists>w' sk t u. tcp_loop [True, True, False] None w = Ok (Left, w') \<and>
     tasks (mihf_queue w') = tasks (mihf_queue w) @ [t, u] \<and>
     as_call t = (Addr_handle_connection, Connection (Some sk)) \<and> as_call u = as_call t \<and>
     (\<forall>v v'. handle_connection (Some sk) v = Ok v' \<longrightarrow> handle_connection (Some sk) v' = Fault BadFree)"
proof -
  define sk where "sk = \<lparr>sock_id = n, sock_sk = net_sk w n\<rparr>"
  obtain w0 where c: "sock_create None w = (0, Some sk, w0)"
    using assms(1,5) by (simp add: sock_create_def net_call_def Let_def sk_def)
  have "(0 :: int) \<noteq> - 1" "0 \<le> net_ret w (Suc (net_calls w))" using assms(2,5) by simp_all
  with c obtain b w1 where 1: "tcp_loop [True, True, False] None w = tcp_loop [True, False] (Some sk) w1"
    "tasks (mihf_queue w1) = tasks (mihf_queue w) @ [\<lparr>qt_blk = b, qt_task = Addr_handle_connection,
      qt_parameter = Connection (Some sk)\<rparr>]"
    "\<not> locked (mihf_queue w1)" "allocs_succeed (kheap w1)"
    "net_calls w1 = Suc (Suc (net_calls w))" "net_ret w1 = net_ret w"
    using assms(6,7) by (rule tcp_accept)
  let ?e = "net_ret w (n + 2)"
  have "\<exists>v. sock_create (Some sk) w1 = (?e, Some sk, v)"
    using assms(3) 1(5,6) by (simp add: sock_create_def net_call_def Let_def assms(5))
  then obtain v where c2: "sock_create (Some sk) w1 = (?e, Some sk, v)" by blast
  have "?e \<noteq> - 1" "0 \<le> net_ret w1 (Suc (net_calls w1))"
    using assms(3,4,5) 1(5,6) by (simp_all add: numeral_3_eq_3)
  with c2 obtain b2 w2 where 2: "tcp_loop [True, False] (Some sk) w1 = tcp_loop [False] (Some sk) w2"
    "tasks (mihf_queue w2) = tasks (mihf_queue w1) @ [\<lparr>qt_blk = b2, qt_task = Addr_handle_connection,
      qt_parameter = Connection (Some sk)\<rparr>]"
    using 1(3,4) by (rule tcp_accept)
  have "\<forall>v v'. handle_connection (Some sk) v = Ok v' \<longrightarrow> handle_connection (Some sk) v' = Fault BadFree"
    by (auto simp: handle_connection_def sock_release_def split: if_splits)
  with 1 2 show ?thesis
    by (intro exI [of _ w2] exI [of _ sk] exI [of _ "\<lparr>qt_blk = b, qt_task = Addr_handle_connection,
      qt_parameter = Connection (Some sk)\<rparr>"] exI [of _ "\<lparr>qt_blk = b2, qt_task = Addr_handle_connection,
      qt_parameter = Connection (Some sk)\<rparr>"]) (simp add: as_call_def)
qed

end
