(* ===== verification/Dev_Mon.thy ===== *)
theory Dev_Mon
  imports Net_Hand
begin

text \<open>
  The device monitor (\<open>dev_mon.c\<close>), which turns the kernel's notifications about network
  devices into link indications on the MIHF queue, and the link service access point
  (\<open>mih_link_sap.c\<close>), whose indication functions those tasks run.
\<close>

section \<open>Link service access point\<close>

text \<open>The three indications that are queued as tasks release their parameter.\<close>

definition Link_Up_indication :: "link_parameter ptr \<Rightarrow> world \<Rightarrow> world cres" where
  "Link_Up_indication p w =
     cbind (w_kfree (lp_link_addr (snd p)) w) (\<lambda>w. w_kfree (fst p) w)"

definition Link_Down_indication :: "link_parameter ptr \<Rightarrow> world \<Rightarrow> world cres" where
  "Link_Down_indication p w =
     cbind (w_kfree (lp_link_addr (snd p)) w) (\<lambda>w. w_kfree (fst p) w)"

definition Link_Going_Down_indication :: "link_parameter ptr \<Rightarrow> world \<Rightarrow> world cres" where
  "Link_Going_Down_indication p w =
     cbind (w_kfree (lp_link_addr (snd p)) w) (\<lambda>w. w_kfree (fst p) w)"

text \<open>
  The other indications and the commands of the link service access point have no body
  beyond a line of output and their result: whatever the bytes of their arguments, they answer 0.
\<close>

definition Link_Detected_indication :: "mem \<Rightarrow> int" where
  "Link_Detected_indication LinkDetectedInfo = 0"

definition Link_Parameters_Report_indication :: "mem \<Rightarrow> mem \<Rightarrow> int" where
  "Link_Parameters_Report_indication LinkIdentifier LinkParametersReportList = 0"

definition Link_Handover_Imminent_indication :: "mem \<Rightarrow> mem \<Rightarrow> mem \<Rightarrow> mem \<Rightarrow> int" where
  "Link_Handover_Imminent_indication OldLinkIdentifier NewLinkIdentifier OldAccessRouter NewAccessRouter = 0"

definition Link_Handover_Complete_indication :: "mem \<Rightarrow> mem \<Rightarrow> mem \<Rightarrow> mem \<Rightarrow> mem \<Rightarrow> int" where
  "Link_Handover_Complete_indication OldLinkIdentifier NewLinkIdentifier
     OldAccessRouter NewAccessRouter iLinkHandoverStatus = 0"

definition Link_PDU_Transmit_Status_indication :: "mem \<Rightarrow> mem \<Rightarrow> mem \<Rightarrow> int" where
  "Link_PDU_Transmit_Status_indication LinkIdentifier PacketIdentifier TransmissionStatus = 0"

definition Link_Capability_Discover_request :: int where
  "Link_Capability_Discover_request = 0"

definition Link_Capability_Discover_confirm :: "mem \<Rightarrow> mem \<Rightarrow> mem \<Rightarrow> int" where
  "Link_Capability_Discover_confirm Status SupportedLinkEventList SupportedLinkCommandList = 0"

definition Link_Event_Subscribe_request :: "mem \<Rightarrow> int" where
  "Link_Event_Subscribe_request RequestedLinkEventList = 0"

definition Link_Event_Subscribe_confirm :: "mem \<Rightarrow> mem \<Rightarrow> int" where
  "Link_Event_Subscribe_confirm Status ResponseLinkEventList = 0"

definition Link_Event_Unsubscribe_request :: "mem \<Rightarrow> int" where
  "Link_Event_Unsubscribe_request RequestedLinkEventList = 0"

definition Link_Event_Unsubscribe_confirm :: "mem \<Rightarrow> mem \<Rightarrow> int" where
  "Link_Event_Unsubscribe_confirm Status ResponseLinkEventList = 0"

definition Link_Get_Parameters_request :: "mem \<Rightarrow> mem \<Rightarrow> mem \<Rightarrow> int" where
  "Link_Get_Parameters_request LinkParametersRequest LinkStatesRequest LinkDescriptorsRequest = 0"

definition Link_Get_Parameters_confirm :: "mem \<Rightarrow> mem \<Rightarrow> mem \<Rightarrow> mem \<Rightarrow> int" where
  "Link_Get_Parameters_confirm Status LinkParametersStatusList LinkStatesResponse LinkDescriptorsResponse = 0"

definition Link_Configure_Thresholds_request :: "mem \<Rightarrow> int" where
  "Link_Configure_Thresholds_request LinkConfigureParameterList = 0"

definition Link_Configure_Thresholds_confirm :: "mem \<Rightarrow> mem \<Rightarrow> int" where
  "Link_Configure_Thresholds_confirm Status LinkConfigureStatusList = 0"

definition Link_Action_request :: "mem \<Rightarrow> mem \<Rightarrow> mem \<Rightarrow> int" where
  "Link_Action_request LinkAction ExecutionDelay PoALinkAddres = 0"

definition Link_Action_confirm :: "mem \<Rightarrow> mem \<Rightarrow> mem \<Rightarrow> int" where
  "Link_Action_confirm Status ScanResponseSet LinkActionResult = 0"

section \<open>Devices\<close>

text \<open>
  What the monitor reads of a wireless device and of a network device. The statistics
  function is absent (\<open>None\<close>) or answers, possibly with a null pointer (\<open>Some False\<close>).
\<close>

record wireless_dev =
  sme_connected :: bool
  wd_ssid :: mem
  wd_ssid_len :: u8

record net_device =
  dev_id :: nat
  dev_type :: nat
  ieee80211_ptr :: "wireless_dev option"
  wireless_stats :: "bool option"
  carrier_ok :: bool

abbreviation (input) ARPHRD_ETHER :: nat where "ARPHRD_ETHER \<equiv> 1"
abbreviation (input) ARPHRD_IEEE80211 :: nat where "ARPHRD_IEEE80211 \<equiv> 801"
abbreviation (input) IEEE80211_MAX_SSID_LEN :: nat where "IEEE80211_MAX_SSID_LEN \<equiv> 32"
abbreviation (input) sizeof_transport_addr_t :: nat where "sizeof_transport_addr_t \<equiv> 16"
abbreviation (input) sizeof_Link_Up_parameter :: nat where "sizeof_Link_Up_parameter \<equiv> 72"
abbreviation (input) sizeof_Link_Down_parameter :: nat where "sizeof_Link_Down_parameter \<equiv> 56"
abbreviation (input) sizeof_Link_Going_Down_parameter :: nat where
  "sizeof_Link_Going_Down_parameter \<equiv> 40"

datatype netdev_event = NETDEV_REGISTER | NETDEV_GOING_DOWN | NETDEV_DOWN | NETDEV_UP
  | NETDEV_PRE_UP | NETDEV_CHANGE | NETDEV_CHANGEADDR | NETDEV_OTHER

definition DevLinkUp :: "net_device \<Rightarrow> world \<Rightarrow> world cres" where
  "DevLinkUp dev w =
     cbind (w_alloc sizeof_transport_addr_t w) (\<lambda>(mac_addr, w).
     cbind (w_alloc sizeof_Link_Up_parameter w) (\<lambda>(p, w).
     let link_type =
       (if dev_type dev = ARPHRD_ETHER
        then Some (if ieee80211_ptr dev = None then ETHERNET else WIRELESS_IEEE_802_11)
        else if dev_type dev = ARPHRD_IEEE80211 then Some WIRELESS_IEEE_802_11
        else None) in
     cbind (queue_task MIHF Addr_Link_Up_indication
         (Link (p, \<lparr>lp_type = link_type, lp_dev_addr = dev_id dev, lp_link_addr = mac_addr,
                    lp_reason = 0\<rparr>)) w)
       (\<lambda>(_, w). Ok w)))"

definition DevLinkDown :: "net_device \<Rightarrow> world \<Rightarrow> world cres" where
  "DevLinkDown dev w =
     cbind (w_alloc sizeof_transport_addr_t w) (\<lambda>(mac_addr, w).
     cbind (w_alloc sizeof_Link_Down_parameter w) (\<lambda>(p, w).
     cbind (queue_task MIHF Addr_Link_Down_indication
         (Link (p, \<lparr>lp_type = Some ETHERNET, lp_dev_addr = dev_id dev, lp_link_addr = mac_addr,
                    lp_reason = 0\<rparr>)) w)
       (\<lambda>(_, w). Ok w)))"

definition DevLinkGoingDown :: "net_device \<Rightarrow> world \<Rightarrow> world cres" where
  "DevLinkGoingDown dev w =
     cbind (w_alloc sizeof_transport_addr_t w) (\<lambda>(mac_addr, w).
     cbind (w_alloc sizeof_Link_Going_Down_parameter w) (\<lambda>(p, w).
     cbind (queue_task MIHF Addr_Link_Going_Down_indication
         (Link (p, \<lparr>lp_type = Some ETHERNET, lp_dev_addr = dev_id dev, lp_link_addr = mac_addr,
                    lp_reason = 0\<rparr>)) w)
       (\<lambda>(_, w). Ok w)))"

text \<open>
  The notifier first reports on a wireless device: the network name is copied into a
  buffer on the stack, and the signal statistics are read.
\<close>

definition report_wireless :: "net_device \<Rightarrow> wireless_dev \<Rightarrow> unit cres" where
  "report_wireless dev wdev =
     cbind (if sme_connected wdev
            then cbind (memcpy (replicate (IEEE80211_MAX_SSID_LEN + 1) None) 0 (wd_ssid wdev) 0
                          (unat (wd_ssid_len wdev))) (\<lambda>ssid.
                 cbind (mem_write ssid (unat (wd_ssid_len wdev)) 0) (\<lambda>ssid.
                 cbind (cstring ssid) (\<lambda>_. Ok ())))
            else Ok ()) (\<lambda>_.
     case wireless_stats dev of
       None \<Rightarrow> Ok ()
     | Some answered \<Rightarrow> if answered then Ok () else Fault NullDeref)"

text \<open>The result is always \<open>NOTIFY_DONE\<close>.\<close>

definition NetDevNotifier :: "netdev_event \<Rightarrow> net_device \<Rightarrow> world \<Rightarrow> (int \<times> world) cres" where
  "NetDevNotifier event dev w =
     cbind (case ieee80211_ptr dev of None \<Rightarrow> Ok () | Some wdev \<Rightarrow> report_wireless dev wdev) (\<lambda>_.
     if dev_type dev \<noteq> ARPHRD_ETHER then Ok (0, w)
     else
       cbind (case event of
                NETDEV_REGISTER \<Rightarrow> Ok w
              | NETDEV_GOING_DOWN \<Rightarrow> DevLinkGoingDown dev w
              | NETDEV_DOWN \<Rightarrow> DevLinkDown dev w
              | NETDEV_UP \<Rightarrow> DevLinkUp dev w
              | NETDEV_PRE_UP \<Rightarrow> Ok w
              | NETDEV_CHANGE \<Rightarrow> if carrier_ok dev then DevLinkUp dev w else DevLinkDown dev w
              | NETDEV_CHANGEADDR \<Rightarrow> Ok w
              | NETDEV_OTHER \<Rightarrow> Ok w) (\<lambda>w. Ok (0, w)))"

text \<open>
  The address notifier only prints, but follows its argument before it tests it for null.
\<close>

definition InAddrNotifier :: "netdev_event \<Rightarrow> net_device option \<Rightarrow> world \<Rightarrow> (int \<times> world) cres" where
  "InAddrNotifier event ifa w = (case ifa of None \<Rightarrow> Fault NullDeref | Some dev \<Rightarrow> Ok (0, w))"

section \<open>The function pointers\<close>

text \<open>
  The call through a task's function pointer. A function that is given a parameter of
  another type would read it as something it is not.
\<close>

fun call_handler :: "handler \<Rightarrow> parameter \<Rightarrow> world \<Rightarrow> world cres" where
  "call_handler poison_task p w = Ok w"
| "call_handler Addr_handle_message (Received p) w = handle_message p w"
| "call_handler Addr_handle_connection (Connection p) w = handle_connection p w"
| "call_handler Addr_handle_udp_reply (Reply p) w = handle_udp_reply p w"
| "call_handler Addr_Link_Up_indication (Link p) w = Link_Up_indication p w"
| "call_handler Addr_Link_Down_indication (Link p) w = Link_Down_indication p w"
| "call_handler Addr_Link_Going_Down_indication (Link p) w = Link_Going_Down_indication p w"
| "call_handler f p w = Fault Uninit"

text \<open>Function and parameter of a task belong together.\<close>

fun typed_call :: "handler \<Rightarrow> parameter \<Rightarrow> bool" where
  "typed_call poison_task NULL \<longleftrightarrow> True"
| "typed_call Addr_handle_message (Received p) \<longleftrightarrow> True"
| "typed_call Addr_handle_connection (Connection p) \<longleftrightarrow> True"
| "typed_call Addr_handle_udp_reply (Reply p) \<longleftrightarrow> True"
| "typed_call Addr_Link_Up_indication (Link p) \<longleftrightarrow> True"
| "typed_call Addr_Link_Down_indication (Link p) \<longleftrightarrow> True"
| "typed_call Addr_Link_Going_Down_indication (Link p) \<longleftrightarrow> True"
| "typed_call f p \<longleftrightarrow> False"

text \<open>Which functions are put on which queue.\<close>

definition mihf_admits :: "handler \<Rightarrow> bool" where
  "mihf_admits f \<longleftrightarrow> f \<in> {Addr_handle_message, Addr_handle_connection, Addr_Link_Up_indication,
     Addr_Link_Down_indication, Addr_Link_Going_Down_indication}"

definition dispatch_admits :: "handler \<Rightarrow> bool" where
  "dispatch_admits f \<longleftrightarrow> f = Addr_handle_udp_reply"

fun queue_admits :: "queue_ref \<Rightarrow> handler \<Rightarrow> bool" where
  "queue_admits MIHF f = mihf_admits f"
| "queue_admits DISPATCH f = dispatch_admits f"

text \<open>What the kernel keeps of a wireless device: a name of at most 32 bytes that is there.\<close>

definition wireless_ok :: "net_device \<Rightarrow> bool" where
  "wireless_ok dev \<longleftrightarrow> (case ieee80211_ptr dev of
     None \<Rightarrow> True
   | Some wdev \<Rightarrow> (sme_connected wdev \<longrightarrow> unat (wd_ssid_len wdev) \<le> 32 \<and>
       (\<exists>bs. length bs = unat (wd_ssid_len wdev) \<and> holds (wd_ssid wdev) 0 bs)) \<and>
       wireless_stats dev \<noteq> Some False)"

text \<open>The indication an event of an Ethernet device calls for.\<close>

definition indication_of :: "netdev_event \<Rightarrow> net_device \<Rightarrow> handler option" where
  "indication_of event dev =
     (if event = NETDEV_UP \<or> event = NETDEV_CHANGE \<and> carrier_ok dev then Some Addr_Link_Up_indication
      else if event = NETDEV_DOWN \<or> event = NETDEV_CHANGE then Some Addr_Link_Down_indication
      else if event = NETDEV_GOING_DOWN then Some Addr_Link_Going_Down_indication
      else None)"

text \<open>The task for an indication about a device was queued and owns all that was allocated.\<close>

definition queues_link :: "world \<Rightarrow> handler \<Rightarrow> net_device \<Rightarrow> world \<Rightarrow> bool" where
  "queues_link w f dev w' \<longleftrightarrow> (\<exists>t b lp.
     mihf_queue w' = (mihf_queue w)\<lparr>tasks := tasks (mihf_queue w) @ [t], sem := Suc (sem (mihf_queue w))\<rparr> \<and>
     dispatch_queue w' = dispatch_queue w \<and> qt_task t = f \<and> qt_parameter t = Link (b, lp) \<and>
     lp_dev_addr lp = dev_id dev \<and> task_ok t \<and> extends (kheap w) (kheap w') (task_blocks t))"

text \<open>An Ethernet device without carrier, for examples.\<close>

definition sample_device :: net_device where
  "sample_device = \<lparr>dev_id = 7, dev_type = ARPHRD_ETHER, ieee80211_ptr = None, wireless_stats = None,
     carrier_ok = False\<rparr>"

text \<open>
  Only the ledger, and the tasks and the semaphore of the dispatch queue, may differ: the
  MIHF queue, the locks, the sockets and what was sent are the same.
\<close>

definition dispatch_only :: "world \<Rightarrow> world \<Rightarrow> bool" where
  "dispatch_only w w' \<longleftrightarrow> mihf_queue w' = mihf_queue w \<and> locked (dispatch_queue w') = locked (dispatch_queue w) \<and>
     net_calls w' = net_calls w \<and> net_ret w' = net_ret w \<and> net_sk w' = net_sk w \<and>
     open_socks w' = open_socks w \<and> sent w' = sent w"

section \<open>Tasks leave their own queue alone\<close>

lemma dispatch_only_refl [simp]: "dispatch_only w w" "dispatch_only w (w\<lparr>kheap := h\<rparr>)"
    "dispatch_only w (w'\<lparr>kheap := h\<rparr>) = dispatch_only w w'" "dispatch_only (w\<lparr>kheap := h\<rparr>) w' = dispatch_only w w'"
  by (simp_all add: dispatch_only_def)

lemma dispatch_only_trans: "dispatch_only w v \<Longrightarrow> dispatch_only v u \<Longrightarrow> dispatch_only w u"
  by (simp add: dispatch_only_def)

lemma w_alloc_only: "w_alloc n w = Ok (b, w') \<Longrightarrow> dispatch_only w w'"
  using w_alloc_Ok by fastforce

lemma queue_task_only: "queue_task DISPATCH f p w = Ok (z, w') \<Longrightarrow> dispatch_only w w'"
  by (auto simp: queue_task_def link_task_def spin_lock_def spin_unlock_def list_add_tail_def up_def
      dispatch_only_def elim!: cbind_OkE split: if_splits dest!: w_alloc_Ok)

lemma fill_id_tlv_only: "fill_id_tlv b ty str w = Ok (t, w') \<Longrightarrow> dispatch_only w w'"
  by (auto simp: fill_id_tlv_def Let_def elim!: cbind_OkE dest: w_alloc_only)

lemma Acknowledge_only: "Acknowledge s q a i dst reply w = Ok (z, w') \<Longrightarrow> dispatch_only w w'"
  by (auto simp: Acknowledge_def queue_message_def Let_def elim!: cbind_OkE
      dest!: w_alloc_only fill_id_tlv_only queue_task_only) (blast intro: dispatch_only_trans)

lemma ProcessRequest_only: "ProcessRequest m reply w = Ok (z, w') \<Longrightarrow> dispatch_only w w'"
  by (auto simp: ProcessRequest_def Let_def elim!: cbind_OkE split: if_splits dest!: Acknowledge_only)

lemma handle_message_only: "handle_message p w = Ok w' \<Longrightarrow> dispatch_only w w'"
  by (auto simp: handle_message_def Let_def w_kfree_def elim!: cbind_OkE split: if_splits
      dest!: ProcessRequest_only)

lemma send_reply_queues: "send_reply m addr buf w = Ok (m', w') \<Longrightarrow> queue_of r w' = queue_of r w"
  by (cases r) (auto simp: send_reply_def sock_create_def net_call_def Let_def sock_release_def udp_send_def
      split: if_splits option.splits elim!: cbind_OkE)

lemma handle_udp_reply_queues: "handle_udp_reply p w = Ok w' \<Longrightarrow> queue_of r w' = queue_of r w"
  by (auto simp: handle_udp_reply_def w_kmalloc_def w_kfree_def Let_def elim!: cbind_OkE
      split: prod.splits option.splits dest!: send_reply_queues [where r = r])

lemma release_queues:
  "handle_connection s w = Ok w' \<Longrightarrow> queue_of r w' = queue_of r w"
  "Link_Up_indication p w = Ok w' \<Longrightarrow> queue_of r w' = queue_of r w"
  "Link_Down_indication p w = Ok w' \<Longrightarrow> queue_of r w' = queue_of r w"
  "Link_Going_Down_indication p w = Ok w' \<Longrightarrow> queue_of r w' = queue_of r w"
  by (auto simp: handle_connection_def sock_release_def Link_Up_indication_def Link_Down_indication_def
      Link_Going_Down_indication_def w_kfree_def elim!: cbind_OkE split: option.splits if_splits)

interpretation module_queue: task_runner call_handler "queue_admits r" r for r
proof
  fix f p w w'
  assume a: "queue_admits r f" "call_handler f p w = Ok w'"
  show "queue_of r w' = queue_of r w"
  proof (cases r)
    case MIHF
    with a show ?thesis
      by (cases p; cases f)
        (auto simp: mihf_admits_def dispatch_only_def dest: handle_message_only release_queues [where r = MIHF])
  next
    case DISPATCH
    with a show ?thesis
      by (cases p) (auto simp: dispatch_admits_def dest: handle_udp_reply_queues [where r = DISPATCH])
  qed
qed

section \<open>Notifications\<close>

lemma cstring_terminated: "\<exists>cs. cstring (map Some bs @ Some 0 # m) = Ok cs"
  by (induction bs) auto

lemma report_wireless_Ok:
  assumes "wireless_ok dev" and "ieee80211_ptr dev = Some wdev"
  shows "report_wireless dev wdev = Ok ()"
proof (cases "sme_connected wdev")
  case True
  define n where "n = unat (wd_ssid_len wdev)"
  obtain bs where bs: "length bs = n" "holds (wd_ssid wdev) 0 bs" and n: "n \<le> 32"
    using assms True by (auto simp: wireless_ok_def n_def)
  let ?m = "map Some bs @ replicate (33 - n) None"
  have cp: "memcpy (replicate 33 None) 0 (wd_ssid wdev) 0 n = Ok ?m"
    using bs n by (simp add: memcpy_def holds_def del: replicate.simps)
  have "?m[n := Some 0] = map Some bs @ Some 0 # replicate (32 - n) None"
    using bs(1) n by (simp add: list_update_append Suc_diff_le flip: replicate_Suc)
      (metis Suc_diff_le list_update_code(2) numeral_eq_Suc pred_numeral_simps(3) replicate_Suc)
  moreover have "mem_write ?m n 0 = Ok (?m[n := Some 0])" using bs(1) n by (simp add: mem_write_def)
  ultimately obtain cs where "mem_write ?m n 0 = Ok (map Some bs @ Some 0 # replicate (32 - n) None)"
    "cstring (map Some bs @ Some 0 # replicate (32 - n) None) = Ok cs"
    using cstring_terminated by metis
  with cp True assms show ?thesis
    by (auto simp: report_wireless_def wireless_ok_def n_def split: option.splits simp del: replicate.simps)
next
  case False
  with assms show ?thesis by (auto simp: report_wireless_def wireless_ok_def split: option.splits)
qed

lemma queue_link:
  assumes "\<not> locked (mihf_queue w)" and "allocs_succeed (kheap w)" and "wf_heap (kheap w)" and "n \<le> 4096"
  shows "\<exists>c w1 b w2 w' t. w_alloc 16 w = Ok (c, w1) \<and> w_alloc n w1 = Ok (b, w2) \<and>
    queue_task MIHF f (Link (b, \<lparr>lp_type = ty, lp_dev_addr = a, lp_link_addr = c, lp_reason = r\<rparr>)) w2 = Ok (0, w') \<and>
    mihf_queue w' = (mihf_queue w)\<lparr>tasks := tasks (mihf_queue w) @ [t], sem := Suc (sem (mihf_queue w))\<rparr> \<and>
    dispatch_queue w' = dispatch_queue w \<and> qt_task t = f \<and>
    qt_parameter t = Link (b, \<lparr>lp_type = ty, lp_dev_addr = a, lp_link_addr = c, lp_reason = r\<rparr>) \<and>
    task_ok t \<and> extends (kheap w) (kheap w') (task_blocks t)"
proof -
  obtain c h1 where c: "w_alloc 16 w = Ok (c, w\<lparr>kheap := h1\<rparr>)" "extends (kheap w) h1 {c}"
    using w_alloc_succeeds [OF assms(2), of 16] by auto
  obtain b h2 where b: "w_alloc n (w\<lparr>kheap := h1\<rparr>) = Ok (b, w\<lparr>kheap := h2\<rparr>)" "extends h1 h2 {b}"
    using w_alloc_succeeds [of "w\<lparr>kheap := h1\<rparr>" n] assms(2,4) c(2) by auto
  let ?p = "Link (b, \<lparr>lp_type = ty, lp_dev_addr = a, lp_link_addr = c, lp_reason = r\<rparr>)"
  have "\<not> locked (queue_of MIHF (w\<lparr>kheap := h2\<rparr>))" "allocs_succeed (kheap (w\<lparr>kheap := h2\<rparr>))"
    using assms(1,2) c(2) b(2) by simp_all
  from queue_task_appended [OF this, of f ?p]
  obtain k w' where q: "queue_task MIHF f ?p (w\<lparr>kheap := h2\<rparr>) = Ok (0, w')"
    "queue_of MIHF w' = (mihf_queue w)\<lparr>tasks := tasks (mihf_queue w) @ [\<lparr>qt_blk = k, qt_task = f,
      qt_parameter = ?p\<rparr>], sem := Suc (sem (mihf_queue w))\<rparr>"
    "queue_of DISPATCH w' = dispatch_queue w" "extends h2 (kheap w') {k}" by auto
  let ?t = "\<lparr>qt_blk = k, qt_task = f, qt_parameter = ?p\<rparr>"
  have wf1: "wf_heap h1" "wf_heap h2" using assms(3) c(2) b(2) by (auto intro: extends_wf)
  have e: "extends (kheap w) (kheap w') ({c} \<union> {b} \<union> {k})"
    using c(2) b(2) q(4) by (intro extends_trans)
  have "c \<noteq> b" "k \<noteq> b" "k \<noteq> c"
    using extends_disjoint [OF assms(3) c(2) b(2)] extends_disjoint [OF wf1(1) b(2) q(4)]
      extends_disjoint [OF assms(3) extends_trans [OF c(2) b(2)] q(4)] by auto
  then have "task_ok ?t" by (auto simp: task_ok_def)
  moreover have "task_blocks ?t = {c} \<union> {b} \<union> {k}" by (auto simp: task_blocks_def)
  ultimately show ?thesis using c(1) b(1) q e
    by (intro exI [of _ c] exI [of _ "w\<lparr>kheap := h1\<rparr>"] exI [of _ b] exI [of _ "w\<lparr>kheap := h2\<rparr>"] exI [of _ w'] exI [of _ ?t])
      simp
qed

text \<open>The notifier with memory available.\<close>

lemma DevLink_queues:
  assumes "\<not> locked (mihf_queue w)" and "allocs_succeed (kheap w)" and "wf_heap (kheap w)"
  shows "\<exists>w'. DevLinkUp dev w = Ok w' \<and> queues_link w Addr_Link_Up_indication dev w'"
    and "\<exists>w'. DevLinkDown dev w = Ok w' \<and> queues_link w Addr_Link_Down_indication dev w'"
    and "\<exists>w'. DevLinkGoingDown dev w = Ok w' \<and> queues_link w Addr_Link_Going_Down_indication dev w'"
  unfolding DevLinkUp_def DevLinkDown_def DevLinkGoingDown_def Let_def queues_link_def
  using queue_link [OF assms, of 72 Addr_Link_Up_indication "(if dev_type dev = ARPHRD_ETHER
        then Some (if ieee80211_ptr dev = None then ETHERNET else WIRELESS_IEEE_802_11)
        else if dev_type dev = ARPHRD_IEEE80211 then Some WIRELESS_IEEE_802_11
        else None)" "dev_id dev" 0]
    queue_link [OF assms, of 56 Addr_Link_Down_indication "Some ETHERNET" "dev_id dev" 0]
    queue_link [OF assms, of 40 Addr_Link_Going_Down_indication "Some ETHERNET" "dev_id dev" 0]
  by fastforce+

lemma NetDevNotifier_queues:
  assumes "dev_type dev = ARPHRD_ETHER" and "wireless_ok dev" and "\<not> locked (mihf_queue w)"
    and "allocs_succeed (kheap w)" and "wf_heap (kheap w)"
  shows "\<exists>w'. NetDevNotifier event dev w = Ok (0, w') \<and>
    (case indication_of event dev of None \<Rightarrow> w' = w | Some f \<Rightarrow> queues_link w f dev w')"
proof -
  have "(case ieee80211_ptr dev of None \<Rightarrow> Ok () | Some wdev \<Rightarrow> report_wireless dev wdev) = Ok ()"
    using report_wireless_Ok [OF assms(2)] by (cases "ieee80211_ptr dev") simp_all
  with DevLink_queues [OF assms(3-5), of dev] assms(1) show ?thesis
    by (cases event) (fastforce simp: NetDevNotifier_def indication_of_def)+
qed

section \<open>Properties\<close>



text \<open>
  The network name of a wireless device is copied by its length without a
  test: a length of more than 32 overruns the buffer on the stack of the notifier, for
  every event and whatever the type of the device.
\<close>

theorem notification_ssid_overrun:
  assumes "ieee80211_ptr dev = Some wdev" and "sme_connected wdev" and "32 < unat (wd_ssid_len wdev)"
  shows "NetDevNotifier event dev w = Fault OutOfBounds"
  using assms by (simp add: NetDevNotifier_def report_wireless_def memcpy_def mem_write_def del: replicate.simps)

end
