(* ===== verification/Mih_System.thy ===== *)
theory Mih_System
  imports Dev_Mon
begin

text \<open>
  The module as a whole: who owns which block. Every task on a queue owns the blocks its
  function will release; the tasks of both queues share none of them; all of them are
  allocated. Every thread of the module keeps this invariant.
\<close>

section \<open>The ownership invariant\<close>

text \<open>The reply handler of a received message dispatches to a function of that queue.\<close>

fun reply_ok :: "parameter \<Rightarrow> bool" where
  "reply_ok (Received (b, rm)) \<longleftrightarrow> dispatch_admits (rh_handler (snd (rm_reply rm)))"
| "reply_ok p \<longleftrightarrow> True"

definition good_task :: "queued_task \<Rightarrow> bool" where
  "good_task t \<longleftrightarrow> task_ok t \<and> typed_call (qt_task t) (qt_parameter t) \<and> reply_ok (qt_parameter t)"

fun apart :: "queued_task list \<Rightarrow> bool" where
  "apart [] \<longleftrightarrow> True"
| "apart (t # ts) \<longleftrightarrow> task_blocks t \<inter> tasks_blocks ts = {} \<and> apart ts"

definition all_tasks :: "world \<Rightarrow> queued_task list" where
  "all_tasks w = tasks (mihf_queue w) @ tasks (dispatch_queue w)"

text \<open>
  The functions the started threads put on the MIHF queue. The TCP thread is not among
  them: \<open>mod_Start\<close> does not start it (its \<open>kthread_run\<close> is commented out).
\<close>

definition started_admits :: "handler \<Rightarrow> bool" where
  "started_admits f \<longleftrightarrow> mihf_admits f \<and> f \<noteq> Addr_handle_connection"

definition queues_inv :: "world \<Rightarrow> nat set \<Rightarrow> bool" where
  "queues_inv w L \<longleftrightarrow>
     apart (all_tasks w) \<and> (\<forall>t \<in> set (all_tasks w). good_task t) \<and> tasks_blocks (all_tasks w) \<subseteq> L \<and>
     (\<forall>t \<in> set (tasks (mihf_queue w)). started_admits (qt_task t) \<or> qt_task t = poison_task) \<and>
     (\<forall>t \<in> set (tasks (dispatch_queue w)). dispatch_admits (qt_task t) \<or> qt_task t = poison_task)"

definition world_inv :: "world \<Rightarrow> bool" where
  "world_inv w \<longleftrightarrow> wf_heap (kheap w) \<and> wf_socks w \<and> queues_inv w (kh_live (kheap w))"

definition admitted :: "queue_ref \<Rightarrow> handler \<Rightarrow> bool" where
  "admitted r f \<longleftrightarrow> f = poison_task \<or> (case r of MIHF \<Rightarrow> started_admits f | DISPATCH \<Rightarrow> dispatch_admits f)"

text \<open>The allocated blocks that no queued task owns.\<close>

definition unowned :: "world \<Rightarrow> nat set" where
  "unowned w = kh_live (kheap w) - tasks_blocks (all_tasks w)"

text \<open>Blocks that are allocated and belong to no queued task.\<close>

definition spare :: "world \<Rightarrow> nat set \<Rightarrow> bool" where
  "spare w B \<longleftrightarrow> B \<subseteq> kh_live (kheap w) \<and> B \<inter> tasks_blocks (all_tasks w) = {}"

text \<open>The blocks kept for the next turn of the UDP receive loop.\<close>

definition reusing :: "(nat option \<times> nat) option \<Rightarrow> nat set" where
  "reusing st = (case st of None \<Rightarrow> {} | Some (rx, buf) \<Rightarrow> insert buf (set_option rx))"

section \<open>The threads of the module\<close>

text \<open>
  The state of the whole module: the shared state, the blocks the UDP thread keeps for its
  next turn, and, for the record, the addresses the requests came from so far.
\<close>

record module_run =
  mr_world :: world
  mr_reuse :: "(nat option \<times> nat) option"
  mr_senders :: "sockaddr_in list"

text \<open>Whose request a turn of the receive loop queues; nobody's when the receive failed.\<close>

definition sender_of :: "sock \<Rightarrow> arrival \<Rightarrow> sockaddr_in list" where
  "sender_of sk got =
     (let nobody = \<lparr>sin_family = 0, sin_port = 0, sin_addr = 0\<rparr> in
      if \<not> sock_sk sk then [nobody]
      else case got of Datagram bs a \<Rightarrow> [a] | Failure e \<Rightarrow> if e < 0 then [] else [nobody])"

text \<open>
  A step of the module: the UDP thread takes one turn of its loop or leaves it, the kernel
  notifies the device monitor, somebody stops an executor, or the executor of a queue
  runs \<open>execute_task\<close> once. Each is the code's own definition. The module starts with both
  queues initialised and nothing sent, whatever else was allocated or open before.
\<close>

inductive module_moves :: "module_run \<Rightarrow> module_run \<Rightarrow> bool" where
  turn: "udp_turn sk got (mr_reuse s) (mr_world s) = Ok (st, w) \<Longrightarrow>
    module_moves s (s\<lparr>mr_world := w, mr_reuse := st, mr_senders := mr_senders s @ sender_of sk got\<rparr>)"
| leave: "udp_loop sk [Stop] (mr_reuse s) (mr_world s) = Ok (Left, w) \<Longrightarrow>
    module_moves s (s\<lparr>mr_world := w, mr_reuse := None\<rparr>)"
| notify: "NetDevNotifier event dev (mr_world s) = Ok (r, w) \<Longrightarrow> module_moves s (s\<lparr>mr_world := w\<rparr>)"
| stop: "stop_executor q (mr_world s) = Ok w \<Longrightarrow> module_moves s (s\<lparr>mr_world := w\<rparr>)"
| execute: "execute_task call_handler q k (mr_world s) = Ok (r, w) \<Longrightarrow> module_moves s (s\<lparr>mr_world := w\<rparr>)"

definition module_starts :: "module_run \<Rightarrow> bool" where
  "module_starts s \<longleftrightarrow> (\<exists>w. wf_heap (kheap w) \<and> wf_socks w \<and> sent w = [] \<and>
     s = \<lparr>mr_world = snd (init_queue DISPATCH (snd (init_queue MIHF w))), mr_reuse = None, mr_senders = []\<rparr>)"

inductive module_reachable :: "module_run \<Rightarrow> bool" where
  start: "module_starts s \<Longrightarrow> module_reachable s"
| step: "module_reachable s \<Longrightarrow> module_moves s s' \<Longrightarrow> module_reachable s'"

text \<open>
  The invariant of the whole module: ownership in the shared state, and what the UDP
  thread keeps belongs to it alone.
\<close>

definition module_inv :: "module_run \<Rightarrow> bool" where
  "module_inv s \<longleftrightarrow> world_inv (mr_world s) \<and> spare (mr_world s) (reusing (mr_reuse s)) \<and>
     (\<forall>rx buf. mr_reuse s = Some (rx, buf) \<longrightarrow> buf \<notin> set_option rx)"

section \<open>Ownership of task lists\<close>

lemma tasks_blocks_simps [simp]:
  "tasks_blocks [] = {}" "tasks_blocks (t # ts) = task_blocks t \<union> tasks_blocks ts"
  "tasks_blocks (ts @ us) = tasks_blocks ts \<union> tasks_blocks us"
  by (simp_all add: tasks_blocks_def)

lemma apart_append:
  "apart (ts @ us) \<longleftrightarrow> apart ts \<and> apart us \<and> tasks_blocks ts \<inter> tasks_blocks us = {}"
  by (induction ts) auto

lemma apart_short: "length ts \<le> 1 \<Longrightarrow> apart ts"
  by (cases ts) auto

section \<open>What a task does to the blocks\<close>

text \<open>
  What a task may put on the dispatch queue and on the network: a received message is
  answered by at most one task, for the address stored with it; that task sends at most
  one datagram, to that address, of at most the size of its buffer; no other task does
  either.
\<close>

fun traffic :: "parameter \<Rightarrow> queued_task list \<Rightarrow> datagram list \<Rightarrow> bool" where
  "traffic (Received (b, rm)) us ds \<longleftrightarrow> ds = [] \<and> length us \<le> 1 \<and>
     (\<forall>u \<in> set us. \<exists>c m. qt_parameter u =
        Reply (c, \<lparr>rp_message = Some m, rp_param = rh_param (snd (rm_reply rm))\<rparr>))"
| "traffic (Reply (b, rp)) us ds \<longleftrightarrow> us = [] \<and> length ds \<le> 1 \<and>
     (\<forall>d \<in> set ds. dg_to d = map_option snd (rp_param rp) \<and> length (dg_bytes d) \<le> BUFFER_SIZE)"
| "traffic p us ds \<longleftrightarrow> us = [] \<and> ds = []"

lemma link_effect:
  assumes "cbind (w_kfree c w) (\<lambda>w. w_kfree b w) = Ok w'" and "b \<noteq> c" and "gains h0 (kheap w) {b, c}"
  shows "\<exists>h. w' = w\<lparr>kheap := h\<rparr> \<and> gains h0 h {}"
proof -
  have "gains h0 (kheap w) ({b, c} \<union> {})" and "{b, c} \<inter> {} = {}" using assms(3) by simp_all
  then obtain h1 h2 where "kfree (Some c) (kheap w) = Ok h1" "kfree (Some b) h1 = Ok h2" "gains h0 h2 {}"
    using assms(2) by (metis kfree_two)
  with assms(1) show ?thesis by (auto simp: w_kfree_def)
qed

lemma call_effect:
  assumes "call_handler f p w = Ok w'" and "typed_call f p" and "f \<noteq> poison_task" and "reply_ok p"
    and "param_ok p" and "gains h0 (kheap w) (param_blocks p)" and "wf_socks w"
  shows "\<exists>us ds. gains h0 (kheap w') (tasks_blocks us) \<and> apart us \<and> wf_socks w' \<and>
    (\<forall>t \<in> set us. good_task t \<and> dispatch_admits (qt_task t)) \<and> mihf_queue w' = mihf_queue w \<and>
    dispatch_queue w' = (dispatch_queue w)\<lparr>tasks := tasks (dispatch_queue w) @ us,
      sem := sem (dispatch_queue w) + length us\<rparr> \<and>
    sent w' = sent w @ ds \<and> traffic p us ds"
proof (cases p)
  case (Received pp)
  obtain b rm where pp: "pp = (b, rm)" by (cases pp)
  with Received assms(1-3) have run: "handle_message (b, rm) w = Ok w'" by (cases f) auto
  obtain c m where m: "rm_msg rm = Blk c m" "b \<noteq> c" "length m < 2 ^ 31" using assms(5) Received pp by auto
  have g: "gains h0 (kheap w) {b, c}" using assms(6) Received pp m(1) by (simp add: insert_commute)
  from handle_message_effect [OF run g m] obtain ts where ts: "length ts \<le> 1" "replies_from h0 w ts w'"
    "\<forall>t \<in> set ts. qt_task t = rh_handler (snd (rm_reply rm)) \<and>
      (\<exists>b m. qt_parameter t = Reply (b, \<lparr>rp_message = Some m, rp_param = rh_param (snd (rm_reply rm))\<rparr>))"
    by blast
  moreover have "dispatch_admits (rh_handler (snd (rm_reply rm)))" using assms(4) Received pp by simp
  ultimately show ?thesis
    using assms(7) Received pp
    by (intro exI [of _ ts] exI [of _ "[]"])
      (auto simp: replies_from_def queues_replies_def good_task_def dispatch_admits_def wf_socks_def
        intro: apart_short)
next
  case (Reply pp)
  then obtain b rp where pp: "pp = (b, rp)" and run: "handle_udp_reply (b, rp) w = Ok w'"
    using assms(1-3) by (cases pp; cases f) auto
  have "param_ok (Reply (b, rp))" "gains h0 (kheap w) (param_blocks (Reply (b, rp)))"
    using assms(5,6) Reply pp by simp_all
  note eff = handle_udp_reply_effect [OF run assms(7) this]
  then obtain ds where "sent w' = sent w @ ds" "traffic p [] ds" using Reply pp by auto
  with eff show ?thesis
    by (intro exI [of _ "[]"] exI [of _ ds]) simp
next
  case (Link pp)
  obtain b lp where pp: "pp = (b, lp)" by (cases pp)
  with Link assms(1-3) have "cbind (w_kfree (lp_link_addr lp) w) (\<lambda>w. w_kfree b w) = Ok w'"
    by (cases f) (auto simp: Link_Up_indication_def Link_Down_indication_def Link_Going_Down_indication_def)
  from link_effect [OF this, of h0] assms(5-7) Link pp show ?thesis
    by (intro exI [of _ "[]"] exI [of _ "[]"]) (auto simp: wf_socks_def)
next
  case (Connection s)
  with assms(1-3) have "handle_connection s w = Ok w'" by (cases f) auto
  with assms(6,7) Connection show ?thesis
    by (intro exI [of _ "[]"] exI [of _ "[]"])
      (auto simp: handle_connection_def sock_release_def wf_socks_def split: option.splits if_splits)
next
  case NULL
  with assms(2,3) show ?thesis by (cases f) auto
qed

section \<open>Taking a task\<close>

text \<open>The head of a queue is set apart from everything else.\<close>

lemma queues_inv_head:
  assumes "queues_inv w L" and "tasks (queue_of r w) = t # ts"
    and "w1 = set_queue r ((queue_of r w)\<lparr>locked := l, tasks := ts\<rparr>) w"
  shows "queues_inv w1 (L - task_blocks t)" and "good_task t" and "task_blocks t \<subseteq> L"
    and "kheap w1 = kheap w" and "wf_socks w1 = wf_socks w"
  using assms
  by (cases r; auto simp: queues_inv_def all_tasks_def apart_append wf_socks_def)+

text \<open>Adding replies that own what was gained.\<close>

lemma queues_inv_replies:
  assumes "queues_inv w L" and "mihf_queue w' = mihf_queue w"
    and "dispatch_queue w' = (dispatch_queue w)\<lparr>tasks := tasks (dispatch_queue w) @ us, sem := n\<rparr>"
    and "apart us" and "\<forall>t \<in> set us. good_task t \<and> dispatch_admits (qt_task t)" and "tasks_blocks us \<inter> L = {}"
  shows "queues_inv w' (L \<union> tasks_blocks us)"
  using assms by (auto simp: queues_inv_def all_tasks_def apart_append)

lemma queues_inv_same:
  assumes "queues_inv w L" and "tasks (mihf_queue w') = tasks (mihf_queue w)"
    and "tasks (dispatch_queue w') = tasks (dispatch_queue w)" and "L \<subseteq> L'"
  shows "queues_inv w' L'"
  using assms by (auto simp: queues_inv_def all_tasks_def)

lemma spin_unlock_fields [simp]:
  "tasks (mihf_queue (spin_unlock r w)) = tasks (mihf_queue w)"
  "tasks (dispatch_queue (spin_unlock r w)) = tasks (dispatch_queue w)"
  "kheap (spin_unlock r w) = kheap w" "wf_socks (spin_unlock r w) = wf_socks w"
  by (cases r; simp add: spin_unlock_def wf_socks_def)+

lemma lock_fields [simp]:
  "tasks (mihf_queue (set_queue r ((queue_of r w)\<lparr>locked := l\<rparr>) w)) = tasks (mihf_queue w)"
  "tasks (dispatch_queue (set_queue r ((queue_of r w)\<lparr>locked := l\<rparr>) w)) = tasks (dispatch_queue w)"
  "wf_socks (set_queue r q w) = wf_socks w"
  by (cases r; simp add: wf_socks_def)+

text \<open>Taking the head: what it does to both queues, to the network and to blocks nobody queued.\<close>

lemma take_task_effect:
  assumes inv: "world_inv w" and run: "take_task call_handler r w = Ok (res, w')"
    and head: "tasks (queue_of r w) = t # ts"
  shows "\<exists>us ds. world_inv w' \<and> (\<forall>B. spare w B \<longrightarrow> spare w' B) \<and> unowned w' = unowned w \<and> traffic (qt_parameter t) us ds \<and>
    sent w' = sent w @ ds \<and> tasks (mihf_queue w') = (if r = MIHF then ts else tasks (mihf_queue w)) \<and>
    tasks (dispatch_queue w') = (if r = DISPATCH then ts else tasks (dispatch_queue w)) @ us \<and>
    sem (mihf_queue w') = sem (mihf_queue w) \<and> sem (dispatch_queue w') = sem (dispatch_queue w) + length us \<and>
    (\<forall>u \<in> set us. dispatch_admits (qt_task u))"
proof -
  define w1 where "w1 = set_queue r ((queue_of r w)\<lparr>locked := True, tasks := ts\<rparr>) w"
  let ?L = "kh_live (kheap w)" and ?p = "qt_parameter t"
  have q: "queues_inv w ?L" and wf: "wf_heap (kheap w)" and so: "wf_socks w"
    using inv by (simp_all add: world_inv_def)
  note hd = queues_inv_head [OF q head w1_def]
  obtain w2 w3 where mid: "(if qt_task t = poison_task then Ok (0, w1)
        else cbind (call_handler (qt_task t) ?p w1) (\<lambda>w. Ok (1, w))) = Ok (res, w2)"
    and fr: "w_kfree (qt_blk t) w2 = Ok w3" and w': "w' = spin_unlock r w3"
    using run head w1_def by (rule take_task_split)
  define h0 where "h0 = (kheap w)\<lparr>kh_live := ?L - param_blocks ?p\<rparr>"
  have g: "gains h0 (kheap w1) (param_blocks ?p)"
    using wf hd(3,4) by (auto simp: gains_def h0_def task_blocks_def)
  have "\<exists>us ds. gains h0 (kheap w2) (tasks_blocks us) \<and> apart us \<and> wf_socks w2 \<and>
    (\<forall>t \<in> set us. good_task t \<and> dispatch_admits (qt_task t)) \<and> mihf_queue w2 = mihf_queue w1 \<and>
    dispatch_queue w2 = (dispatch_queue w1)\<lparr>tasks := tasks (dispatch_queue w1) @ us,
      sem := sem (dispatch_queue w1) + length us\<rparr> \<and>
    sent w2 = sent w1 @ ds \<and> traffic ?p us ds"
  proof (cases "qt_task t = poison_task")
    case True
    then have "?p = NULL" using hd(2) by (cases ?p) (auto simp: good_task_def)
    with True mid g so hd(5) show ?thesis
      by (intro exI [of _ "[]"] exI [of _ "[]"]) simp
  next
    case False
    with mid have "call_handler (qt_task t) ?p w1 = Ok w2" by (auto elim!: cbind_OkE)
    from call_effect [OF this _ False _ _ g] hd(2,5) so show ?thesis
      by (auto simp: good_task_def task_ok_def)
  qed
  then obtain us ds where us: "gains h0 (kheap w2) (tasks_blocks us)" "apart us" "wf_socks w2"
    "\<forall>t \<in> set us. good_task t \<and> dispatch_admits (qt_task t)" "mihf_queue w2 = mihf_queue w1"
    "dispatch_queue w2 = (dispatch_queue w1)\<lparr>tasks := tasks (dispatch_queue w1) @ us,
      sem := sem (dispatch_queue w1) + length us\<rparr>"
    "sent w2 = sent w1 @ ds" "traffic ?p us ds" by blast
  have fresh: "tasks_blocks us \<inter> (?L - task_blocks t) = {}"
    using us(1) by (auto simp: gains_def h0_def task_blocks_def)
  note q2 = queues_inv_replies [OF hd(1) us(5,6,2,4) fresh]
  obtain h3 where h3: "w3 = w2\<lparr>kheap := h3\<rparr>" "kh_live h3 = kh_live (kheap w2) - {qt_blk t}" "wf_heap h3"
    using fr gains_wf [OF us(1)]
    by (auto simp: w_kfree_def kfree_def wf_heap_def elim!: cbind_OkE split: if_splits)
  have "qt_blk t \<in> kh_live h0" using hd(2,3) by (auto simp: h0_def good_task_def task_ok_def task_blocks_def)
  then have live: "?L - task_blocks t \<union> tasks_blocks us \<subseteq> kh_live h3"
    using us(1) by (auto simp: gains_def h0_def h3(2) task_blocks_def)
  then have "queues_inv w' (kh_live h3)" by (intro queues_inv_same [OF q2]) (simp_all add: w' h3(1))
  moreover have "wf_socks w3" using us(3) h3(1) by (simp add: wf_socks_def)
  ultimately have inv': "world_inv w'" using h3(1,3) by (simp add: world_inv_def w')
  have tasks': "tasks (mihf_queue w') = (if r = MIHF then ts else tasks (mihf_queue w))"
    "tasks (dispatch_queue w') = (if r = DISPATCH then ts else tasks (dispatch_queue w)) @ us"
    "sem (mihf_queue w') = sem (mihf_queue w)" "sem (dispatch_queue w') = sem (dispatch_queue w) + length us"
    using us(5,6) by (cases r; simp add: w' h3(1) w1_def spin_unlock_def)+
  have keep: "spare w' B" if "spare w B" for B
  proof -
    have "kh_live (kheap w') = kh_live h3" by (simp add: w' h3(1))
    moreover have "B \<inter> task_blocks t = {}" using that head by (cases r) (auto simp: spare_def all_tasks_def)
    ultimately show ?thesis using that live fresh head
      by (cases r) (auto simp: spare_def all_tasks_def tasks')
  qed
  have "kh_live (kheap w') = ?L - task_blocks t \<union> tasks_blocks us"
    using us(1) \<open>qt_blk t \<in> kh_live h0\<close> live hd(3)
    by (auto simp: w' h3(1,2) gains_def h0_def task_blocks_def)
  moreover have "apart (all_tasks w)" using q by (simp add: queues_inv_def)
  ultimately have un: "unowned w' = unowned w" using head fresh
    by (cases r) (auto simp: unowned_def all_tasks_def tasks' apart_append)
  have "sent w' = sent w @ ds" using us(7) by (cases r) (simp_all add: w' h3(1) w1_def spin_unlock_def)
  with inv' keep un us(4,8) tasks' show ?thesis by blast
qed

lemma take_task_idle:
  assumes run: "take_task call_handler r w = Ok (res, w')" and empty: "tasks (queue_of r w) = []"
  shows "tasks (mihf_queue w') = tasks (mihf_queue w)" and "tasks (dispatch_queue w') = tasks (dispatch_queue w)"
    and "kheap w' = kheap w" and "wf_socks w' = wf_socks w" and "sent w' = sent w"
proof -
  have "w' = spin_unlock r (set_queue r ((queue_of r w)\<lparr>locked := True\<rparr>) w)"
    using assms by (auto simp: take_task_def spin_lock_def split: if_splits)
  then show "tasks (mihf_queue w') = tasks (mihf_queue w)" "tasks (dispatch_queue w') = tasks (dispatch_queue w)"
    "kheap w' = kheap w" "wf_socks w' = wf_socks w" "sent w' = sent w"
    by (simp_all add: spin_unlock_def)
qed

lemma take_task_inv:
  assumes inv: "world_inv w" and run: "take_task call_handler r w = Ok (res, w')"
  shows "world_inv w' \<and> (\<forall>B. spare w B \<longrightarrow> spare w' B) \<and> unowned w' = unowned w"
proof (cases "tasks (queue_of r w)")
  case Nil
  note idle = take_task_idle [OF run Nil]
  with inv show ?thesis
    by (auto simp: world_inv_def spare_def unowned_def all_tasks_def intro: queues_inv_same [OF _ idle(1,2)])
next
  case (Cons t ts)
  with take_task_effect [OF inv run] show ?thesis by blast
qed

lemma down_fields [simp]:
  "tasks (queue_of q (down_killable r k w)) = tasks (queue_of q w)"
  "kheap (down_killable r k w) = kheap w" "wf_socks (down_killable r k w) = wf_socks w"
  "sent (down_killable r k w) = sent w"
  by (cases q; cases r; cases k; simp add: down_killable_def wf_socks_def)+

lemmas down_tasks [simp] = down_fields(1) [of MIHF, simplified] down_fields(1) [of DISPATCH, simplified]

lemma down_keeps [simp]: "spare (down_killable r k w) B = spare w B" "world_inv (down_killable r k w) = world_inv w"
    "unowned (down_killable r k w) = unowned w"
  by (simp_all add: spare_def unowned_def all_tasks_def world_inv_def queues_inv_def)

lemma execute_task_inv:
  assumes "world_inv w" and "execute_task call_handler r k w = Ok (res, w')"
  shows "world_inv w'" and "spare w B \<Longrightarrow> spare w' B" and "unowned w' = unowned w"
  using take_task_inv [of "down_killable r k w" r res w'] assms by (simp_all add: execute_task_def)

section \<open>Producing a task\<close>

lemma all_tasks_heap [simp]: "all_tasks (w\<lparr>kheap := h\<rparr>) = all_tasks w"
  by (simp add: all_tasks_def)

lemma alloc_inv:
  assumes "world_inv w" and "extends (kheap w) h C"
  shows "world_inv (w\<lparr>kheap := h\<rparr>)" and "spare (w\<lparr>kheap := h\<rparr>) C"
    and "spare w B \<Longrightarrow> spare (w\<lparr>kheap := h\<rparr>) B \<and> B \<inter> C = {}"
proof -
  have wf: "wf_heap (kheap w)" and L: "tasks_blocks (all_tasks w) \<subseteq> kh_live (kheap w)"
    using assms(1) by (simp_all add: world_inv_def queues_inv_def)
  have fresh: "C \<inter> kh_live (kheap w) = {}" using wf assms(2) by (rule extends_fresh)
  have live: "kh_live h = kh_live (kheap w) \<union> C" using assms(2) by (rule extends_live)
  show "world_inv (w\<lparr>kheap := h\<rparr>)"
    using assms(1) extends_wf [OF wf assms(2)] live
    by (auto simp: world_inv_def wf_socks_def intro: queues_inv_same)
  show "spare (w\<lparr>kheap := h\<rparr>) C" using fresh live L by (auto simp: spare_def)
  show "spare w B \<Longrightarrow> spare (w\<lparr>kheap := h\<rparr>) B \<and> B \<inter> C = {}"
    using fresh live by (auto simp: spare_def)
qed

lemma free_inv:
  assumes "world_inv w" and "spare w {b}" and "kfree (Some b) (kheap w) = Ok h"
  shows "world_inv (w\<lparr>kheap := h\<rparr>)" and "spare w B \<Longrightarrow> b \<notin> B \<Longrightarrow> spare (w\<lparr>kheap := h\<rparr>) B"
proof -
  have h: "kh_live h = kh_live (kheap w) - {b}" "wf_heap (kheap w) \<Longrightarrow> wf_heap h"
    using assms(3) by (auto simp: kfree_def wf_heap_def split: if_splits)
  show "world_inv (w\<lparr>kheap := h\<rparr>)"
    using assms(1,2) h by (auto simp: world_inv_def wf_socks_def queues_inv_def spare_def all_tasks_def)
  show "spare w B \<Longrightarrow> b \<notin> B \<Longrightarrow> spare (w\<lparr>kheap := h\<rparr>) B" using h by (auto simp: spare_def)
qed

lemma queue_task_inv:
  assumes inv: "world_inv w" and run: "queue_task r f p w = Ok (z, w')"
    and f: "admitted r f" "typed_call f p" "param_ok p" "reply_ok p" and sp: "spare w (param_blocks p)"
  shows "world_inv w'"
proof -
  obtain w1 where l: "link_task r f p w = Ok w1" and w': "w' = up r w1"
    using run by (auto simp: queue_task_def elim!: cbind_OkE)
  obtain b where b: "queue_of r w1 = (queue_of r w)\<lparr>tasks := tasks (queue_of r w) @
      [\<lparr>qt_blk = b, qt_task = f, qt_parameter = p\<rparr>]\<rparr>" "\<not> locked (queue_of r w)"
    "extends (kheap w) (kheap w1) {b}" "\<forall>r'. r' \<noteq> r \<longrightarrow> queue_of r' w1 = queue_of r' w"
    "open_socks w1 = open_socks w" "sent w1 = sent w" "net_calls w1 = net_calls w"
    using l by (rule link_task_queue)
  let ?t = "\<lparr>qt_blk = b, qt_task = f, qt_parameter = p\<rparr>"
  have wf: "wf_heap (kheap w)" and so: "wf_socks w" and q: "queues_inv w (kh_live (kheap w))"
    using inv by (simp_all add: world_inv_def)
  have fresh: "b \<notin> kh_live (kheap w)" using extends_fresh [OF wf b(3)] by simp
  have live: "kh_live (kheap w1) = insert b (kh_live (kheap w))" using extends_live [OF b(3)] by simp
  have good: "good_task ?t" using f sp fresh by (auto simp: good_task_def task_ok_def spare_def)
  have tb: "task_blocks ?t \<inter> tasks_blocks (all_tasks w) = {}" "task_blocks ?t \<subseteq> kh_live (kheap w1)"
    using q sp fresh live by (auto simp: task_blocks_def spare_def queues_inv_def)
  have "queues_inv w' (kh_live (kheap w1))"
    using q tb good f(1) live b(1) b(4)
    by (cases r) (fastforce simp: w' up_def queues_inv_def all_tasks_def apart_append admitted_def)+
  moreover have "wf_socks w'" using so b(5,7) by (cases r) (simp_all add: w' up_def wf_socks_def)
  moreover have "kheap w' = kheap w1" by (cases r) (simp_all add: w' up_def)
  ultimately show ?thesis using extends_wf [OF wf b(3)] by (simp add: world_inv_def)
qed

lemma queue_task_grows:
  assumes "queue_task r f p w = Ok (z, w')"
  obtains b where "tasks (queue_of r w') = tasks (queue_of r w) @ [\<lparr>qt_blk = b, qt_task = f, qt_parameter = p\<rparr>]"
    and "\<forall>q. q \<noteq> r \<longrightarrow> queue_of q w' = queue_of q w" and "sent w' = sent w" and "extends (kheap w) (kheap w') {b}"
proof -
  obtain w1 where l: "link_task r f p w = Ok w1" and w': "w' = up r w1"
    using assms by (auto simp: queue_task_def elim!: cbind_OkE)
  from l show ?thesis
    by (elim link_task_queue) (auto simp: w' up_def intro!: that)
qed

lemma queue_task_spares:
  assumes "queue_task r f p w = Ok (z, w')" and "world_inv w" and "spare w B" and "param_blocks p \<inter> B = {}"
  shows "spare w' B"
proof -
  obtain b where b: "tasks (queue_of r w') = tasks (queue_of r w) @ [\<lparr>qt_blk = b, qt_task = f, qt_parameter = p\<rparr>]"
    "\<forall>q. q \<noteq> r \<longrightarrow> queue_of q w' = queue_of q w" "extends (kheap w) (kheap w') {b}"
    using assms(1) by (rule queue_task_grows)
  have "wf_heap (kheap w)" using assms(2) by (simp add: world_inv_def)
  then have "b \<notin> kh_live (kheap w)" "kh_live (kheap w') = insert b (kh_live (kheap w))"
    using extends_fresh [OF _ b(3)] extends_live [OF b(3)] by auto
  with b(1) b(2) [rule_format, of MIHF] b(2) [rule_format, of DISPATCH] assms(3,4) show ?thesis
    by (cases r) (auto simp: spare_def all_tasks_def task_blocks_def)
qed

lemma w_alloc_inv:
  assumes "world_inv w" and "w_alloc n w = Ok (b, w')"
  shows "world_inv w'" and "spare w' {b}" and "spare w B \<Longrightarrow> spare w' B \<and> b \<notin> B"
proof -
  obtain h where h: "w' = w\<lparr>kheap := h\<rparr>" "extends (kheap w) h {b}"
    using w_alloc_Ok [OF assms(2)] by blast
  then show "world_inv w'" "spare w' {b}" "spare w B \<Longrightarrow> spare w' B \<and> b \<notin> B"
    using alloc_inv [OF assms(1) h(2)] by auto
qed

lemma w_kmalloc_inv:
  assumes "world_inv w" and "w_kmalloc n w = (p, w')"
  shows "world_inv w' \<and> spare w' (set_option p)"
proof -
  obtain h where h: "w' = w\<lparr>kheap := h\<rparr>" "kmalloc n (kheap w) = (p, h)"
    using assms(2) by (auto simp: w_kmalloc_def split: prod.splits)
  then have "extends (kheap w) h (set_option p)"
    by (cases p) (auto dest: kmalloc_Some kmalloc_None)
  with h alloc_inv [OF assms(1)] show ?thesis by auto
qed

lemma link_task_inv:
  assumes inv: "world_inv w" and a: "w_alloc i w = Ok (c, w1)" "w_alloc j w1 = Ok (b, w2)"
    and q: "queue_task MIHF f (Link (b, lp)) w2 = Ok (z, w')" and lp: "lp_link_addr lp = c"
    and f: "started_admits f" "typed_call f (Link (b, lp))"
  shows "world_inv w' \<and> (spare w B \<longrightarrow> spare w' B)"
proof -
  note one = w_alloc_inv [OF inv a(1)]
  note two = w_alloc_inv [OF one(1) a(2)]
  have s: "spare w2 {c}" "b \<noteq> c" using two(3) [OF one(2)] by simp_all
  then have "spare w2 (param_blocks (Link (b, lp)))" using two(2) lp by (simp add: spare_def)
  then have "world_inv w'"
    using s(2) lp f by (intro queue_task_inv [OF two(1) q]) (simp_all add: admitted_def)
  moreover have "spare w' B" if "spare w B"
    using one(3) [OF that] two(3) [of B] lp by (intro queue_task_spares [OF q two(1)]) auto
  ultimately show ?thesis by blast
qed

lemma NetDevNotifier_inv:
  assumes "world_inv w" and "NetDevNotifier event dev w = Ok (r, w')"
  shows "world_inv w' \<and> (spare w B \<longrightarrow> spare w' B)"
proof -
  have up: ?thesis if "DevLinkUp dev w = Ok w'"
    using that by (auto simp: DevLinkUp_def Let_def started_admits_def mihf_admits_def elim!: cbind_OkE
        dest: link_task_inv [OF assms(1)])
  have down: ?thesis if "DevLinkDown dev w = Ok w'"
    using that by (auto simp: DevLinkDown_def started_admits_def mihf_admits_def elim!: cbind_OkE
        dest: link_task_inv [OF assms(1)])
  have going: ?thesis if "DevLinkGoingDown dev w = Ok w'"
    using that by (auto simp: DevLinkGoingDown_def started_admits_def mihf_admits_def elim!: cbind_OkE
        dest: link_task_inv [OF assms(1)])
  show ?thesis
    using assms up down going
    by (auto simp: NetDevNotifier_def elim!: cbind_OkE split: if_splits netdev_event.splits)
qed

lemma stop_executor_inv:
  assumes "world_inv w" and "stop_executor r w = Ok w'"
  shows "world_inv w' \<and> (spare w B \<longrightarrow> spare w' B)"
proof -
  obtain z where q: "queue_task r poison_task NULL w = Ok (z, w')"
    using assms(2) by (auto simp: stop_executor_def elim!: cbind_OkE)
  have "world_inv w'" by (rule queue_task_inv [OF assms(1) q]) (simp_all add: admitted_def spare_def)
  then show ?thesis using queue_task_spares [OF q assms(1)] by simp
qed

lemma udp_recv_length:
  "udp_recv sk got buf n = Ok (z, cells, from) \<Longrightarrow> length cells = length buf"
  by (auto simp: udp_recv_def Let_def split: if_splits arrival.splits)

lemma udp_receive_inv:
  assumes inv: "world_inv w" and sp: "spare w {buf}"
    and a: "w_alloc i w = Ok (rb, w1)" "w_alloc j w1 = Ok (pb, w2)"
    and q: "queue_task MIHF Addr_handle_message (Received (pb, \<lparr>rm_len = n, rm_msg = Blk buf cells,
      rm_reply = (rb, \<lparr>rh_handler = Addr_handle_udp_reply, rh_param = rp\<rparr>)\<rparr>)) w2 = Ok (z, w')"
    and l: "length cells = 4096"
  shows "world_inv w'"
proof -
  note one = w_alloc_inv [OF inv a(1)]
  note two = w_alloc_inv [OF one(1) a(2)]
  have s: "spare w2 {buf}" "pb \<noteq> buf" using one(3) [OF sp] two(3) [of "{buf}"] by auto
  show ?thesis
    using s two(2) l
    by (intro queue_task_inv [OF two(1) q])
      (auto simp: admitted_def started_admits_def mihf_admits_def dispatch_admits_def spare_def)
qed

lemma udp_turn_inv:
  assumes run: "udp_turn sk got st w = Ok (st', w')" and inv: "world_inv w" and sp: "spare w (reusing st)"
    and ne: "\<forall>rx buf. st = Some (rx, buf) \<longrightarrow> buf \<notin> set_option rx"
  shows "world_inv w' \<and> spare w' (reusing st') \<and> (\<forall>rx buf. st' = Some (rx, buf) \<longrightarrow> buf \<notin> set_option rx)"
proof -
  obtain rx buf w1 z cells src where
    al: "(case st of Some (rxaddr, buf) \<Rightarrow> Ok (rxaddr, buf, w)
       | None \<Rightarrow> (let (rxaddr, w) = w_kmalloc sizeof_sockaddr_in w in
           cbind (w_alloc BUFFER_SIZE w) (\<lambda>(buf, w). Ok (rxaddr, buf, w)))) = Ok (rx, buf, w1)"
    and rc: "udp_recv sk got (replicate BUFFER_SIZE (Some 0)) (int BUFFER_SIZE) = Ok (z, cells, src)"
    using run by (auto simp: udp_turn_def elim!: cbind_OkE)
  note run = run [unfolded udp_turn_def al rc cbind.simps prod.case]
  have w1: "world_inv w1 \<and> spare w1 (reusing (Some (rx, buf))) \<and> buf \<notin> set_option rx"
  proof (cases st)
    case (Some p)
    with al inv sp ne show ?thesis by (cases p) auto
  next
    case None
    obtain v where k: "w_kmalloc 16 w = (rx, v)" and b: "w_alloc 4096 v = Ok (buf, w1)"
      using al None by (auto simp: Let_def split: prod.splits elim!: cbind_OkE)
    from w_kmalloc_inv [OF inv k] have v: "world_inv v" "spare v (set_option rx)" by simp_all
    from w_alloc_inv [OF v(1) b] v(2) show ?thesis
      by (auto simp: reusing_def spare_def)
  qed
  then have buf: "spare w1 {buf}" by (auto simp: reusing_def spare_def)
  have len: "length cells = 4096" using udp_recv_length [OF rc] by simp
  show ?thesis
  proof (cases "z < 0")
    case True
    with run w1 show ?thesis by auto
  next
    case False
    with run obtain rb w2 pb w3 y rp where "w_alloc 16 w1 = Ok (rb, w2)" "w_alloc 32 w2 = Ok (pb, w3)"
      "queue_task MIHF Addr_handle_message (Received (pb, \<lparr>rm_len = z, rm_msg = Blk buf cells,
        rm_reply = (rb, \<lparr>rh_handler = Addr_handle_udp_reply, rh_param = rp\<rparr>)\<rparr>)) w3 = Ok (y, w')" "st' = None"
      by (auto simp: Let_def elim!: cbind_OkE)
    with udp_receive_inv [OF _ buf _ _ _ len] w1 show ?thesis by (auto simp: reusing_def spare_def)
  qed
qed

lemma udp_loop_inv:
  "udp_loop sk ts st w = Ok (e, w') \<Longrightarrow> world_inv w \<Longrightarrow> spare w (reusing st) \<Longrightarrow>
   (\<forall>rx buf. st = Some (rx, buf) \<longrightarrow> buf \<notin> set_option rx) \<Longrightarrow> world_inv w'"
proof (induction sk ts st w rule: udp_loop.induct)
  case (1 sk st w)
  then show ?case by simp
next
  case (2 sk ts st w)
  show ?case
  proof (cases st)
    case None
    with 2 show ?thesis by simp
  next
    case (Some p)
    obtain rx buf where p: "p = (rx, buf)" by (cases p)
    obtain h h2 where f: "kfree rx (kheap w) = Ok h" "kfree (Some buf) h = Ok h2" "w' = w\<lparr>kheap := h2\<rparr>"
      using "2.prems"(1) Some p by (auto simp: w_kfree_def elim!: cbind_OkE)
    have sp: "spare w {buf}" "rx = Some x \<Longrightarrow> spare w {x}" "rx \<noteq> Some buf" for x
      using "2.prems"(3,4) Some p by (auto simp: reusing_def spare_def)
    have "world_inv (w\<lparr>kheap := h\<rparr>) \<and> spare (w\<lparr>kheap := h\<rparr>) {buf}"
    proof (cases rx)
      case None
      with f(1) have "w\<lparr>kheap := h\<rparr> = w" by (cases w) simp
      with "2.prems"(2) sp(1) show ?thesis by simp
    next
      case (Some x)
      with f(1) sp free_inv [OF "2.prems"(2), of x h] show ?thesis by auto
    qed
    then show ?thesis using f(2,3) free_inv(1) [of "w\<lparr>kheap := h\<rparr>" buf h2] by simp
  qed
next
  case (3 sk got ts st w)
  obtain st' w1 where t: "udp_turn sk got st w = Ok (st', w1)" and r: "udp_loop sk ts st' w1 = Ok (e, w')"
    using "3.prems"(1) by (auto elim!: cbind_OkE)
  from udp_turn_inv [OF t "3.prems"(2-4)] show ?case
    by (intro "3.IH" [OF t refl r]) simp_all
qed

section \<open>Every step keeps the invariant\<close>

lemma module_moves_inv: "module_moves s s' \<Longrightarrow> module_inv s \<Longrightarrow> module_inv s'"
proof (induction rule: module_moves.induct)
  case (turn sk got s st w)
  then show ?case using udp_turn_inv [of sk got "mr_reuse s" "mr_world s" st w] by (simp add: module_inv_def)
next
  case (leave sk s w)
  then have "world_inv w"
    by (intro udp_loop_inv [OF leave.hyps]) (simp_all add: module_inv_def)
  then show ?case by (simp add: module_inv_def reusing_def spare_def)
next
  case (notify event dev s r w)
  with NetDevNotifier_inv [OF _ notify.hyps] show ?case by (simp add: module_inv_def)
next
  case (stop q s w)
  with stop_executor_inv [OF _ stop.hyps] show ?case by (simp add: module_inv_def)
next
  case (execute q k s r w)
  with execute_task_inv [OF _ execute.hyps] show ?case by (simp add: module_inv_def)
qed

lemma module_starts_inv:
  assumes "module_starts s"
  shows "module_inv s"
  using assms by (auto simp: module_starts_def module_inv_def init_queue_def world_inv_def wf_socks_def
      queues_inv_def all_tasks_def spare_def reusing_def)

lemma module_reachable_inv: "module_reachable s \<Longrightarrow> module_inv s"
  by (induction rule: module_reachable.induct) (auto intro: module_starts_inv module_moves_inv)

end
