(* ===== verification/Exchange.thy ===== *)
theory Exchange
  imports Mih_System
begin

text \<open>
  A request and its acknowledgement, from the received datagram to the datagram that is
  sent back: the two tasks \<open>handle_message\<close> and \<open>handle_udp_reply\<close>, run by the executors
  of their queues.
\<close>

section \<open>The answers of the network\<close>

text \<open>What the kernel answers is not changed by the protocol.\<close>

definition net_answers :: "world \<Rightarrow> (nat \<Rightarrow> int) \<times> (nat \<Rightarrow> bool)" where
  "net_answers w = (net_ret w, net_sk w)"

lemma net_answers_update [simp]:
  "net_answers (w\<lparr>kheap := h\<rparr>) = net_answers w" "net_answers (set_queue r q w) = net_answers w"
  by (cases r; simp add: net_answers_def)+

lemma handle_message_net: "handle_message p w = Ok w' \<Longrightarrow> net_answers w' = net_answers w"
  by (auto simp: net_answers_def dispatch_only_def dest: handle_message_only)

section \<open>The acknowledgement is queued\<close>

text \<open>The two identifiers of a request from \<open>src\<close> to this node, and of the answer to it.\<close>

definition request_ids :: "u8 list \<Rightarrow> (u8 \<times> u8 list) list" where
  "request_ids src = [(SRC_MIHF_ID_TLV, src), (DST_MIHF_ID_TLV, mymihfid)]"

definition answer_ids :: "u8 list \<Rightarrow> (u8 \<times> u8 list) list" where
  "answer_ids src = [(SRC_MIHF_ID_TLV, mymihfid), (DST_MIHF_ID_TLV, src)]"

lemma ids_length:
  "length src \<le> 127 \<Longrightarrow> length (enc_tlvs (request_ids src)) = length src + 11"
  "length src \<le> 127 \<Longrightarrow> length (enc_tlvs (answer_ids src)) = length src + 11"
  by (simp_all add: request_ids_def answer_ids_def short_id_lengths mymihfid_def)

text \<open>The received request, in a buffer that may be longer than the datagram.\<close>

definition carries_request :: "received_message \<Rightarrow> nat \<Rightarrow> mih_header \<Rightarrow> u8 list \<Rightarrow> bool" where
  "carries_request p c hdr src \<longleftrightarrow>
     (\<exists>cells. rm_msg p = Blk c cells \<and> length cells < 2 ^ 31 \<and>
        holds cells 0 (enc_header hdr @ enc_tlvs (request_ids src))) \<and>
     payloadlength hdr = of_nat (length (enc_tlvs (request_ids src))) \<and>
     rm_len p = int (8 + length (enc_tlvs (request_ids src))) \<and>
     length src \<le> 127 \<and> 0 \<notin> set src"

text \<open>A queued request from the node m, for examples.\<close>

definition request_header :: mih_header where
  "request_header = zero_header\<lparr>version := 1, ackreq := 1, sid := SERVICE_MANAGEMENT,
     opcode := REQUEST, aid := MIH_REGISTER, tid := 9, payloadlength := 12\<rparr>"

text \<open>The acknowledgement of a request with this header.\<close>

definition ack_header :: "mih_header \<Rightarrow> mih_header" where
  "ack_header hdr = zero_header\<lparr>version := 1, ackrsp := 1, sid := sid hdr, opcode := opcode hdr,
     aid := aid hdr, tid := tid hdr\<rparr>"

lemma handle_message_acks:
  assumes req: "carries_request p c hdr src" and ack: "ackreq hdr = 1"
    and ext: "gains h0 (kheap w) {b, c}" and bc: "b \<noteq> c"
    and free: "\<not> locked (dispatch_queue w)" and al: "allocs_succeed (kheap w)"
  shows "\<exists>w' t rb mb m. handle_message (b, p) w = Ok w' \<and> net_answers w' = net_answers w \<and>
    queues_replies w [t] w' \<and> gains h0 (kheap w') (task_blocks t) \<and> task_ok t \<and>
    qt_task t = rh_handler (snd (rm_reply p)) \<and>
    qt_parameter t = Reply (rb, \<lparr>rp_message = Some (mb, m), rp_param = rh_param (snd (rm_reply p))\<rparr>) \<and>
    header m = ack_header hdr \<and> list_all2 is_id (tlvs m) (answer_ids src)"
proof -
  obtain cells where c: "rm_msg p = Blk c cells" "length cells < 2 ^ 31"
    "holds cells 0 (enc_header hdr @ enc_tlvs (request_ids src))"
    and pl: "payloadlength hdr = of_nat (length (enc_tlvs (request_ids src)))"
    and len: "rm_len p = int (8 + length (enc_tlvs (request_ids src)))"
    and src: "length src \<le> 127" "0 \<notin> set src"
    using req by (auto simp: carries_request_def)
  have wf: "wf_heap (kheap w)" using ext by (rule gains_wf)
  have le: "length (enc_tlvs (request_ids src)) \<le> 4088" using src(1) by (simp add: ids_length)
  have ids: "\<forall>x \<in> set (request_ids src). id_type (fst x) \<and> length (snd x) \<le> 127 \<and> 0 \<notin> set (snd x)"
    using src by (simp add: request_ids_def mymihfid_def)
  obtain us h where un: "unpack_mih_message cells (of_nat (8 + length (enc_tlvs (request_ids src))))
      stack_message (kheap w) = Ok (0, stack_message\<lparr>header := hdr\<lparr>rsvd1 := 0, rsvd2 := 0\<rparr>, tlvs := us\<rparr>, h)"
    and us: "list_all2 is_id us (request_ids src)" "owned_tlvs us" "extends (kheap w) h (tlvs_blocks us)"
    using c(3) pl le ids wf al by (rule unpack_mih_message_enc)
  define m where "m = stack_message\<lparr>header := hdr\<lparr>rsvd1 := 0, rsvd2 := 0\<rparr>, tlvs := us\<rparr>"
  have mu: "tlvs m = us" by (simp add: m_def)
  let ?w = "w\<lparr>kheap := h\<rparr>"
  have strs: "tlv_string (tlv_at m 0) src" "tlv_string (tlv_at m 1) mymihfid"
    using us(1) by (auto simp: m_def tlv_at_def request_ids_def list_all2_Cons2 is_id_def)
  obtain sc where sc: "deref (tlv_value (tlv_at m 0)) = Ok sc" "cstring sc = Ok src"
    using strs(1) by (rule tlv_stringE)
  obtain dc where dc: "deref (tlv_value (tlv_at m 1)) = Ok dc" "cstring dc = Ok mymihfid"
    using strs(2) by (rule tlv_stringE)
  have "length src \<le> 4000" "\<not> locked (dispatch_queue ?w)" "wf_heap (kheap ?w)" "allocs_succeed (kheap ?w)"
    using src(1) free extends_wf [OF wf us(3)] us(3) al by simp_all
  with sc obtain w1 t mb am where "Acknowledge (uint (sid (header m))) (uint (opcode (header m)))
      (uint (aid (header m))) (uint (tid (header m))) (tlv_value (tlv_at m 0)) (rm_reply p) ?w = Ok (0, w1)"
    and q: "dispatch_queue w1 = (dispatch_queue ?w)\<lparr>tasks := tasks (dispatch_queue ?w) @ [t],
        sem := Suc (sem (dispatch_queue ?w))\<rparr>"
    and e: "extends (kheap ?w) (kheap w1) (task_blocks t)" and tok: "task_ok t"
    and t: "qt_task t = rh_handler (snd (rm_reply p))"
      "\<exists>b. qt_parameter t = Reply (b, \<lparr>rp_message = Some (mb, am), rp_param = rh_param (snd (rm_reply p))\<rparr>)"
    and am: "header am = zero_header\<lparr>version := 1, ackrsp := 1, sid := word_of_int (uint (sid (header m))),
        opcode := word_of_int (uint (opcode (header m))), aid := word_of_int (uint (aid (header m))),
        tid := word_of_int (uint (tid (header m)))\<rparr>"
      "list_all2 is_id (tlvs am) [(SRC_MIHF_ID_TLV, mymihfid), (DST_MIHF_ID_TLV, src)]"
    by (rule Acknowledge_Ok)
  then have pr: "ProcessRequest m (rm_reply p) ?w = Ok (if accepts (header m) then 0 else - 1, w1)"
    using ProcessRequest_cases(3) [OF dc] ack by (simp add: m_def)
  have g: "gains h0 (kheap w1) (({b, c} \<union> task_blocks t) \<union> tlvs_blocks us)"
    using gains_extends(1) [OF gains_extends(1) [OF ext us(3)], of _ "task_blocks t"] e by (simp add: Un_ac)
  moreover have d: "({b, c} \<union> task_blocks t) \<inter> tlvs_blocks us = {}" "{b, c} \<inter> task_blocks t = {}"
    using gains_extends(2) [OF ext us(3)] gains_extends(2) [OF gains_extends(1) [OF ext us(3)], of _ "task_blocks t"] e
    by auto
  ultimately obtain h1 where h1: "free_tlvs us (kheap w1) = Ok h1" "gains h0 h1 ({b, c} \<union> task_blocks t)"
    using free_tlvs_gains [OF _ us(2)] by blast
  obtain h2 h3 where h3: "kfree (Some c) h1 = Ok h2" "kfree (Some b) h2 = Ok h3" "gains h0 h3 (task_blocks t)"
    using h1(2) bc d(2) by (rule kfree_two)
  have run: "handle_message (b, p) w = Ok (w1\<lparr>kheap := h3\<rparr>)"
    using c(1) un pr h1 h3 len by (simp add: handle_message_def Let_def w_kfree_def mu flip: m_def)
  from handle_message_effect [OF run ext c(1) bc c(2)] obtain ts where ts: "replies_from h0 w ts (w1\<lparr>kheap := h3\<rparr>)"
    by blast
  then have "queues_replies w [t] (w1\<lparr>kheap := h3\<rparr>)"
    using q tok by (auto simp: replies_from_def queues_replies_def)
  with run handle_message_net [OF run] h3(3) tok t am show ?thesis
    by (auto simp: ack_header_def answer_ids_def m_def)
qed

section \<open>The acknowledgement is sent\<close>

text \<open>A datagram of defined bytes.\<close>

definition datagram_of :: "sockaddr_in option \<Rightarrow> mih_header \<Rightarrow> (u8 \<times> u8 list) list \<Rightarrow> datagram" where
  "datagram_of addr hdr xs = \<lparr>dg_to = addr,
     dg_bytes = map Some (enc_header (hdr\<lparr>payloadlength := of_nat (length (enc_tlvs xs))\<rparr>) @ enc_tlvs xs)\<rparr>"

lemma send_reply_sends:
  assumes ids: "list_all2 is_id (tlvs m) xs" "\<forall>x \<in> set xs. length (snd x) \<le> 127"
    "8 + length (enc_tlvs xs) \<le> 4096"
    and al: "wf_heap (kheap w)" "allocs_succeed (kheap w)"
    and net: "0 \<le> net_ret w (net_calls w)" "net_sk w (net_calls w)"
  shows "\<exists>m' w'. send_reply m addr (Some buf) w = Ok (m', w') \<and>
    sent w' = sent w @ [datagram_of (map_option snd addr) (header m) xs]"
proof -
  let ?n = "net_calls w"
  let ?w = "w\<lparr>net_calls := Suc ?n, open_socks := insert ?n (open_socks w)\<rparr>"
  have "8 + length (enc_tlvs xs) \<le> unat (4096 :: u32)" "unat (4096 :: u32) \<le> length (replicate 4096 (None :: u8 option))"
    "unat (4096 :: u32) \<le> 4096" using ids(3) by simp_all
  with ids(1,2) obtain h1 where pk: "pack_mih_message m (replicate 4096 None) 4096 (kheap w)
      = Ok (int (8 + length (enc_tlvs xs)),
          m\<lparr>header := (header m)\<lparr>payloadlength := of_nat (length (enc_tlvs xs))\<rparr>\<rparr>,
          blit (replicate 4096 None) 0 (enc_header ((header m)\<lparr>payloadlength := of_nat (length (enc_tlvs xs))\<rparr>)
            @ enc_tlvs xs), h1)"
    using al by (rule pack_mih_message_enc)
  show ?thesis
    using net ids(3) by (simp add: send_reply_def sock_create_def net_call_def Let_def pk udp_send_def
        sock_release_def datagram_of_def blit_def del: replicate.simps)
qed

lemma handle_udp_reply_sends:
  assumes m: "rp_message rp = Some (mb, m)" "list_all2 is_id (tlvs m) xs" "\<forall>x \<in> set xs. length (snd x) \<le> 127"
    "8 + length (enc_tlvs xs) \<le> 4096"
    and ok: "param_ok (Reply (b, rp))" and ext: "gains h0 (kheap w) (param_blocks (Reply (b, rp)))"
    and al: "allocs_succeed (kheap w)" and so: "wf_socks w"
    and net: "0 \<le> net_ret w (net_calls w)" "net_sk w (net_calls w)"
  shows "\<exists>w'. handle_udp_reply (b, rp) w = Ok w' \<and> gains h0 (kheap w') {} \<and>
    sent w' = sent w @ [datagram_of (map_option snd (rp_param rp)) (header m) xs]"
proof -
  obtain buf h1 where a: "kmalloc 4096 (kheap w) = (Some buf, h1)" and eB: "extends (kheap w) h1 {buf}"
    using al by (rule kmalloc_succeedE [of _ 4096]) simp
  have wf: "wf_heap (kheap w)" using ext by (rule gains_wf)
  let ?w = "w\<lparr>kheap := h1\<rparr>"
  have al1: "wf_heap (kheap ?w)" "allocs_succeed (kheap ?w)" "wf_socks ?w"
    using extends_wf [OF wf eB] eB al so by (simp_all add: wf_socks_def)
  have "\<exists>m' w'. send_reply m (rp_param rp) (Some buf) ?w = Ok (m', w') \<and>
      sent w' = sent ?w @ [datagram_of (map_option snd (rp_param rp)) (header m) xs]"
    using m(2-4) al1(1,2) net by (intro send_reply_sends) simp_all
  then obtain m' w2 where sr: "send_reply m (rp_param rp) (Some buf) ?w = Ok (m', w2)"
    "sent w2 = sent w @ [datagram_of (map_option snd (rp_param rp)) (header m) xs]" by auto
  note eff = send_reply_effect [OF sr(1) al1(1,3)]
  have "extends h1 (kheap w2) {}" using eff by simp
  from gains_extends [OF gains_extends(1) [OF ext eB] this]
  have "gains h0 (kheap w2) (({b, mb} \<union> {buf}) \<union> tlvs_blocks (tlvs m))"
    using m(1) by (simp add: insert_commute)
  moreover have d: "({b, mb} \<union> {buf}) \<inter> tlvs_blocks (tlvs m) = {}" "buf \<notin> {b, mb}" "b \<noteq> mb" "owned_tlvs (tlvs m)"
    using gains_extends(2) [OF ext eB] m(1) ok by auto
  ultimately obtain h3 where h3: "free_tlvs (tlvs m) (kheap w2) = Ok h3" "gains h0 h3 ({b, mb} \<union> {buf})"
    using free_tlvs_gains by blast
  obtain h4 h5 where h5: "kfree (Some mb) h3 = Ok h4" "kfree (Some b) h4 = Ok h5" "gains h0 h5 {buf}"
    using h3(2) d(3) by (rule kfree_two) (use d(2) in auto)
  obtain h6 where h6: "kfree (Some buf) h5 = Ok h6" "gains h0 h6 {}"
    using kfree_gains [OF h5(3), of buf] by auto
  have "handle_udp_reply (b, rp) w = Ok (w2\<lparr>kheap := h6\<rparr>)"
    using m(1) a sr(1) eff h3(1) h5(1,2) h6(1) by (simp add: handle_udp_reply_def w_kmalloc_def w_kfree_def)
  with h6(2) sr(2) show ?thesis by simp
qed

text \<open>What is sent is what a peer unpacks.\<close>

lemma datagram_unpacked:
  assumes "\<forall>x \<in> set xs. id_type (fst x) \<and> length (snd x) \<le> 127 \<and> 0 \<notin> set (snd x)"
    and "length (enc_tlvs xs) \<le> 4088" and "wf_heap h" and "allocs_succeed h"
    and "dg_bytes d = map Some (enc_header (hdr\<lparr>payloadlength := of_nat (length (enc_tlvs xs))\<rparr>) @ enc_tlvs xs)"
  shows "\<exists>us h'. unpack_mih_message (dg_bytes d) (of_nat (length (dg_bytes d))) msg0 h
      = Ok (0, msg0\<lparr>header := hdr\<lparr>payloadlength := of_nat (length (enc_tlvs xs)), rsvd1 := 0, rsvd2 := 0\<rparr>, tlvs := us\<rparr>, h') \<and>
    list_all2 is_id us xs"
proof -
  let ?hdr = "hdr\<lparr>payloadlength := of_nat (length (enc_tlvs xs))\<rparr>"
  have "holds (dg_bytes d) 0 (enc_header ?hdr @ enc_tlvs xs)" by (simp add: assms(5) holds_def)
  moreover have "payloadlength ?hdr = of_nat (length (enc_tlvs xs))" by simp
  ultimately obtain us h' where "unpack_mih_message (dg_bytes d) (of_nat (8 + length (enc_tlvs xs))) msg0 h
      = Ok (0, msg0\<lparr>header := ?hdr\<lparr>rsvd1 := 0, rsvd2 := 0\<rparr>, tlvs := us\<rparr>, h')" "list_all2 is_id us xs"
    using assms(2,1,3,4) by (rule unpack_mih_message_enc)
  moreover have "length (dg_bytes d) = 8 + length (enc_tlvs xs)" by (simp add: assms(5))
  ultimately show ?thesis by (intro exI [of _ us] exI [of _ h']) (simp only: simp_thms)
qed

section \<open>Both executors\<close>

text \<open>An executor that passes the semaphore with a task whose call succeeds.\<close>

lemma execute_head:
  assumes "tasks (queue_of r w) = t # ts" and "\<not> locked (queue_of r w)" and "qt_task t \<noteq> poison_task"
    and "wd = down_killable r k w" and "call (qt_task t) (qt_parameter t)
      (set_queue r ((queue_of r wd)\<lparr>locked := True, tasks := ts\<rparr>) wd) = Ok w2"
    and "qt_blk t \<in> kh_live (kheap w2)"
  shows "execute_task call r k w = Ok (1, spin_unlock r
    (w2\<lparr>kheap := (kheap w2)\<lparr>kh_live := kh_live (kheap w2) - {qt_blk t}\<rparr>\<rparr>))"
  using assms by (cases k) (simp_all add: execute_task_def take_task_def spin_lock_def Let_def
      w_kfree_def kfree_def down_killable_def)

text \<open>The ledger with the blocks of a task's parameter set apart.\<close>

definition without :: "kheap \<Rightarrow> nat set \<Rightarrow> kheap" where
  "without h B = h\<lparr>kh_live := kh_live h - B\<rparr>"

lemma gains_without: "wf_heap h \<Longrightarrow> B \<subseteq> kh_live h \<Longrightarrow> gains (without h B) h B"
  by (auto simp: gains_def without_def)

lemma without_live [simp]: "kh_live (without h B) = kh_live h - B"
  by (simp add: without_def)

lemma queue_frame [simp]:
  "kheap (down_killable r k w) = kheap w" "sent (down_killable r k w) = sent w"
  "net_calls (down_killable r k w) = net_calls w" "net_answers (down_killable r k w) = net_answers w"
  "kheap (spin_unlock r w) = kheap w" "sent (spin_unlock r w) = sent w" 
  "net_calls (spin_unlock r w) = net_calls w" "net_answers (spin_unlock r w) = net_answers w"
  "open_socks (spin_unlock r w) = open_socks w" "open_socks (down_killable r k w) = open_socks w"
  "r' \<noteq> r \<Longrightarrow> queue_of r' (down_killable r k w) = queue_of r' w"
  "r' \<noteq> r \<Longrightarrow> queue_of r' (spin_unlock r w) = queue_of r' w"
  by (cases k; simp add: down_killable_def spin_unlock_def)+

text \<open>The executor of the MIHF queue at a request that asks for an acknowledgement.\<close>

lemma execute_request:
  assumes inv: "world_inv w" and q: "tasks (mihf_queue w) = t # ts" "\<not> locked (mihf_queue w)"
    and t: "qt_task t = Addr_handle_message" "qt_parameter t = Received (b, p)"
    and req: "carries_request p c hdr src" "ackreq hdr = 1"
    and d: "tasks (dispatch_queue w) = []" "\<not> locked (dispatch_queue w)" and al: "allocs_succeed (kheap w)"
  shows "\<exists>w' u rb mb m. execute_task call_handler MIHF Acquired w = Ok (1, w') \<and>
    net_answers w' = net_answers w \<and> sent w' = sent w \<and> wf_heap (kheap w') \<and> wf_socks w' \<and>
    net_calls w' = net_calls w \<and> open_socks w' = open_socks w \<and>
    tasks (mihf_queue w') = ts \<and> \<not> locked (mihf_queue w') \<and>
    tasks (dispatch_queue w') = [u] \<and> \<not> locked (dispatch_queue w') \<and> task_ok u \<and>
    qt_task u = rh_handler (snd (rm_reply p)) \<and>
    qt_parameter u = Reply (rb, \<lparr>rp_message = Some (mb, m), rp_param = rh_param (snd (rm_reply p))\<rparr>) \<and>
    header m = ack_header hdr \<and> list_all2 is_id (tlvs m) (answer_ids src) \<and>
    kh_live (kheap w') = kh_live (kheap w) - task_blocks t \<union> task_blocks u \<and>
    task_blocks u \<inter> (kh_live (kheap w) - task_blocks t) = {} \<and> kh_ok (kheap w') = kh_ok (kheap w)"
proof -
  define wd where "wd = down_killable MIHF Acquired w"
  define w1 where "w1 = set_queue MIHF ((queue_of MIHF wd)\<lparr>locked := True, tasks := ts\<rparr>) wd"
  have good: "good_task t" "task_blocks t \<subseteq> kh_live (kheap w)"
    and wf: "wf_heap (kheap w)" "wf_socks w"
    using inv q(1) by (auto simp: world_inv_def queues_inv_def all_tasks_def)
  obtain cells where c: "rm_msg p = Blk c cells" using req(1) by (auto simp: carries_request_def)
  have bc: "b \<noteq> c" "qt_blk t \<notin> {b, c}" "task_blocks t = {qt_blk t, b, c}"
    using good(1) t(2) c by (auto simp: good_task_def task_ok_def task_blocks_def)
  let ?h0 = "without (kheap w) {b, c}"
  have k1: "kheap w1 = kheap w" by (simp add: w1_def wd_def)
  have g: "gains ?h0 (kheap w1) {b, c}" unfolding k1
    using good(2) bc(3) by (intro gains_without wf) simp
  have f1: "\<not> locked (dispatch_queue w1)" "allocs_succeed (kheap w1)"
    using d(2) al k1 by (simp_all add: w1_def wd_def down_killable_def)
  obtain w2 u rb mb m where hm: "handle_message (b, p) w1 = Ok w2" and n2: "net_answers w2 = net_answers w1"
    and r2: "queues_replies w1 [u] w2" and g2: "gains ?h0 (kheap w2) (task_blocks u)" and u: "task_ok u"
    "qt_task u = rh_handler (snd (rm_reply p))"
    "qt_parameter u = Reply (rb, \<lparr>rp_message = Some (mb, m), rp_param = rh_param (snd (rm_reply p))\<rparr>)"
    and m: "header m = ack_header hdr" "list_all2 is_id (tlvs m) (answer_ids src)"
    using handle_message_acks [OF req g bc(1) f1] by blast
  let ?w' = "spin_unlock MIHF (w2\<lparr>kheap := (kheap w2)\<lparr>kh_live := kh_live (kheap w2) - {qt_blk t}\<rparr>\<rparr>)"
  have live: "qt_blk t \<in> kh_live (kheap w2)" using g2 good(2) bc by (auto simp: gains_def)
  have call: "call_handler (qt_task t) (qt_parameter t)
      (set_queue MIHF ((queue_of MIHF wd)\<lparr>locked := True, tasks := ts\<rparr>) wd) = Ok w2"
    using hm by (simp add: t w1_def)
  have run: "execute_task call_handler MIHF Acquired w = Ok (1, ?w')"
    using q t(1) by (intro execute_head [where call = call_handler, OF _ _ _ wd_def call live]) simp_all
  have hp: "kh_live (kheap ?w') = kh_live (kheap w) - task_blocks t \<union> task_blocks u"
    "task_blocks u \<inter> (kh_live (kheap w) - task_blocks t) = {}" "kh_ok (kheap ?w') = kh_ok (kheap w)"
    "wf_heap (kheap ?w')"
    using g2 bc good(2) by (auto simp: gains_def without_def wf_heap_def)
  have q2: "tasks (dispatch_queue ?w') = [u] \<and> \<not> locked (dispatch_queue ?w') \<and> tasks (mihf_queue ?w') = ts \<and>
      \<not> locked (mihf_queue ?w') \<and> sent ?w' = sent w \<and> net_calls ?w' = net_calls w \<and> open_socks ?w' = open_socks w"
    using r2 d by (simp add: queues_replies_def w1_def wd_def down_killable_def spin_unlock_def)
  then have "wf_socks ?w'" using wf(2) by (simp add: wf_socks_def)
  moreover have "net_answers ?w' = net_answers w"
    using n2 by (simp add: w1_def wd_def net_answers_def down_killable_def spin_unlock_def)
  ultimately show ?thesis using run hp q2 u m by (intro exI [of _ ?w'] exI [of _ u]) simp
qed

text \<open>The executor of the dispatch queue at a reply.\<close>

lemma execute_reply:
  assumes q: "tasks (dispatch_queue w) = [u]" "\<not> locked (dispatch_queue w)"
    and u: "qt_task u = Addr_handle_udp_reply" "qt_parameter u = Reply (b, rp)" "task_ok u"
      "task_blocks u \<subseteq> kh_live (kheap w)"
    and m: "rp_message rp = Some (mb, m)" "list_all2 is_id (tlvs m) xs" "\<forall>x \<in> set xs. length (snd x) \<le> 127"
      "8 + length (enc_tlvs xs) \<le> 4096"
    and al: "allocs_succeed (kheap w)" "wf_heap (kheap w)" "wf_socks w"
    and net: "0 \<le> net_ret w (net_calls w)" "net_sk w (net_calls w)"
  shows "\<exists>w'. execute_task call_handler DISPATCH Acquired w = Ok (1, w') \<and>
    sent w' = sent w @ [datagram_of (map_option snd (rp_param rp)) (header m) xs] \<and>
    kh_live (kheap w') = kh_live (kheap w) - task_blocks u \<and> open_socks w' = open_socks w \<and>
    tasks (dispatch_queue w') = [] \<and> mihf_queue w' = mihf_queue w"
proof -
  define wd where "wd = down_killable DISPATCH Acquired w"
  define w1 where "w1 = set_queue DISPATCH ((queue_of DISPATCH wd)\<lparr>locked := True, tasks := []\<rparr>) wd"
  let ?B = "param_blocks (Reply (b, rp))"
  have k1: "kheap w1 = kheap w" "net_calls w1 = net_calls w" "sent w1 = sent w" "open_socks w1 = open_socks w"
    "net_ret w1 = net_ret w" "net_sk w1 = net_sk w" "mihf_queue w1 = mihf_queue w"
    by (simp_all add: w1_def wd_def down_killable_def)
  have ok: "param_ok (Reply (b, rp))" "qt_blk u \<notin> ?B" using u(2,3) by (simp_all add: task_ok_def)
  have g: "gains (without (kheap w) ?B) (kheap w1) ?B" unfolding k1
    using u(2,4) by (intro gains_without al(2)) (simp add: task_blocks_def)
  have w1: "allocs_succeed (kheap w1)" "wf_socks w1" "0 \<le> net_ret w1 (net_calls w1)" "net_sk w1 (net_calls w1)"
    using al net k1 by (simp_all add: wf_socks_def)
  obtain w2 where run: "handle_udp_reply (b, rp) w1 = Ok w2"
    and g2: "gains (without (kheap w) ?B) (kheap w2) {}"
    and s2: "sent w2 = sent w1 @ [datagram_of (map_option snd (rp_param rp)) (header m) xs]"
    using handle_udp_reply_sends [OF m ok(1) g w1] by blast
  note eff = handle_udp_reply_effect [OF run w1(2) ok(1) g]
  have live: "qt_blk u \<in> kh_live (kheap w2)" using g2 ok(2) u(4) by (auto simp: gains_def task_blocks_def)
  have call: "call_handler (qt_task u) (qt_parameter u)
      (set_queue DISPATCH ((queue_of DISPATCH wd)\<lparr>locked := True, tasks := []\<rparr>) wd) = Ok w2"
    using run by (simp add: u w1_def)
  let ?w' = "spin_unlock DISPATCH (w2\<lparr>kheap := (kheap w2)\<lparr>kh_live := kh_live (kheap w2) - {qt_blk u}\<rparr>\<rparr>)"
  have "execute_task call_handler DISPATCH Acquired w = Ok (1, ?w')"
    using q u(1) by (intro execute_head [where call = call_handler, OF _ _ _ wd_def call live]) simp_all
  moreover have "kh_live (kheap ?w') = kh_live (kheap w) - task_blocks u"
    using g2 u(2) by (auto simp: gains_def task_blocks_def)
  moreover have "tasks (dispatch_queue ?w') = []" "mihf_queue ?w' = mihf_queue w"
    using eff k1(7) by (simp_all add: spin_unlock_def w1_def)
  ultimately show ?thesis using s2 eff k1 by (intro exI [of _ ?w']) simp
qed

text \<open>
  A queued request that asks for an acknowledgement is answered by the executor of the MIHF
  queue and then the executor of the dispatch queue.
\<close>

lemma request_answered:
  assumes "world_inv w" and "tasks (mihf_queue w) = t # ts" and "\<not> locked (mihf_queue w)"
    and "qt_task t = Addr_handle_message" and "qt_parameter t = Received (b, p)"
    and "carries_request p c hdr src" and "ackreq hdr = 1"
    and "snd (rm_reply p) = \<lparr>rh_handler = Addr_handle_udp_reply, rh_param = Some (a, addr)\<rparr>"
    and "tasks (dispatch_queue w) = []" and "\<not> locked (dispatch_queue w)" and "allocs_succeed (kheap w)"
    and "\<forall>i. 0 \<le> net_ret w i \<and> net_sk w i"
  shows "\<exists>w1 w2 d. execute_task call_handler MIHF Acquired w = Ok (1, w1) \<and>
    execute_task call_handler DISPATCH Acquired w1 = Ok (1, w2) \<and>
    sent w2 = sent w @ [d] \<and> dg_to d = Some addr \<and>
    (\<forall>h msg0. wf_heap h \<longrightarrow> allocs_succeed h \<longrightarrow> (\<exists>msg h'.
       unpack_mih_message (dg_bytes d) (of_nat (length (dg_bytes d))) msg0 h = Ok (0, msg, h') \<and>
       header msg = (ack_header hdr)\<lparr>payloadlength := of_nat (length (dg_bytes d) - 8)\<rparr> \<and>
       list_all2 is_id (tlvs msg) (answer_ids src))) \<and>
    tasks (mihf_queue w2) = ts \<and> tasks (dispatch_queue w2) = [] \<and> open_socks w2 = open_socks w \<and>
    kh_live (kheap w2) = kh_live (kheap w) - task_blocks t"
proof -
  obtain w1 u rb mb m where e1: "execute_task call_handler MIHF Acquired w = Ok (1, w1)"
    and n1: "net_answers w1 = net_answers w" "sent w1 = sent w" "wf_heap (kheap w1)" "wf_socks w1"
      "net_calls w1 = net_calls w" "open_socks w1 = open_socks w"
    and q1: "tasks (mihf_queue w1) = ts" "tasks (dispatch_queue w1) = [u]" "\<not> locked (dispatch_queue w1)"
    and u: "task_ok u" "qt_task u = Addr_handle_udp_reply"
      "qt_parameter u = Reply (rb, \<lparr>rp_message = Some (mb, m), rp_param = Some (a, addr)\<rparr>)"
    and m: "header m = ack_header hdr" "list_all2 is_id (tlvs m) (answer_ids src)"
    and l1: "kh_live (kheap w1) = kh_live (kheap w) - task_blocks t \<union> task_blocks u"
      "task_blocks u \<inter> (kh_live (kheap w) - task_blocks t) = {}" "kh_ok (kheap w1) = kh_ok (kheap w)"
    using execute_request [OF assms(1-7,9-11)] by (auto simp: assms(8))
  have src: "length src \<le> 127" "0 \<notin> set src" using assms(6) by (simp_all add: carries_request_def)
  have ids: "\<forall>x \<in> set (answer_ids src). id_type (fst x) \<and> length (snd x) \<le> 127 \<and> 0 \<notin> set (snd x)"
    using src by (simp add: answer_ids_def mymihfid_def)
  have len: "length (enc_tlvs (answer_ids src)) \<le> 4088" using src by (simp add: ids_length)
  have al: "allocs_succeed (kheap w1)" using assms(11) l1(3) by (simp add: allocs_succeed_def)
  have net: "0 \<le> net_ret w1 (net_calls w1)" "net_sk w1 (net_calls w1)"
    using n1(1) assms(12) by (simp_all add: net_answers_def)
  define d where "d = datagram_of (Some addr) (header m) (answer_ids src)"
  have "\<exists>w'. execute_task call_handler DISPATCH Acquired w1 = Ok (1, w') \<and> sent w' = sent w1 @ [d] \<and>
    kh_live (kheap w') = kh_live (kheap w1) - task_blocks u \<and> open_socks w' = open_socks w1 \<and>
    tasks (dispatch_queue w') = [] \<and> mihf_queue w' = mihf_queue w1"
    using execute_reply [OF q1(2,3) u(2,3,1) _ _ m(2) _ _ al n1(3,4) net] ids len l1(1)
    by (simp add: d_def)
  then obtain w2 where e2: "execute_task call_handler DISPATCH Acquired w1 = Ok (1, w2)"
    "sent w2 = sent w1 @ [d]" "kh_live (kheap w2) = kh_live (kheap w1) - task_blocks u"
    "open_socks w2 = open_socks w1" "tasks (dispatch_queue w2) = []" "mihf_queue w2 = mihf_queue w1" by blast
  have "\<exists>msg h'. unpack_mih_message (dg_bytes d) (of_nat (length (dg_bytes d))) msg0 h = Ok (0, msg, h') \<and>
       header msg = (ack_header hdr)\<lparr>payloadlength := of_nat (length (dg_bytes d) - 8)\<rparr> \<and>
       list_all2 is_id (tlvs msg) (answer_ids src)" if "wf_heap h" "allocs_succeed h" for h msg0
    using datagram_unpacked [OF ids len that, of d "header m" msg0] m(1)
    by (auto simp: d_def datagram_of_def ack_header_def zero_header_def)
  moreover have "kh_live (kheap w2) = kh_live (kheap w) - task_blocks t" using e2(3) l1 by auto
  ultimately show ?thesis using e1 e2 n1 q1(1)
    by (intro exI [of _ w1] exI [of _ w2] exI [of _ d]) (simp add: d_def datagram_of_def)
qed

section \<open>Property\<close>

text \<open>
  A link indication leaves nothing behind. A notification that calls for an
  indication, followed by the executor of the MIHF queue, queues and consumes one task
  and its unit of the semaphore; every block allocated on the way is released.
\<close>

theorem indication_leaves_nothing:
  assumes "dev_type dev = ARPHRD_ETHER" and "wireless_ok dev" and "indication_of event dev = Some f"
    and "tasks (mihf_queue w) = []" and "\<not> locked (mihf_queue w)" and "allocs_succeed (kheap w)"
    and "wf_heap (kheap w)"
  shows "\<exists>w1 w2. NetDevNotifier event dev w = Ok (0, w1) \<and>
    execute_task call_handler MIHF Acquired w1 = Ok (1, w2) \<and>
    mihf_queue w2 = mihf_queue w \<and> dispatch_queue w2 = dispatch_queue w \<and>
    kh_live (kheap w2) = kh_live (kheap w)"
proof -
  from NetDevNotifier_queues [OF assms(1,2,5-7), of event] assms(3)
  obtain w1 where n: "NetDevNotifier event dev w = Ok (0, w1)" and q: "queues_link w f dev w1" by auto
  from q obtain t b lp where t: "mihf_queue w1 = (mihf_queue w)\<lparr>tasks := tasks (mihf_queue w) @ [t],
      sem := Suc (sem (mihf_queue w))\<rparr>" "dispatch_queue w1 = dispatch_queue w" "qt_task t = f"
    "qt_parameter t = Link (b, lp)" "task_ok t" "extends (kheap w) (kheap w1) (task_blocks t)"
    by (auto simp: queues_link_def)
  have f: "f \<in> {Addr_Link_Up_indication, Addr_Link_Down_indication, Addr_Link_Going_Down_indication}"
    using assms(3) by (auto simp: indication_of_def split: if_splits)
  let ?c = "lp_link_addr lp"
  have tb: "task_blocks t = {qt_blk t, b, ?c}" "b \<noteq> ?c" "qt_blk t \<notin> {b, ?c}"
    using t(4,5) by (auto simp: task_blocks_def task_ok_def)
  have live: "kh_live (kheap w1) = kh_live (kheap w) \<union> {qt_blk t, b, ?c}" "{qt_blk t, b, ?c} \<inter> kh_live (kheap w) = {}"
    using extends_live [OF t(6)] extends_fresh [OF assms(7) t(6)] tb(1) by auto
  define wd where "wd = down_killable MIHF Acquired w1"
  define v where "v = set_queue MIHF ((queue_of MIHF wd)\<lparr>locked := True, tasks := []\<rparr>) wd"
  have k: "kheap v = kheap w1" "dispatch_queue v = dispatch_queue w" 
    by (simp_all add: v_def wd_def down_killable_def t(2))
  let ?h = "(kheap w1)\<lparr>kh_live := kh_live (kheap w1) - {?c} - {b}\<rparr>"
  have "cbind (w_kfree ?c v) (\<lambda>w. w_kfree b w) = Ok (v\<lparr>kheap := ?h\<rparr>)"
    using live(1) tb(2) by (simp add: w_kfree_def kfree_def k)
  then have call: "call_handler (qt_task t) (qt_parameter t)
      (set_queue MIHF ((queue_of MIHF wd)\<lparr>locked := True, tasks := []\<rparr>) wd) = Ok (v\<lparr>kheap := ?h\<rparr>)"
    unfolding v_def [symmetric] using f by (auto simp: t(3,4) Link_Up_indication_def
        Link_Down_indication_def Link_Going_Down_indication_def)
  have lt: "qt_blk t \<in> kh_live (kheap (v\<lparr>kheap := ?h\<rparr>))" using live tb by auto
  have "execute_task call_handler MIHF Acquired w1 = Ok (1, spin_unlock MIHF
      ((v\<lparr>kheap := ?h\<rparr>)\<lparr>kheap := (kheap (v\<lparr>kheap := ?h\<rparr>))\<lparr>kh_live := kh_live (kheap (v\<lparr>kheap := ?h\<rparr>)) - {qt_blk t}\<rparr>\<rparr>))"
    using t(1,3) assms(4,5) f by (intro execute_head [where call = call_handler, OF _ _ _ wd_def call lt]) auto
  moreover have "(mihf_queue w)\<lparr>tasks := [], locked := False\<rparr> = mihf_queue w"
    using assms(4,5) by (cases "mihf_queue w") simp
  ultimately show ?thesis
    using n k(2) live tb t(1) by (auto simp: spin_unlock_def v_def wd_def down_killable_def)
qed

end
