(* ===== verification/Mih_Safety.thy ===== *)
theory Mih_Safety
  imports Exchange
begin

text \<open>
  No block is released twice. A release of a block that is not allocated is the fault
  \<open>BadFree\<close>; no task and no thread of the module ever ends in it, whatever arrives from
  the network, whichever allocations fail and whatever the kernel answers.
\<close>

named_theorems releases

definition avoids :: "fault \<Rightarrow> 'a cres \<Rightarrow> bool" where
  "avoids e m \<longleftrightarrow> m \<noteq> Fault e"

abbreviation sound_frees :: "'a cres \<Rightarrow> bool" where
  "sound_frees \<equiv> avoids BadFree"

abbreviation no_deadlock :: "'a cres \<Rightarrow> bool" where
  "no_deadlock \<equiv> avoids Deadlock"

section \<open>Code that works on bytes only\<close>

lemma avoids_simps [simp]: "avoids e (Ok x)" "avoids e (Fault e') \<longleftrightarrow> e' \<noteq> e"
  by (simp_all add: avoids_def)

lemma sound_cbind: "avoids e m \<Longrightarrow> (\<And>x. m = Ok x \<Longrightarrow> avoids e (f x)) \<Longrightarrow> avoids e (cbind m f)"
  by (cases m) simp_all

lemma sound_then: "avoids e m \<Longrightarrow> (\<And>x. avoids e (f x)) \<Longrightarrow> avoids e (cbind m f)"
  by (cases m) simp_all

text \<open>
  The faults of the allocator and of the locks: code that only reads and writes bytes
  causes neither.
\<close>

locale managed_fault =
  fixes e :: fault
  assumes managed: "OutOfBounds \<noteq> e" "Uninit \<noteq> e" "NullDeref \<noteq> e" "Diverge \<noteq> e"
begin

lemma memory [releases]:
  "avoids e (mem_read m i)" "avoids e (mem_write m i v)" "avoids e (memcpy d i s j n)"
  "avoids e (deref p)" "avoids e (w_alloc n w)"
  using managed by (auto simp: mem_read_def mem_write_def memcpy_def w_alloc_def split: option.split prod.split)
    (cases p; auto)+

lemma strings [releases]: "avoids e (cstring m)" "avoids e (c_strcmp m n)" "avoids e (mem_or m i v)"
proof -
  show "avoids e (cstring m)"
    using managed by (induction m rule: cstring.induct) (auto intro!: sound_then)
  show "avoids e (c_strcmp m n)" using managed by (induction m n rule: c_strcmp.induct) auto
  show "avoids e (mem_or m i v)" by (auto simp: mem_or_def memory intro!: sound_then)
qed

lemma field_loops [releases]: "avoids e (plf_read m p i n v)" "avoids e (plf_emit len i k s msk m p)"
proof -
  show "avoids e (plf_read m p i n v)"
    by (induction m p i n v rule: plf_read.induct) (subst plf_read.simps, auto simp: memory intro!: sound_cbind)
  show "avoids e (plf_emit len i k s msk m p)"
    by (induction len i k s msk m p rule: plf_emit.induct) (subst plf_emit.simps, auto simp: memory intro!: sound_cbind)
qed

lemma fields [releases]:
  "avoids e (parse_variable_length_field m p n)" "avoids e (pack_variable_length_field len m p n)"
  "avoids e (unpack_mih_header m p hdr)" "avoids e (pack_mih_header hdr m p)"
  unfolding parse_variable_length_field_def pack_variable_length_field_def unpack_mih_header_def
      pack_mih_header_def Let_def
  using managed by (auto simp: memory strings field_loops intro!: sound_then split: option.split)

lemma octet_strings [releases]:
  "avoids e (pack_octet_string s m p n)" "avoids e (unpack_octet_string m p n str h)"
  unfolding pack_octet_string_def unpack_octet_string_def Let_def
  using managed by (auto simp: memory strings fields split: option.split prod.split intro!: sound_then)

lemma copies [releases]: "avoids e (fill_id_tlv b ty str w)" "avoids e (udp_recv sk got buf n)"
    "avoids e (report_wireless dev wdev)" "avoids e (udp_send sk a buf n w)"
  unfolding fill_id_tlv_def c_strcpy_def udp_recv_def report_wireless_def udp_send_def net_call_def Let_def
  using managed by (auto simp: memory strings split: arrival.split option.split intro!: sound_then)

end

interpretation bad_free: managed_fault BadFree
  by unfold_locales simp_all

interpretation deadlock: managed_fault Deadlock
  by unfold_locales simp_all

section \<open>Queuing releases nothing\<close>

lemma spin_lock_releases [releases]: "sound_frees (spin_lock r w)" "\<not> locked (queue_of r w) \<Longrightarrow> no_deadlock (spin_lock r w)"
  by (auto simp: spin_lock_def)

lemma queue_releases [releases]: "sound_frees (queue_task r f p w)" "sound_frees (queue_message m reply w)"
  by (auto simp: queue_task_def link_task_def queue_message_def releases intro!: sound_then)

lemma request_releases [releases]: "sound_frees (ProcessRequest m reply w)"
  unfolding ProcessRequest_def Acknowledge_def Let_def
  by (auto simp: releases intro!: sound_then)

section \<open>Code that releases what it owns\<close>

lemma kfree_live [releases]: "b \<in> kh_live h \<Longrightarrow> sound_frees (kfree (Some b) h)"
  by (simp add: kfree_def)

lemma unpack_mihf_id_tlv_sound:
  assumes "wf_heap h"
  shows "sound_frees (unpack_mihf_id_tlv ty len buf p h)"
proof (cases "kmalloc 32 h")
  case (Pair q h1)
  show ?thesis
  proof (cases q)
    case None
    with Pair show ?thesis by (simp add: unpack_mihf_id_tlv_def)
  next
    case (Some b)
    with Pair have ext: "extends h h1 {b}" by (auto dest: kmalloc_Some)
    have b: "b \<in> kh_live h1" "wf_heap h1"
      using extends_live [OF ext] extends_wf [OF assms ext] by auto
    have frees: "sound_frees (if s < 0 then cbind (kfree (Some b) h2) (\<lambda>h. Ok (- 1, None, h))
          else if word_of_int s \<noteq> len
          then cbind (kfree_buf string h2) (\<lambda>h. cbind (kfree (Some b) h) (\<lambda>h. Ok (- 1, None, h)))
          else Ok (s, Some \<lparr>tlv_blk = Some b, tlv_type = ty, tlv_length = len, tlv_value = string\<rparr>, h2))"
      if "unpack_octet_string buf p len Indet h1 = Ok (s, string, h2)" for s string h2
      using that
    proof (cases rule: unpack_octet_string_OkE)
      case refused
      with b show ?thesis by (auto simp: extends_def kfree_def)
    next
      case (taken r v c cells)
      with b extends_fresh [OF b(2) taken(7)] show ?thesis
        by (auto simp: extends_def kfree_def)
    qed
    show ?thesis unfolding unpack_mihf_id_tlv_def
      using Pair Some frees by (auto simp: releases intro!: sound_cbind)
  qed
qed

lemma unpack_mih_tlv_sound: "wf_heap h \<Longrightarrow> sound_frees (unpack_mih_tlv m p n h)"
  unfolding unpack_mih_tlv_def
  by (auto simp: releases unpack_mihf_id_tlv_sound split: option.split intro!: sound_then)

lemma unpack_tlvs_sound:
  "length m < 2 ^ 31 \<Longrightarrow> wf_heap h \<Longrightarrow> extends h h1 (tlvs_blocks ts) \<Longrightarrow> owned_tlvs ts \<Longrightarrow>
   sound_frees (unpack_tlvs m pos k i n ts h1)"
proof (induction m pos k i n ts h1 rule: unpack_tlvs.induct)
  case (1 m pos k i n ts h1)
  have wf1: "wf_heap h1" using "1.prems"(2,3) by (rule extends_wf)
  show ?case
  proof (subst unpack_tlvs.simps, simp, intro impI sound_cbind unpack_mih_tlv_sound wf1)
    fix x assume lt: "i < n" and x: "unpack_mih_tlv m pos k h1 = Ok x"
    obtain s t h2 where e: "x = (s, t, h2)" by (cases x)
    from unpack_mih_tlv_heap [OF x [unfolded e] wf1 "1.prems"(1)]
    consider (bad) "s = - 1" "balanced h1 h2"
      | (good) v where "1 \<le> s" "t = Some v" "owned_tlv v" "extends h1 h2 (tlv_blocks v)"
      by blast
    then show "sound_frees (case x of (s, tlv, h) \<Rightarrow>
        if s < 0 then cbind (free_tlvs ts h) (\<lambda>h. Ok (s, [], h))
        else case tlv of None \<Rightarrow> Fault Uninit
          | Some tlv \<Rightarrow> unpack_tlvs m (pos + nat s) (k - word_of_int s) (int32 (i + s)) n (ts @ [tlv]) h)"
    proof cases
      case bad
      have "extends h h2 ({} \<union> tlvs_blocks ts)" using extends_trans [OF "1.prems"(3) bad(2)] by simp
      from free_tlvs_gained [OF "1.prems"(2) this "1.prems"(4)] bad(1) e show ?thesis by auto
    next
      case (good v)
      have "extends h h2 (tlvs_blocks (ts @ [v]))"
        using extends_trans [OF "1.prems"(3) good(4)] by simp
      moreover have "owned_tlvs (ts @ [v])"
        using "1.prems"(4) good(3) extends_disjoint [OF "1.prems"(2,3) good(4)] by (simp add: owned_tlvs_append)
      ultimately show ?thesis
        using "1.IH" [OF lt x e [symmetric] refl _ good(2) "1.prems"(1,2)] good(1,2) e by simp
    qed
  qed
qed

lemma unpack_mih_message_sound:
  "wf_heap h \<Longrightarrow> length m < 2 ^ 31 \<Longrightarrow> sound_frees (unpack_mih_message m n msg h)"
  unfolding unpack_mih_message_def Let_def
  by (auto simp: releases intro!: sound_then unpack_tlvs_sound)

lemma pack_releases [releases]:
  "sound_frees (pack_mihf_id_tlv t m p n h)" "sound_frees (pack_mih_tlv t m p n h)" 
proof -
  show id: "sound_frees (pack_mihf_id_tlv t m p n h)" for t m p n h
    unfolding pack_mihf_id_tlv_def kmalloc_buf_def Let_def
    by (auto simp: releases kmalloc_def kfree_def split: if_split intro!: sound_then)
  show "sound_frees (pack_mih_tlv t m p n h)"
    unfolding pack_mih_tlv_def Let_def by (auto simp: releases id intro!: sound_then)
qed

lemma pack_message_releases [releases]:
  "sound_frees (pack_tlvs ts pos m n h)" "sound_frees (pack_mih_message msg m n h)"
proof -
  show t: "sound_frees (pack_tlvs ts pos m n h)" for ts pos m h
    by (induction ts arbitrary: pos m h) (auto simp: releases intro!: sound_then)
  show "sound_frees (pack_mih_message msg m n h)"
    unfolding pack_mih_message_def Let_def by (auto simp: releases t split: sum.split intro!: sound_then)
qed

lemma send_reply_releases [releases]: "sound_frees (send_reply m addr buffer w)"
proof -
  have sent: "open_socks w2 = open_socks w1"
    if "cbind (udp_send sk a b n w1) (\<lambda>(_, w). Ok w) = Ok w2" for sk a b n w1 w2
    using that by (auto simp: udp_send_def net_call_def split: if_splits)
  then show ?thesis
    unfolding send_reply_def sock_create_def net_call_def Let_def
    by (auto simp: releases sock_release_def split: option.split if_split_asm intro!: sound_cbind dest: sent)
qed

section \<open>Tasks\<close>

lemma handle_message_sound:
  assumes g: "gains h0 (kheap w) {b, c}" and p: "rm_msg p = Blk c cells" "b \<noteq> c" "length cells < 2 ^ 31"
  shows "sound_frees (handle_message (b, p) w)"
proof -
  have wf: "wf_heap (kheap w)" using g by (rule gains_wf)
  have mid: "sound_frees (if s < 0 then Ok (w\<lparr>kheap := h\<rparr>)
      else cbind (ProcessRequest m (rm_reply p) (w\<lparr>kheap := h\<rparr>)) (\<lambda>(_, w).
           cbind (free_tlvs (tlvs m) (kheap w)) (\<lambda>h. Ok (w\<lparr>kheap := h\<rparr>))))"
    if un: "unpack_mih_message cells n stack_message (kheap w) = Ok (s, m, h)" for n s m h
  proof (cases "s < 0")
    case False
    with unpack_message_result [OF un wf p(3)] have own: "owned_tlvs (tlvs m)"
      and ext: "extends (kheap w) h (tlvs_blocks (tlvs m))" by auto
    have "\<exists>h2. free_tlvs (tlvs m) (kheap w2) = Ok h2"
      if pr: "ProcessRequest m (rm_reply p) (w\<lparr>kheap := h\<rparr>) = Ok (z, w2)" for z w2
    proof -
      have "wf_heap (kheap (w\<lparr>kheap := h\<rparr>))" using extends_wf [OF wf ext] by simp
      from ProcessRequest_result [OF pr this] obtain ts where "replies (w\<lparr>kheap := h\<rparr>) ts w2" by blast
      then have e2: "extends h (kheap w2) (tasks_blocks ts)" by (simp add: replies_def)
      have "extends (kheap w) (kheap w2) (tasks_blocks ts \<union> tlvs_blocks (tlvs m))"
        using extends_trans [OF ext e2] by (simp add: Un_commute)
      moreover have "tasks_blocks ts \<inter> tlvs_blocks (tlvs m) = {}"
        using extends_disjoint [OF wf ext e2] by auto
      ultimately show ?thesis using free_tlvs_gained [OF wf _ own] by blast
    qed
    with False show ?thesis by (auto simp: releases intro!: sound_cbind)
  qed simp
  have last: "sound_frees (cbind (kfree (Some c) (kheap w1)) (\<lambda>h. w_kfree b (w1\<lparr>kheap := h\<rparr>)))"
    if un: "unpack_mih_message cells n stack_message (kheap w) = Ok (s, m, h)"
      and run: "(if s < 0 then Ok (w\<lparr>kheap := h\<rparr>)
        else cbind (ProcessRequest m (rm_reply p) (w\<lparr>kheap := h\<rparr>)) (\<lambda>(_, w).
             cbind (free_tlvs (tlvs m) (kheap w)) (\<lambda>h. Ok (w\<lparr>kheap := h\<rparr>)))) = Ok w1" for n s m h w1
  proof -
    from process_received [OF un run wf p(3)] obtain ts where "extends (kheap w) (kheap w1) (tasks_blocks ts)"
      by (auto simp: replies_def)
    then have "{b, c} \<subseteq> kh_live (kheap w1)" using g by (auto simp: extends_def gains_def)
    with p(2) show ?thesis by (simp add: w_kfree_def kfree_def)
  qed
  have run: "handle_message (b, p) w =
      cbind (unpack_mih_message cells (word_of_int (rm_len p)) stack_message (kheap w)) (\<lambda>(s, m, h).
      cbind (if s < 0 then Ok (w\<lparr>kheap := h\<rparr>)
        else cbind (ProcessRequest m (rm_reply p) (w\<lparr>kheap := h\<rparr>)) (\<lambda>(_, w).
             cbind (free_tlvs (tlvs m) (kheap w)) (\<lambda>h. Ok (w\<lparr>kheap := h\<rparr>)))) (\<lambda>w1.
      cbind (kfree (Some c) (kheap w1)) (\<lambda>h. w_kfree b (w1\<lparr>kheap := h\<rparr>))))"
    by (simp add: handle_message_def Let_def p(1))
  show ?thesis unfolding run
  proof (rule sound_cbind [OF unpack_mih_message_sound [OF wf p(3)]], clarify)
    fix s m h
    assume un: "unpack_mih_message cells (word_of_int (rm_len p)) stack_message (kheap w) = Ok (s, m, h)"
    show "sound_frees (cbind (if s < 0 then Ok (w\<lparr>kheap := h\<rparr>)
        else cbind (ProcessRequest m (rm_reply p) (w\<lparr>kheap := h\<rparr>)) (\<lambda>(_, w).
             cbind (free_tlvs (tlvs m) (kheap w)) (\<lambda>h. Ok (w\<lparr>kheap := h\<rparr>)))) (\<lambda>w1.
      cbind (kfree (Some c) (kheap w1)) (\<lambda>h. w_kfree b (w1\<lparr>kheap := h\<rparr>))))"
      by (rule sound_cbind [OF mid [OF un] last [OF un]])
  qed
qed

lemma handle_udp_reply_sound:
  assumes so: "wf_socks w" and ok: "param_ok (Reply (b, rp))"
    and ext: "gains h0 (kheap w) (param_blocks (Reply (b, rp)))"
  shows "sound_frees (handle_udp_reply (b, rp) w)"
proof -
  obtain mb m where m: "rp_message rp = Some (mb, m)" "b \<noteq> mb" "owned_tlvs (tlvs m)"
    "b \<notin> tlvs_blocks (tlvs m)" "mb \<notin> tlvs_blocks (tlvs m)" using ok by auto
  obtain buf h1 where a: "kmalloc 4096 (kheap w) = (buf, h1)" by fastforce
  define B where "B = set_option buf"
  have eB: "extends (kheap w) h1 B" using a by (cases buf) (auto simp: B_def dest: kmalloc_Some kmalloc_None)
  have wf: "wf_heap (kheap w)" using ext by (rule gains_wf)
  have frees: "\<exists>h3 h4 h5 h6. free_tlvs (tlvs m') (kheap w2) = Ok h3 \<and> kfree (Some mb) h3 = Ok h4 \<and>
      kfree (Some b) h4 = Ok h5 \<and> kfree buf h5 = Ok h6"
    if sr: "send_reply m (rp_param rp) buf (w\<lparr>kheap := h1\<rparr>) = Ok (m', w2)" for m' w2
  proof -
    have "wf_heap (kheap (w\<lparr>kheap := h1\<rparr>))" "wf_socks (w\<lparr>kheap := h1\<rparr>)"
      using extends_wf [OF wf eB] so by (simp_all add: wf_socks_def)
    note eff = send_reply_effect [OF sr this]
    have "extends h1 (kheap w2) {}" using eff by simp
    from gains_extends(1) [OF gains_extends(1) [OF ext eB] this]
    have "gains h0 (kheap w2) (({b, mb} \<union> B) \<union> tlvs_blocks (tlvs m))"
      using m(1) by (simp add: insert_commute Un_ac)
    moreover have d: "({b, mb} \<union> B) \<inter> tlvs_blocks (tlvs m) = {}" "{b, mb} \<inter> B = {}"
      using gains_extends(2) [OF ext eB] m by auto
    ultimately obtain h3 where h3: "free_tlvs (tlvs m) (kheap w2) = Ok h3" "gains h0 h3 ({b, mb} \<union> B)"
      using free_tlvs_gains [OF _ m(3)] by blast
    obtain h4 h5 where h5: "kfree (Some mb) h3 = Ok h4" "kfree (Some b) h4 = Ok h5" "gains h0 h5 B"
      using h3(2) m(2) d(2) by (rule kfree_two)
    have "\<exists>h6. kfree buf h5 = Ok h6"
    proof (cases buf)
      case (Some x)
      with h5(3) have "x \<in> kh_live h5" by (auto simp: B_def gains_def)
      with Some show ?thesis by (simp add: kfree_def)
    qed simp
    with h3 h5 eff show ?thesis by auto
  qed
  show ?thesis
  proof (cases "send_reply m (rp_param rp) buf (w\<lparr>kheap := h1\<rparr>)")
    case (Ok x)
    with frees [of "fst x" "snd x"] m(1) a show ?thesis
      by (cases x) (auto simp: handle_udp_reply_def w_kmalloc_def w_kfree_def)
  next
    case (Fault e)
    with send_reply_releases [of m "rp_param rp" buf "w\<lparr>kheap := h1\<rparr>"] m(1) a show ?thesis
      by (simp add: handle_udp_reply_def w_kmalloc_def)
  qed
qed

lemma call_sound:
  assumes "typed_call f p" and "f \<noteq> Addr_handle_connection" and "param_ok p"
    and "gains h0 (kheap w) (param_blocks p)" and "wf_socks w"
  shows "sound_frees (call_handler f p w)"
proof (cases p)
  case (Received pp)
  obtain b rm where pp: "pp = (b, rm)" by (cases pp)
  obtain c m where m: "rm_msg rm = Blk c m" "b \<noteq> c" "length m < 2 ^ 31" using assms(3) Received pp by auto
  have "gains h0 (kheap w) {b, c}" using assms(4) Received pp m(1) by (simp add: insert_commute)
  from handle_message_sound [OF this m] assms(1) Received pp show ?thesis by (cases f) auto
next
  case (Reply pp)
  obtain b rp where pp: "pp = (b, rp)" by (cases pp)
  with handle_udp_reply_sound [OF assms(5), of b rp h0] assms(1,3,4) Reply show ?thesis by (cases f) auto
next
  case (Link pp)
  obtain b lp where pp: "pp = (b, lp)" by (cases pp)
  have "{b, lp_link_addr lp} \<subseteq> kh_live (kheap w)" "b \<noteq> lp_link_addr lp"
    using assms(3,4) Link pp by (auto simp: gains_def)
  then have "sound_frees (cbind (w_kfree (lp_link_addr lp) w) (\<lambda>w. w_kfree b w))"
    by (simp add: w_kfree_def kfree_def)
  with assms(1) Link pp show ?thesis
    by (cases f) (auto simp: Link_Up_indication_def Link_Down_indication_def Link_Going_Down_indication_def)
next
  case (Connection s)
  with assms(1,2) show ?thesis by (cases f) auto
next
  case NULL
  with assms(1) show ?thesis by (cases f) auto
qed

text \<open>The executor of either queue.\<close>

lemma take_task_sound:
  assumes inv: "world_inv w"
  shows "sound_frees (take_task call_handler r w)"
proof (cases "tasks (queue_of r w)")
  case Nil
  then show ?thesis by (simp add: take_task_def spin_lock_def)
next
  case (Cons t ts)
  let ?L = "kh_live (kheap w)" and ?p = "qt_parameter t"
  define w1 where "w1 = set_queue r ((queue_of r w)\<lparr>locked := True, tasks := ts\<rparr>) w"
  define h0 where "h0 = without (kheap w) (param_blocks ?p)"
  have wf: "wf_heap (kheap w)" "wf_socks w" and q: "queues_inv w ?L" using inv by (simp_all add: world_inv_def)
  note hd = queues_inv_head [OF q Cons w1_def]
  have g: "gains h0 (kheap w1) (param_blocks ?p)" unfolding h0_def hd(4)
    using hd(3) by (intro gains_without wf) (simp add: task_blocks_def)
  have so: "wf_socks w1" using hd(5) wf(2) by simp
  have ok: "task_ok t" "typed_call (qt_task t) ?p" "reply_ok ?p" using hd(2) by (simp_all add: good_task_def)
  have live0: "qt_blk t \<in> kh_live h0" using hd(3) ok(1) by (auto simp: h0_def task_ok_def task_blocks_def)
  have conn: "qt_task t \<noteq> Addr_handle_connection"
    using q Cons by (cases r) (auto simp: queues_inv_def started_admits_def dispatch_admits_def)
  have mid: "sound_frees (if qt_task t = poison_task then Ok (0, w1)
      else cbind (call_handler (qt_task t) ?p w1) (\<lambda>w. Ok (1 :: int, w)))"
    using call_sound [OF ok(2) conn _ g so] ok(1) by (auto simp: task_ok_def intro!: sound_cbind)
  have fr: "sound_frees (w_kfree (qt_blk t) w2)" if run: "(if qt_task t = poison_task then Ok (0, w1)
      else cbind (call_handler (qt_task t) ?p w1) (\<lambda>w. Ok (1 :: int, w))) = Ok (z, w2)" for z w2
  proof (cases "qt_task t = poison_task")
    case True
    with run live0 g show ?thesis by (auto simp: w_kfree_def gains_def kfree_def)
  next
    case False
    with run have "call_handler (qt_task t) ?p w1 = Ok w2" by (auto elim!: cbind_OkE)
    from call_effect [OF this ok(2) False ok(3) _ g so] ok(1) obtain us where
      "gains h0 (kheap w2) (tasks_blocks us)" by (auto simp: task_ok_def)
    with live0 show ?thesis by (auto simp: w_kfree_def gains_def kfree_def)
  qed
  show ?thesis
  proof (cases "locked (queue_of r w)")
    case False
    then have run: "take_task call_handler r w = cbind (if qt_task t = poison_task then Ok (0, w1)
        else cbind (call_handler (qt_task t) ?p w1) (\<lambda>w. Ok (1, w))) (\<lambda>(result, w).
        cbind (w_kfree (qt_blk t) w) (\<lambda>w. Ok (result, spin_unlock r w)))"
      using Cons by (simp add: take_task_def spin_lock_def Let_def w1_def)
    show ?thesis unfolding run by (rule sound_cbind [OF mid]) (auto intro!: sound_then fr)
  qed (simp add: take_task_def spin_lock_def)
qed

lemma execute_task_sound: "world_inv w \<Longrightarrow> sound_frees (execute_task call_handler r k w)"
  by (simp add: execute_task_def take_task_sound)

section \<open>Threads\<close>

lemma notifier_releases [releases]: "sound_frees (NetDevNotifier event dev w)" "sound_frees (stop_executor r w)"
  unfolding NetDevNotifier_def DevLinkUp_def DevLinkDown_def DevLinkGoingDown_def
    stop_executor_def Let_def
  by (auto simp: releases split: option.split netdev_event.split intro!: sound_then)

lemma udp_turn_releases [releases]: "sound_frees (udp_turn sk got st w)"
  unfolding udp_turn_def Let_def
  by (auto simp: releases split: option.split prod.split intro!: sound_then)

lemma udp_loop_sound:
  "world_inv w \<Longrightarrow> spare w (reusing st) \<Longrightarrow> (\<forall>rx buf. st = Some (rx, buf) \<longrightarrow> buf \<notin> set_option rx) \<Longrightarrow>
   sound_frees (udp_loop sk ts st w)"
proof (induction sk ts st w rule: udp_loop.induct)
  case (2 sk ts st w)
  show ?case
  proof (cases st)
    case (Some p)
    obtain rx buf where p: "p = (rx, buf)" by (cases p)
    have "insert buf (set_option rx) \<subseteq> kh_live (kheap w)" "buf \<notin> set_option rx"
      using "2.prems" Some p by (auto simp: reusing_def spare_def)
    with Some p show ?thesis by (cases rx) (auto simp: w_kfree_def kfree_def)
  qed simp
next
  case (3 sk got ts st w)
  have "sound_frees (udp_loop sk ts st' w1)" if t: "udp_turn sk got st w = Ok (st', w1)" for st' w1
    using udp_turn_inv [OF t "3.prems"] by (intro "3.IH" [OF t refl]) simp_all
  then show ?case by (auto simp: releases intro!: sound_cbind)
qed simp

section \<open>No thread waits for a lock it holds\<close>

lemma kfree_no_deadlock [releases]: "no_deadlock (kfree p h)" "no_deadlock (kfree_buf q h)" "no_deadlock (w_kfree b w)"
proof -
  show k: "no_deadlock (kfree p h)" for p h by (simp add: kfree_def split: option.split)
  show "no_deadlock (kfree_buf q h)" by (cases q) (simp_all add: k)
  show "no_deadlock (w_kfree b w)" by (auto simp: w_kfree_def k intro!: sound_then)
qed

lemma free_tlvs_no_deadlock [releases]: "no_deadlock (free_tlvs ts h)"
  by (induction ts arbitrary: h) (auto simp: free_tlv_def releases split: option.split intro!: sound_then)

lemma unpack_no_deadlock [releases]:
  "no_deadlock (unpack_mihf_id_tlv ty len m p h)" "no_deadlock (unpack_mih_tlv m p n h)"
proof -
  show id: "no_deadlock (unpack_mihf_id_tlv ty len m p h)" for ty len m p h
    unfolding unpack_mihf_id_tlv_def by (auto simp: releases split: option.split prod.split intro!: sound_then)
  show "no_deadlock (unpack_mih_tlv m p n h)"
    unfolding unpack_mih_tlv_def by (auto simp: releases id split: option.split intro!: sound_then)
qed

lemma unpack_tlvs_no_deadlock [releases]: "no_deadlock (unpack_tlvs m pos k i n ts h)"
proof (induction m pos k i n ts h rule: unpack_tlvs.induct)
  case (1 m pos k i n ts h)
  then show ?case
    by (subst unpack_tlvs.simps) (auto simp: releases split: option.split intro!: sound_cbind)
qed

lemma unpack_message_no_deadlock [releases]: "no_deadlock (unpack_mih_message m n msg h)"
  unfolding unpack_mih_message_def Let_def by (auto simp: releases intro!: sound_then)

lemma pack_no_deadlock [releases]:
  "no_deadlock (pack_mih_tlv t m p n h)" "no_deadlock (pack_tlvs ts pos m n h)" "no_deadlock (pack_mih_message msg m n h)"
proof -
  show t: "no_deadlock (pack_mih_tlv t m p n h)" for t m p n h
    unfolding pack_mih_tlv_def pack_mihf_id_tlv_def Let_def
    by (auto simp: releases split: prod.split intro!: sound_then)
  show ts: "no_deadlock (pack_tlvs ts pos m n h)" for ts pos m h
    by (induction ts arbitrary: pos m h) (auto simp: t intro!: sound_then)
  show "no_deadlock (pack_mih_message msg m n h)"
    unfolding pack_mih_message_def Let_def by (auto simp: releases ts split: sum.split intro!: sound_then)
qed

lemma reply_no_deadlock [releases]: "no_deadlock (send_reply m addr buffer w)" "no_deadlock (handle_udp_reply p w)"
proof -
  show s: "no_deadlock (send_reply m addr buffer w)" for m addr buffer w
    unfolding send_reply_def sock_release_def sock_create_def net_call_def Let_def
    by (auto simp: releases split: option.split intro!: sound_then)
  show "no_deadlock (handle_udp_reply p w)"
    unfolding handle_udp_reply_def w_kmalloc_def Let_def
    by (auto simp: releases s split: option.split prod.split intro!: sound_then)
qed

text \<open>Queuing takes the lock of the queue it is given.\<close>

lemma queue_no_deadlock: "\<not> locked (queue_of r w) \<Longrightarrow> no_deadlock (queue_task r f p w)"
  unfolding queue_task_def link_task_def
  by (auto simp: releases intro!: sound_cbind dest!: w_alloc_Ok)

lemma queue_message_no_deadlock: "\<not> locked (dispatch_queue w) \<Longrightarrow> no_deadlock (queue_message m reply w)"
  unfolding queue_message_def
  by (auto simp: releases intro!: sound_cbind queue_no_deadlock dest!: w_alloc_Ok)

lemma Acknowledge_no_deadlock: "\<not> locked (dispatch_queue w) \<Longrightarrow> no_deadlock (Acknowledge s q a i dst reply w)"
  unfolding Acknowledge_def Let_def
  by (auto simp: releases dispatch_only_def intro!: sound_cbind queue_message_no_deadlock
      dest!: w_alloc_only fill_id_tlv_only)

lemma handle_message_no_deadlock: "\<not> locked (dispatch_queue w) \<Longrightarrow> no_deadlock (handle_message p w)"
  unfolding handle_message_def ProcessRequest_def Let_def
  by (auto simp: releases intro!: sound_then Acknowledge_no_deadlock)

lemma call_no_deadlock:
  assumes "f = Addr_handle_message \<Longrightarrow> \<not> locked (dispatch_queue w)"
  shows "no_deadlock (call_handler f p w)"
  using assms
  by (cases "(f, p, w)" rule: call_handler.cases)
    (auto simp: releases handle_message_no_deadlock handle_connection_def sock_release_def
      Link_Up_indication_def Link_Down_indication_def Link_Going_Down_indication_def
      split: option.split intro!: sound_then)

text \<open>Both locks are free between the steps of the module.\<close>

definition unlocked :: "world \<Rightarrow> bool" where
  "unlocked w \<longleftrightarrow> \<not> locked (mihf_queue w) \<and> \<not> locked (dispatch_queue w)"

text \<open>No call, no producer and no thread changes a lock.\<close>

lemma queue_task_locks: "queue_task r f p w = Ok (z, w') \<Longrightarrow> unlocked w' = unlocked w"
  by (cases r) (auto simp: queue_task_def link_task_def spin_lock_def spin_unlock_def list_add_tail_def up_def
      unlocked_def elim!: cbind_OkE split: if_splits dest!: w_alloc_Ok)

lemma unlocked_heap [simp]: "unlocked (w\<lparr>kheap := h\<rparr>) = unlocked w"
  by (simp add: unlocked_def)

lemma w_alloc_locks: "w_alloc n w = Ok (b, w') \<Longrightarrow> unlocked w' = unlocked w"
  using w_alloc_Ok by fastforce

lemma notifier_locks: "NetDevNotifier event dev w = Ok (z, w') \<Longrightarrow> unlocked w' = unlocked w"
  by (auto simp: NetDevNotifier_def DevLinkUp_def DevLinkDown_def DevLinkGoingDown_def Let_def
      elim!: cbind_OkE split: if_splits netdev_event.splits option.splits
      dest!: queue_task_locks w_alloc_locks)

lemma udp_turn_locks: "udp_turn sk got st w = Ok (st', w') \<Longrightarrow> unlocked w' = unlocked w"
  by (auto simp: udp_turn_def Let_def w_kmalloc_def elim!: cbind_OkE split: option.splits prod.splits if_splits
      dest!: queue_task_locks w_alloc_locks)

lemma udp_loop_locks: "udp_loop sk ts st w = Ok (e, w') \<Longrightarrow> unlocked w' = unlocked w"
  by (induction sk ts st w rule: udp_loop.induct)
    (force simp: w_kfree_def elim!: cbind_OkE split: option.splits dest: udp_turn_locks)+

lemma call_locks:
  assumes "call_handler f p w = Ok w'"
  shows "locked (queue_of r w') = locked (queue_of r w)"
proof (cases "(f, p, w)" rule: call_handler.cases)
  case (2 q w)
  with assms handle_message_only show ?thesis by (cases r) (fastforce simp: dispatch_only_def)+
next
  case (4 q w)
  with assms handle_udp_reply_queues [of q w w' r] show ?thesis by simp
qed (use assms release_queues in \<open>fastforce+\<close>)

lemma take_task_locks:
  assumes "take_task call_handler r w = Ok (z, w')" and "unlocked w"
  shows "unlocked w'"
proof (cases "tasks (queue_of r w)")
  case Nil
  with assms show ?thesis
    by (cases r) (auto simp: take_task_def spin_lock_def spin_unlock_def unlocked_def split: if_splits)
next
  case (Cons t ts)
  define w1 where "w1 = set_queue r ((queue_of r w)\<lparr>locked := True, tasks := ts\<rparr>) w"
  obtain w2 w3 where mid: "(if qt_task t = poison_task then Ok (0, w1)
        else cbind (call_handler (qt_task t) (qt_parameter t) w1) (\<lambda>w. Ok (1, w))) = Ok (z, w2)"
    and fr: "w_kfree (qt_blk t) w2 = Ok w3" and w': "w' = spin_unlock r w3"
    using assms(1) Cons w1_def by (rule take_task_split)
  have "locked (queue_of r' w2) = locked (queue_of r' w1)" for r'
    using mid call_locks by (auto elim!: cbind_OkE split: if_splits)
  then have "locked (queue_of r' w3) = locked (queue_of r' w1)" for r'
    using w_kfree_queue [OF fr] by simp
  from this [of MIHF] this [of DISPATCH] assms(2) show ?thesis
    by (cases r) (auto simp: w' spin_unlock_def unlocked_def w1_def)
qed

lemma unlocked_down [simp]: "unlocked (down_killable r k w) = unlocked w"
  by (cases r; cases k) (simp_all add: down_killable_def unlocked_def)

lemma module_moves_locks: "module_moves s s' \<Longrightarrow> unlocked (mr_world s) \<Longrightarrow> unlocked (mr_world s')"
proof (induction rule: module_moves.induct)
  case (execute q k s r w)
  then show ?case using take_task_locks [of q "down_killable q k (mr_world s)" r w] by (simp add: execute_task_def)
qed (auto simp: udp_turn_locks udp_loop_locks notifier_locks stop_executor_def elim!: cbind_OkE
    dest!: queue_task_locks simp del: udp_loop.simps)

lemma take_task_no_deadlock:
  assumes "unlocked w" and inv: "world_inv w"
  shows "no_deadlock (take_task call_handler r w)"
proof (cases "tasks (queue_of r w)")
  case Nil
  with assms show ?thesis by (cases r) (simp_all add: take_task_def spin_lock_def unlocked_def)
next
  case (Cons t ts)
  define w1 where "w1 = set_queue r ((queue_of r w)\<lparr>locked := True, tasks := ts\<rparr>) w"
  have l: "\<not> locked (queue_of r w)" using assms by (cases r) (simp_all add: unlocked_def)
  have run: "take_task call_handler r w = cbind (if qt_task t = poison_task then Ok (0, w1)
      else cbind (call_handler (qt_task t) (qt_parameter t) w1) (\<lambda>w. Ok (1, w))) (\<lambda>(result, w).
      cbind (w_kfree (qt_blk t) w) (\<lambda>w. Ok (result, spin_unlock r w)))"
    using Cons l by (simp add: take_task_def spin_lock_def Let_def w1_def)
  have "\<not> locked (dispatch_queue w1)" if "qt_task t = Addr_handle_message"
    using that assms Cons by (cases r) (auto simp: w1_def unlocked_def world_inv_def queues_inv_def dispatch_admits_def)
  then have "no_deadlock (call_handler (qt_task t) (qt_parameter t) w1)" by (rule call_no_deadlock)
  then show ?thesis unfolding run by (auto simp: releases intro!: sound_then)
qed

lemma reachable_unlocked: "module_reachable s \<Longrightarrow> unlocked (mr_world s)"
  by (induction rule: module_reachable.induct)
    (auto simp: module_starts_def init_queue_def unlocked_def [of "_\<lparr>mihf_queue := _, dispatch_queue := _\<rparr>"] intro: module_moves_locks)

lemma producers_no_deadlock:
  assumes "unlocked w"
  shows "no_deadlock (NetDevNotifier event dev w)" and "no_deadlock (stop_executor r w)"
    and "no_deadlock (udp_loop sk ts st w)"
proof -
  have free: "\<not> locked (queue_of r w)" if "unlocked w" for r w
    using that by (cases r) (simp_all add: unlocked_def)
  show "no_deadlock (NetDevNotifier event dev w)"
    unfolding NetDevNotifier_def DevLinkUp_def DevLinkDown_def DevLinkGoingDown_def Let_def
    using assms by (auto simp: releases split: option.split netdev_event.split
        intro!: sound_cbind queue_no_deadlock free dest!: w_alloc_locks)
  show "no_deadlock (stop_executor r w)"
    unfolding stop_executor_def using assms by (auto intro!: sound_then queue_no_deadlock free)
  have turn: "no_deadlock (udp_turn sk got st w)" if "unlocked w" for sk got st w
    unfolding udp_turn_def Let_def w_kmalloc_def
    using that by (auto simp: releases split: option.splits prod.splits
        intro!: sound_cbind queue_no_deadlock free dest!: w_alloc_locks elim!: cbind_OkE)
  from assms show "no_deadlock (udp_loop sk ts st w)"
  proof (induction sk ts st w rule: udp_loop.induct)
    case (2 sk ts st w)
    then show ?case by (auto simp: releases split: option.split intro!: sound_then)
  next
    case (3 sk got ts st w)
    have "no_deadlock (udp_loop sk ts st' w1)" if t: "udp_turn sk got st w = Ok (st', w1)" for st' w1
      using udp_turn_locks [OF t] "3.prems" by (intro "3.IH" [OF t refl]) simp
    with "3.prems" show ?case by (auto intro!: sound_cbind turn)
  qed simp
qed

text \<open>A reachable state with an indication on the MIHF queue, for examples.\<close>

abbreviation run0 :: module_run where
  "run0 \<equiv> \<lparr>mr_world = world0, mr_reuse = None, mr_senders = []\<rparr>"

lemma run0_starts: "module_starts run0"
  by (auto simp: module_starts_def init_queue_def world0_def wf_socks_def intro!: exI [of _ world0])

lemma notified_reachable:
  obtains w where "module_reachable (run0\<lparr>mr_world := w\<rparr>)" and "queues_link world0 Addr_Link_Up_indication sample_device w"
proof -
  obtain w where w: "NetDevNotifier NETDEV_UP sample_device world0 = Ok (0, w)"
    and q: "queues_link world0 Addr_Link_Up_indication sample_device w"
    using NetDevNotifier_queues [of sample_device world0 NETDEV_UP]
    by (auto simp: sample_device_def wireless_ok_def indication_of_def world0_def)
  have "module_moves run0 (run0\<lparr>mr_world := w\<rparr>)" using w by (intro module_moves.notify) simp
  with module_reachable.start [OF run0_starts] have "module_reachable (run0\<lparr>mr_world := w\<rparr>)"
    by (rule module_reachable.step)
  then show ?thesis using q by (rule that)
qed

section \<open>Properties\<close>

text \<open>
  Property C6: no block is released twice, and nothing is released that was not
  allocated: from every state the module reaches, whichever way its threads were
  interleaved, neither an executor nor a producer ends in such a release, whatever
  arrives from the network, whichever allocations fail and whatever the kernel answers.
\<close>

theorem module_no_double_free:
  assumes "module_reachable s"
  shows "execute_task call_handler r k (mr_world s) \<noteq> Fault BadFree \<and>
    udp_loop sk ts (mr_reuse s) (mr_world s) \<noteq> Fault BadFree \<and>
    NetDevNotifier event dev (mr_world s) \<noteq> Fault BadFree \<and> stop_executor r (mr_world s) \<noteq> Fault BadFree"
proof -
  have inv: "world_inv (mr_world s)" "spare (mr_world s) (reusing (mr_reuse s))"
    "\<forall>rx buf. mr_reuse s = Some (rx, buf) \<longrightarrow> buf \<notin> set_option rx"
    using module_reachable_inv [OF assms] by (simp_all add: module_inv_def)
  then have "sound_frees (udp_loop sk ts (mr_reuse s) (mr_world s))" by (rule udp_loop_sound)
  with execute_task_sound [OF inv(1), of r k] notifier_releases show ?thesis by (simp add: avoids_def)
qed

theorem module_no_double_free_witness:
  "\<exists>w. tasks (mihf_queue w) \<noteq> [] \<and> execute_task call_handler MIHF Acquired w \<noteq> Fault BadFree"
proof -
  obtain w where w: "module_reachable (run0\<lparr>mr_world := w\<rparr>)" "queues_link world0 Addr_Link_Up_indication sample_device w"
    by (rule notified_reachable)
  have "tasks (mihf_queue w) \<noteq> []" using w(2) by (auto simp: queues_link_def)
  moreover have "execute_task call_handler MIHF Acquired w \<noteq> Fault BadFree"
    using module_no_double_free [OF w(1), of MIHF Acquired, THEN conjunct1] by simp
  ultimately show ?thesis by blast
qed

text \<open>
  Property C7: no thread ever waits for a queue lock that it holds itself. From every
  state the module reaches the locks of both queues are free, and neither an executor
  (although it runs its task with the lock held) nor a producer takes a lock twice.
\<close>

theorem module_no_deadlock:
  assumes "module_reachable s"
  shows "\<not> locked (queue_of r (mr_world s)) \<and> execute_task call_handler r k (mr_world s) \<noteq> Fault Deadlock \<and>
    udp_loop sk ts (mr_reuse s) (mr_world s) \<noteq> Fault Deadlock \<and>
    NetDevNotifier event dev (mr_world s) \<noteq> Fault Deadlock \<and> stop_executor r (mr_world s) \<noteq> Fault Deadlock"
proof -
  have inv: "world_inv (mr_world s)" and un: "unlocked (mr_world s)"
    using module_reachable_inv [OF assms] reachable_unlocked [OF assms] by (simp_all add: module_inv_def)
  have "no_deadlock (execute_task call_handler r k (mr_world s))"
    unfolding execute_task_def using inv un by (intro take_task_no_deadlock) simp_all
  moreover have "\<not> locked (queue_of r (mr_world s))" using un by (cases r) (simp_all add: unlocked_def)
  ultimately show ?thesis using producers_no_deadlock [OF un] by (simp add: avoids_def)
qed

theorem module_no_deadlock_witness:
  "\<exists>w. tasks (mihf_queue w) \<noteq> [] \<and> execute_task call_handler MIHF Acquired w \<noteq> Fault Deadlock"
proof -
  obtain w where w: "module_reachable (run0\<lparr>mr_world := w\<rparr>)" "queues_link world0 Addr_Link_Up_indication sample_device w"
    by (rule notified_reachable)
  have "tasks (mihf_queue w) \<noteq> []" using w(2) by (auto simp: queues_link_def)
  moreover have "execute_task call_handler MIHF Acquired w \<noteq> Fault Deadlock"
    using module_no_deadlock [OF w(1), of MIHF Acquired, THEN conjunct2, THEN conjunct1] by simp
  ultimately show ?thesis by blast
qed

end
