(* ===== verification/Mih_Mod.thy ===== *)
theory Mih_Mod
  imports Mih_Safety
begin

text \<open>
  Loading and unloading the module (\<open>mih_mod.c\<close>), and the threads that only wait
  (\<open>DevMon\<close> of \<open>dev_mon.c\<close>, \<open>ho_eng.c\<close>). Whether the kernel registers the notifiers and
  what \<open>kthread_run\<close> answers are arguments; the answers of the socket calls come from the
  state. What the threads do to the shared state between being started and being stopped
  is the step relation of \<open>Mih_System\<close> and not repeated here.
\<close>

section \<open>State\<close>

text \<open>
  What the module keeps in a pointer to a thread: null, a thread, or an error pointer,
  which is how \<open>kthread_run\<close> reports a failure.
\<close>

datatype kthread = No_thread | Thread | Error_pointer

datatype thread = TCP_HAND | UDP_HAND | DEV_MON | MIHF_EXECUTOR | DISPATCH_EXECUTOR

text \<open>
  The globals of \<open>mih_mod.c\<close> beside the queues: the two buffers, the two identifier
  elements, the thread pointers and the stop flag; and what the kernel keeps for the
  module: the registered notifiers and the threads that have not ended.
\<close>

record module_state =
  shared :: world
  snd_buf :: "nat option"
  rcv_buf :: "nat option"
  src_mihf_id :: "mih_tlv option"
  dst_mihf_id :: "mih_tlv option"
  hand :: "thread \<Rightarrow> kthread"
  threads_should_stop :: bool
  netdev_notifier :: bool
  inaddr_notifier :: bool
  running :: "thread set"

text \<open>The module's data before it is loaded.\<close>

definition unloaded :: "world \<Rightarrow> module_state" where
  "unloaded w = \<lparr>shared = w, snd_buf = None, rcv_buf = None, src_mihf_id = None, dst_mihf_id = None,
     hand = (\<lambda>_. No_thread), threads_should_stop = False, netdev_notifier = False,
     inaddr_notifier = False, running = {}\<rparr>"

section \<open>The code\<close>

abbreviation (input) MIH_PDU_LEN :: nat where "MIH_PDU_LEN \<equiv> 65535"

definition SymbolExport :: int where
  "SymbolExport = 0"

text \<open>
  One of the two identifier elements: the structure, then its value of one byte more than
  the identifier, of which the last is not written.
\<close>

definition id_element :: "nat \<Rightarrow> u8 \<Rightarrow> world \<Rightarrow> (mih_tlv \<times> world) cres" where
  "id_element n type w =
     cbind (w_alloc n w) (\<lambda>(b, w).
     cbind (w_alloc (length mymihfid + 1) w) (\<lambda>(v, w).
     cbind (memcpy (replicate (length mymihfid + 1) None) 0 mymihfid_mem 0 (length mymihfid)) (\<lambda>cells.
     Ok (\<lparr>tlv_blk = Some b, tlv_type = type, tlv_length = of_nat (length mymihfid),
          tlv_value = Blk v cells\<rparr>, w))))"

definition mih_Init :: "module_state \<Rightarrow> (int \<times> module_state) cres" where
  "mih_Init st =
     cbind (cstring mymihfid_mem) (\<lambda>_.
     let (snd, w) = w_kmalloc MIH_PDU_LEN (shared st); (rcv, w) = w_kmalloc MIH_PDU_LEN w in
     cbind (id_element sizeof_mih_tlv_t SRC_MIHF_ID_TLV w) (\<lambda>(src, w).
     cbind (id_element (sizeof_mih_tlv_t + length mymihfid) DST_MIHF_ID_TLV w) (\<lambda>(dst, w).
     Ok (0, st\<lparr>shared := w, snd_buf := snd, rcv_buf := rcv, src_mihf_id := Some src,
               dst_mihf_id := Some dst\<rparr>))))"

text \<open>
  \<open>kthread_stop\<close>: the thread is told to stop and has ended when the call returns. An error
  pointer is followed like any other.
\<close>

definition kthread_stop :: "thread \<Rightarrow> module_state \<Rightarrow> module_state cres" where
  "kthread_stop t st =
     (case hand st t of
        No_thread \<Rightarrow> Fault NullDeref
      | Error_pointer \<Rightarrow> Fault OutOfBounds
      | Thread \<Rightarrow> Ok (st\<lparr>running := running st - {t}\<rparr>))"

text \<open>
  The wake-up of a blocked receiver: a socket, connected to the module's own port, and for
  the UDP thread a datagram of five bytes. When no socket can be created the whole
  function returns.
\<close>

definition loopback_addr :: sockaddr_in where
  "loopback_addr = \<lparr>sin_family = 2, sin_port = 4551, sin_addr = 0x7F000001\<rparr>"

definition wake_up :: "bool \<Rightarrow> world \<Rightarrow> (bool \<times> world) cres" where
  "wake_up datagram w =
     (case sock_create None w of
        (s, sk, w) \<Rightarrow>
          if s < 0 then Ok (False, w)
          else (case sk of
              None \<Rightarrow> Fault NullDeref
            | Some sk \<Rightarrow>
                (case net_call w of (_, w) \<Rightarrow>
                 cbind (if datagram
                        then cbind (udp_send sk (Some loopback_addr)
                               (map Some [0xDE, 0xAD, 0xBE, 0xEF, 0xAA]) 5 w) (\<lambda>(_, w). Ok w)
                        else Ok w) (\<lambda>w.
                 cbind (sock_release sk w) (\<lambda>w. Ok (True, w))))))"

definition kill_net_hand_threads :: "module_state \<Rightarrow> module_state cres" where
  "kill_net_hand_threads st =
     cbind (if hand st TCP_HAND \<noteq> No_thread
            then cbind (wake_up False (shared st)) (\<lambda>(ok, w).
                 if ok then cbind (kthread_stop TCP_HAND (st\<lparr>shared := w\<rparr>)) (\<lambda>st. Ok (True, st))
                 else Ok (False, st\<lparr>shared := w\<rparr>))
            else Ok (True, st)) (\<lambda>(go, st).
     if go \<and> hand st UDP_HAND \<noteq> No_thread
     then cbind (wake_up True (shared st)) (\<lambda>(ok, w).
          if ok then kthread_stop UDP_HAND (st\<lparr>shared := w\<rparr>) else Ok (st\<lparr>shared := w\<rparr>))
     else Ok st)"

text \<open>
  \<open>stop_executor\<close> with its \<open>kthread_stop\<close>: the poison is queued, and the call returns when
  the executor has consumed its queue up to it; one turn more than units of the semaphore
  is enough for that.
\<close>

definition end_executor :: "thread \<Rightarrow> queue_ref \<Rightarrow> module_state \<Rightarrow> module_state cres" where
  "end_executor t r st =
     cbind (stop_executor r (shared st)) (\<lambda>w.
     cbind (kthread_stop t (st\<lparr>shared := w\<rparr>)) (\<lambda>st.
     cbind (task_executor call_handler r (Suc (sem (queue_of r w))) w) (\<lambda>e.
     case e of Returns w \<Rightarrow> Ok (st\<lparr>shared := w\<rparr>) | _ \<Rightarrow> Fault Diverge)))"

definition stop_threads :: "module_state \<Rightarrow> module_state cres" where
  "stop_threads st =
     cbind (kill_net_hand_threads (st\<lparr>threads_should_stop := True\<rparr>)) (\<lambda>st.
     cbind (if hand st DEV_MON \<noteq> No_thread then kthread_stop DEV_MON st else Ok st) (\<lambda>st.
     cbind (if hand st MIHF_EXECUTOR \<noteq> No_thread then end_executor MIHF_EXECUTOR MIHF st else Ok st) (\<lambda>st.
     if hand st DISPATCH_EXECUTOR \<noteq> No_thread then end_executor DISPATCH_EXECUTOR DISPATCH st else Ok st)))"

text \<open>\<open>kthread_run\<close> for a list of threads, up to the first answer that is null.\<close>

fun start_threads :: "thread list \<Rightarrow> (thread \<Rightarrow> kthread) \<Rightarrow> module_state \<Rightarrow> bool \<times> module_state" where
  "start_threads [] run st = (True, st)"
| "start_threads (t # ts) run st =
     (let st = st\<lparr>hand := (hand st)(t := run t),
                  running := (if run t = Thread then insert t (running st) else running st)\<rparr> in
      if run t = No_thread then (False, st) else start_threads ts run st)"

text \<open>
  The kernel's answers: whether it refuses each notifier, and what each \<open>kthread_run\<close>
  returns. The TCP thread is not started: its line is a comment.
\<close>

definition mod_Start ::
    "bool \<Rightarrow> bool \<Rightarrow> (thread \<Rightarrow> kthread) \<Rightarrow> module_state \<Rightarrow> (int \<times> module_state) cres" where
  "mod_Start refuse_netdev refuse_inaddr run st =
     (let err = SymbolExport in
      if err \<noteq> 0 then Ok (err, st)
      else cbind (mih_Init st) (\<lambda>(err, st).
        if err \<noteq> 0 then Ok (err, st)
        else
          let st = st\<lparr>shared := snd (init_queue MIHF (shared st))\<rparr>;
              st = st\<lparr>shared := snd (init_queue DISPATCH (shared st))\<rparr> in
          if refuse_netdev then Ok (- 1, st)
          else let st = st\<lparr>netdev_notifier := True\<rparr> in
            if refuse_inaddr then Ok (- 1, st)
            else let st = st\<lparr>inaddr_notifier := True\<rparr> in
              (case start_threads [UDP_HAND, DEV_MON, MIHF_EXECUTOR, DISPATCH_EXECUTOR] run st of
                 (started, st) \<Rightarrow>
                   if started then Ok (0, st)
                   else cbind (stop_threads st) (\<lambda>st. Ok (err, st)))))"

definition mod_End :: "module_state \<Rightarrow> module_state cres" where
  "mod_End st =
     cbind (stop_threads st) (\<lambda>st.
     let st = st\<lparr>netdev_notifier := False, inaddr_notifier := False\<rparr> in
     cbind (kfree (snd_buf st) (kheap (shared st))) (\<lambda>h.
     cbind (kfree (rcv_buf st) h) (\<lambda>h.
     cbind (case src_mihf_id st of None \<Rightarrow> Ok h | Some t \<Rightarrow> kfree (tlv_blk t) h) (\<lambda>h.
     cbind (case dst_mihf_id st of None \<Rightarrow> Ok h | Some t \<Rightarrow> kfree (tlv_blk t) h) (\<lambda>h.
     Ok (st\<lparr>shared := (shared st)\<lparr>kheap := h\<rparr>\<rparr>))))))"

text \<open>
  The bodies of the threads that only wait: the device monitor and the handover engine
  sleep and ask whether to stop. The answers are an argument; the result is \<open>None\<close> while
  they all were no.
\<close>

definition GetIf :: int where
  "GetIf = 0"

fun sleep_until_stopped :: "bool list \<Rightarrow> int option" where
  "sleep_until_stopped [] = None"
| "sleep_until_stopped (kthread_should_stop # answers) =
     (if kthread_should_stop then Some 0 else sleep_until_stopped answers)"

definition DevMon :: "bool list \<Rightarrow> int option" where
  "DevMon answers = (let found = GetIf in sleep_until_stopped answers)"

definition HOEngine :: "bool list \<Rightarrow> int option" where
  "HOEngine answers = sleep_until_stopped answers"

lemma sleep_until_stopped_ends: "sleep_until_stopped answers = (if True \<in> set answers then Some 0 else None)"
  by (induction answers) auto

section \<open>Loading\<close>

text \<open>
  The module's own blocks while it is loaded: the two buffers (none where the allocator
  refused), the two identifier elements, and the values these point to.
\<close>

definition buffer_blocks :: "module_state \<Rightarrow> nat set" where
  "buffer_blocks st = set_option (snd_buf st) \<union> set_option (rcv_buf st)"

definition loaded :: "kheap \<Rightarrow> module_state \<Rightarrow> nat \<Rightarrow> nat \<Rightarrow> bool" where
  "loaded h st v1 v2 \<longleftrightarrow>
     (\<exists>b1 b2 t1 t2. src_mihf_id st = Some t1 \<and> dst_mihf_id st = Some t2 \<and>
        tlv_blk t1 = Some b1 \<and> tlv_blk t2 = Some b2 \<and>
        tlv_value t1 = Blk v1 (map Some mymihfid @ [None]) \<and>
        tlv_value t2 = Blk v2 (map Some mymihfid @ [None]) \<and>
        distinct [b1, v1, b2, v2] \<and> buffer_blocks st \<inter> {b1, v1, b2, v2} = {} \<and>
        (snd_buf st = None \<or> snd_buf st \<noteq> rcv_buf st) \<and>
        gains h (kheap (shared st)) (buffer_blocks st \<union> {b1, v1, b2, v2}))"

lemma id_element_Ok:
  assumes "allocs_succeed (kheap w)" and "n \<le> 4096"
  obtains b v h where "id_element n ty w = Ok (\<lparr>tlv_blk = Some b, tlv_type = ty,
      tlv_length = of_nat (length mymihfid), tlv_value = Blk v (map Some mymihfid @ [None])\<rparr>, w\<lparr>kheap := h\<rparr>)"
    and "extends (kheap w) h {b, v}" and "b \<noteq> v"
proof -
  obtain b h1 where 1: "w_alloc n w = Ok (b, w\<lparr>kheap := h1\<rparr>)" "extends (kheap w) h1 {b}"
    using assms by (rule w_alloc_succeeds)
  have "allocs_succeed (kheap (w\<lparr>kheap := h1\<rparr>))" using assms(1) 1(2) by simp
  moreover have "length mymihfid + 1 \<le> 4096" by (simp add: mymihfid_def)
  ultimately obtain v h2 where 2: "w_alloc (length mymihfid + 1) (w\<lparr>kheap := h1\<rparr>) = Ok (v, w\<lparr>kheap := h1, kheap := h2\<rparr>)"
    "extends (kheap (w\<lparr>kheap := h1\<rparr>)) h2 {v}" by (rule w_alloc_succeeds)
  have cp: "memcpy (replicate (length mymihfid + 1) None) 0 mymihfid_mem 0 (length mymihfid) =
      Ok (map Some mymihfid @ [None])"
    by (simp add: memcpy_def mymihfid_mem_def mymihfid_def zstr_def)
  have "b \<noteq> v" using 1(2) 2(2) by (auto simp: extends_def)
  moreover have "extends (kheap w) h2 {b, v}" using extends_trans [OF 1(2)] 2(2) by (simp add: insert_commute)
  ultimately show ?thesis using 1(1) 2(1) cp by (intro that) (simp_all add: id_element_def)
qed

lemma mih_Init_Ok:
  assumes wf: "wf_heap (kheap (shared st))" and ok: "allocs_succeed (kheap (shared st))"
  obtains snd rcv t1 t2 h v1 v2
    where "mih_Init st = Ok (0, st\<lparr>shared := (shared st)\<lparr>kheap := h\<rparr>, snd_buf := snd, rcv_buf := rcv,
        src_mihf_id := Some t1, dst_mihf_id := Some t2\<rparr>)"
      and "loaded (kheap (shared st)) (st\<lparr>shared := (shared st)\<lparr>kheap := h\<rparr>, snd_buf := snd, rcv_buf := rcv,
        src_mihf_id := Some t1, dst_mihf_id := Some t2\<rparr>) v1 v2"
      and "allocs_succeed h"
proof -
  let ?w = "shared st" and ?h = "kheap (shared st)"
  obtain snd h1 where 1: "kmalloc 65535 ?h = (snd, h1)" by fastforce
  obtain rcv h2 where 2: "kmalloc 65535 h1 = (rcv, h2)" by fastforce
  have e1: "extends ?h h1 (set_option snd)" using 1 by (cases snd) (auto dest: kmalloc_Some kmalloc_None)
  have e2: "extends h1 h2 (set_option rcv)" using 2 by (cases rcv) (auto dest: kmalloc_Some kmalloc_None)
  note e12 = extends_trans [OF e1 e2]
  have ok2: "allocs_succeed (kheap (?w\<lparr>kheap := h2\<rparr>))" using e12 ok by simp
  then obtain b1 v1 h3 where 3: "id_element 32 SRC_MIHF_ID_TLV (?w\<lparr>kheap := h2\<rparr>) =
      Ok (\<lparr>tlv_blk = Some b1, tlv_type = SRC_MIHF_ID_TLV, tlv_length = of_nat (length mymihfid),
        tlv_value = Blk v1 (map Some mymihfid @ [None])\<rparr>, ?w\<lparr>kheap := h2, kheap := h3\<rparr>)"
    and e3: "extends (kheap (?w\<lparr>kheap := h2\<rparr>)) h3 {b1, v1}" and n1: "b1 \<noteq> v1"
    by (rule id_element_Ok [of "?w\<lparr>kheap := h2\<rparr>" 32]) simp
  have "allocs_succeed (kheap (?w\<lparr>kheap := h3\<rparr>))" using e3 ok2 by simp
  moreover have "32 + length mymihfid \<le> 4096" by (simp add: mymihfid_def)
  ultimately obtain b2 v2 h4 where 4: "id_element (32 + length mymihfid) DST_MIHF_ID_TLV (?w\<lparr>kheap := h3\<rparr>) =
      Ok (\<lparr>tlv_blk = Some b2, tlv_type = DST_MIHF_ID_TLV, tlv_length = of_nat (length mymihfid),
        tlv_value = Blk v2 (map Some mymihfid @ [None])\<rparr>, ?w\<lparr>kheap := h3, kheap := h4\<rparr>)"
    and e4: "extends (kheap (?w\<lparr>kheap := h3\<rparr>)) h4 {b2, v2}" and n2: "b2 \<noteq> v2"
    by (rule id_element_Ok)
  have e34: "extends h2 h4 ({b1, v1} \<union> {b2, v2})" using extends_trans [of h2 h3 "{b1, v1}" h4 "{b2, v2}"] e3 e4 by simp
  have d: "set_option snd \<inter> set_option rcv = {}" "{b1, v1} \<inter> {b2, v2} = {}"
      "(set_option snd \<union> set_option rcv) \<inter> ({b1, v1} \<union> {b2, v2}) = {}"
    using extends_disjoint [OF wf e1 e2] extends_disjoint [OF _ _ e4] extends_wf [OF wf e12] e3
      extends_disjoint [OF wf e12 e34] by auto
  have "gains ?h h4 ((set_option snd \<union> set_option rcv) \<union> ({b1, v1} \<union> {b2, v2}))"
    using gains_extends(1) [OF gains_extends(1) [OF gains_refl [OF wf] e12] e34] by simp
  then show ?thesis
    using 1 2 3 4 n1 n2 d ok2 e34
    by (intro that [where h = h4 and snd = snd and rcv = rcv and ?v1.0 = v1 and ?v2.0 = v2])
      (auto simp: mih_Init_def Let_def w_kmalloc_def loaded_def buffer_blocks_def insert_commute Un_commute)
qed

text \<open>The threads of a loaded module; the TCP thread is never started.\<close>

abbreviation (input) started :: "thread set" where
  "started \<equiv> {UDP_HAND, DEV_MON, MIHF_EXECUTOR, DISPATCH_EXECUTOR}"

definition idle :: "world \<Rightarrow> bool" where
  "idle w \<longleftrightarrow> (\<forall>r. queue_of r w = \<lparr>tasks = [], sem = 0, locked = False\<rparr>)"

definition operating :: "kheap \<Rightarrow> module_state \<Rightarrow> nat \<Rightarrow> nat \<Rightarrow> bool" where
  "operating h st v1 v2 \<longleftrightarrow>
     loaded h st v1 v2 \<and> hand st = (\<lambda>t. if t \<in> started then Thread else No_thread) \<and>
     running st = started \<and> netdev_notifier st \<and> inaddr_notifier st \<and> \<not> threads_should_stop st"

lemma init_queues:
  fixes w :: world
  defines "w' \<equiv> snd (init_queue DISPATCH (snd (init_queue MIHF w)))"
  shows "idle w'" "kheap w' = kheap w" "sent w' = sent w" "open_socks w' = open_socks w"
    "net_calls w' = net_calls w" "net_answers w' = net_answers w"
proof -
  have "queue_of r w' = \<lparr>tasks = [], sem = 0, locked = False\<rparr>" for r
    by (cases r) (simp_all add: w'_def init_queue_def)
  then show "idle w'" by (simp add: idle_def)
qed (simp_all add: w'_def init_queue_def net_answers_def)

text \<open>The module up to the creation of its threads.\<close>

definition prepared :: "world \<Rightarrow> module_state \<Rightarrow> bool" where
  "prepared w st \<longleftrightarrow>
     idle (shared st) \<and> allocs_succeed (kheap (shared st)) \<and> sent (shared st) = sent w \<and>
     open_socks (shared st) = open_socks w \<and> net_calls (shared st) = net_calls w \<and>
     net_answers (shared st) = net_answers w \<and> netdev_notifier st \<and> inaddr_notifier st \<and> \<not> threads_should_stop st"

lemma mod_Start_threads:
  assumes "wf_heap (kheap w)" and "allocs_succeed (kheap w)"
  obtains st v1 v2 where "mod_Start False False run (unloaded w) =
      (case start_threads [UDP_HAND, DEV_MON, MIHF_EXECUTOR, DISPATCH_EXECUTOR] run st of
         (ok, st) \<Rightarrow> if ok then Ok (0, st) else cbind (stop_threads st) (\<lambda>st. Ok (0, st)))"
    and "loaded (kheap w) st v1 v2" and "prepared w st" and "hand st = (\<lambda>_. No_thread)" and "running st = {}"
proof -
  have "wf_heap (kheap (shared (unloaded w)))" "allocs_succeed (kheap (shared (unloaded w)))"
    using assms by (simp_all add: unloaded_def)
  then obtain s r t1 t2 h v1 v2 where
    "mih_Init (unloaded w) = Ok (0, (unloaded w)\<lparr>shared := (shared (unloaded w))\<lparr>kheap := h\<rparr>, snd_buf := s,
        rcv_buf := r, src_mihf_id := Some t1, dst_mihf_id := Some t2\<rparr>)"
    "loaded (kheap (shared (unloaded w))) ((unloaded w)\<lparr>shared := (shared (unloaded w))\<lparr>kheap := h\<rparr>,
        snd_buf := s, rcv_buf := r, src_mihf_id := Some t1, dst_mihf_id := Some t2\<rparr>) v1 v2"
    "allocs_succeed h" by (rule mih_Init_Ok)
  note init = this [unfolded unloaded_def, simplified]
  note q = init_queues [of "w\<lparr>kheap := h\<rparr>"]
  show ?thesis
    by (rule that [of "(unloaded w)\<lparr>shared := snd (init_queue DISPATCH (snd (init_queue MIHF (w\<lparr>kheap := h\<rparr>)))),
        snd_buf := s, rcv_buf := r, src_mihf_id := Some t1, dst_mihf_id := Some t2, netdev_notifier := True,
        inaddr_notifier := True\<rparr>" v1 v2])
      (use init q in \<open>simp_all add: mod_Start_def SymbolExport_def unloaded_def Let_def loaded_def
        buffer_blocks_def net_answers_def prepared_def\<close>)
qed

lemma mod_Start_Ok:
  assumes "wf_heap (kheap w)" and "allocs_succeed (kheap w)"
  obtains st v1 v2 where "mod_Start False False (\<lambda>_. Thread) (unloaded w) = Ok (0, st)"
    and "operating (kheap w) st v1 v2" and "prepared w st"
proof (rule mod_Start_threads [OF assms, of "\<lambda>_. Thread"])
  fix st v1 v2
  assume start: "mod_Start False False (\<lambda>_. Thread) (unloaded w) =
      (case start_threads [UDP_HAND, DEV_MON, MIHF_EXECUTOR, DISPATCH_EXECUTOR] (\<lambda>_. Thread) st of
         (ok, st) \<Rightarrow> if ok then Ok (0, st) else cbind (stop_threads st) (\<lambda>st. Ok (0, st)))"
    and l: "loaded (kheap w) st v1 v2" and p: "prepared w st" and h: "hand st = (\<lambda>_. No_thread)" and r: "running st = {}"
  let ?st = "st\<lparr>hand := \<lambda>t. if t \<in> started then Thread else No_thread, running := started\<rparr>"
  have "start_threads [UDP_HAND, DEV_MON, MIHF_EXECUTOR, DISPATCH_EXECUTOR] (\<lambda>_. Thread) st = (True, ?st)"
    by (simp add: Let_def h r insert_commute fun_upd_def cong: if_cong) (simp add: fun_eq_iff)
  with start l p show thesis
    by (intro that [of ?st v1 v2]) (simp_all add: operating_def loaded_def buffer_blocks_def prepared_def)
qed

section \<open>Unloading\<close>

lemma wake_up_Ok:
  assumes "0 \<le> net_ret w (net_calls w)" and "wf_socks w"
  obtains n where "wake_up datagram w = Ok (True, w\<lparr>net_calls := n, sent := sent w @
      (if datagram \<and> net_sk w (net_calls w)
       then [\<lparr>dg_to = Some loopback_addr, dg_bytes = map Some [0xDE, 0xAD, 0xBE, 0xEF, 0xAA]\<rparr>] else [])\<rparr>)"
proof -
  have "net_calls w \<notin> open_socks w" using assms(2) by (auto simp: wf_socks_def)
  then show ?thesis using assms(1)
    by (intro that [of "net_calls w + (if datagram \<and> net_sk w (net_calls w) then 3 else 2)"])
      (auto simp: wake_up_def sock_create_def net_call_def Let_def udp_send_def size_of_int_def sock_release_def)
qed

lemma end_executor_Ok:
  assumes "hand st t = Thread" and "queue_of r (shared st) = \<lparr>tasks = [], sem = 0, locked = False\<rparr>"
    and "wf_heap (kheap (shared st))" and "allocs_succeed (kheap (shared st))"
  obtains h where "end_executor t r st = Ok (st\<lparr>shared := (shared st)\<lparr>kheap := h\<rparr>, running := running st - {t}\<rparr>)"
    and "balanced (kheap (shared st)) h"
proof -
  let ?w = "shared st"
  obtain b h where a: "kmalloc 32 (kheap ?w) = (Some b, h)"
    using assms(4) by (rule kmalloc_succeedE [of _ 32]) simp_all
  obtain h' where f: "kfree (Some b) h = Ok h'" "balanced (kheap ?w) h'"
    using assms(3) a by (rule kmalloc_kfree)
  show ?thesis
    by (rule that [OF _ f(2)]) (use assms(1,2) a f(1) in \<open>cases r; simp add: end_executor_def stop_executor_def
      queue_task_def link_task_def w_alloc_def w_kmalloc_def spin_lock_def spin_unlock_def list_add_tail_def up_def
      kthread_stop_def execute_task_def down_killable_def take_task_def w_kfree_def\<close>)
qed

lemma kfree_option:
  assumes "gains h h' B" and "set_option p \<subseteq> B"
  obtains h'' where "kfree p h' = Ok h''" and "gains h h'' (B - set_option p)"
  using assms kfree_gains [of h h' B] by (cases p) auto

lemma mod_End_frees:
  assumes "loaded h st v1 v2"
  obtains h1 h2 h3 h4 where "kfree (snd_buf st) (kheap (shared st)) = Ok h1" and "kfree (rcv_buf st) h1 = Ok h2"
    and "kfree (tlv_blk (the (src_mihf_id st))) h2 = Ok h3" and "kfree (tlv_blk (the (dst_mihf_id st))) h3 = Ok h4"
    and "gains h h4 {v1, v2}"
proof -
  obtain b1 b2 t1 t2 where t: "src_mihf_id st = Some t1" "dst_mihf_id st = Some t2"
      "tlv_blk t1 = Some b1" "tlv_blk t2 = Some b2"
    and d: "distinct [b1, v1, b2, v2]" "buffer_blocks st \<inter> {b1, v1, b2, v2} = {}"
      "snd_buf st = None \<or> snd_buf st \<noteq> rcv_buf st"
    and g: "gains h (kheap (shared st)) (buffer_blocks st \<union> {b1, v1, b2, v2})"
    using assms unfolding loaded_def by blast
  let ?S = "set_option (snd_buf st)" and ?R = "set_option (rcv_buf st)" and ?I = "{b1, v1, b2, v2}"
  have sep: "?S \<inter> ?R = {}" "?S \<inter> ?I = {}" "?R \<inter> ?I = {}"
    using d(2,3) by (auto simp: buffer_blocks_def)
  obtain h1 where 1: "kfree (snd_buf st) (kheap (shared st)) = Ok h1" "gains h h1 (?R \<union> ?I)"
  proof (rule kfree_option [OF g, of "snd_buf st"])
    fix h1 assume "kfree (snd_buf st) (kheap (shared st)) = Ok h1" "gains h h1 (buffer_blocks st \<union> ?I - ?S)"
    moreover have "buffer_blocks st \<union> ?I - ?S = ?R \<union> ?I" using sep by (auto simp: buffer_blocks_def)
    ultimately show thesis by (intro that) simp_all
  qed (auto simp: buffer_blocks_def)
  obtain h2 where 2: "kfree (rcv_buf st) h1 = Ok h2" "gains h h2 ?I"
  proof (rule kfree_option [OF 1(2), of "rcv_buf st"])
    fix h2 assume "kfree (rcv_buf st) h1 = Ok h2" "gains h h2 (?R \<union> ?I - ?R)"
    moreover have "?R \<union> ?I - ?R = ?I" using sep(3) by blast
    ultimately show thesis by (intro that) simp_all
  qed blast
  have "gains h h2 ({b2, b1} \<union> {v1, v2})" using 2(2) by (simp add: insert_commute)
  then obtain h3 h4 where "kfree (Some b1) h2 = Ok h3" "kfree (Some b2) h3 = Ok h4" "gains h h4 {v1, v2}"
    by (rule kfree_two) (use d(1) in auto)
  with 1(1) 2(1) t that show ?thesis by simp
qed

text \<open>
  Stopping the threads of an idle module, whichever of them were started, when a wake-up
  socket can be created.
\<close>

lemma cbind_eqI: "m = Ok x \<Longrightarrow> f x = y \<Longrightarrow> cbind m f = y"
  by simp

definition ended :: "module_state \<Rightarrow> thread \<Rightarrow> thread set" where
  "ended st t = (if hand st t = Thread then {t} else {})"

lemma ended_update [simp]:
  "ended (st\<lparr>shared := w\<rparr>) = ended st" "ended (st\<lparr>running := R\<rparr>) = ended st"
  "ended (st\<lparr>threads_should_stop := b\<rparr>) = ended st"
  by (simp_all add: ended_def fun_eq_iff)

lemma stop_net_hand:
  assumes "hand st TCP_HAND = No_thread" and "hand st UDP_HAND \<noteq> Error_pointer" and "wf_socks (shared st)"
    and "0 \<le> net_ret (shared st) (net_calls (shared st))"
  obtains w where "kill_net_hand_threads st = Ok (st\<lparr>shared := w, running := running st - ended st UDP_HAND\<rparr>)"
    and "kheap w = kheap (shared st)" and "open_socks w = open_socks (shared st)"
    and "\<And>r. queue_of r w = queue_of r (shared st)"
proof (cases "hand st UDP_HAND")
  case No_thread
  with assms(1) show ?thesis
    by (intro that [of "shared st"]) (simp_all add: kill_net_hand_threads_def ended_def)
next
  case Thread
  show ?thesis
  proof (rule wake_up_Ok [OF assms(4,3), of True])
    fix n
    let ?w = "(shared st)\<lparr>net_calls := n, sent := sent (shared st) @
      (if True \<and> net_sk (shared st) (net_calls (shared st))
       then [\<lparr>dg_to = Some loopback_addr, dg_bytes = map Some [0xDE, 0xAD, 0xBE, 0xEF, 0xAA]\<rparr>] else [])\<rparr>"
    assume "wake_up True (shared st) = Ok (True, ?w)"
    with Thread assms(1) show thesis
      by (intro that [of ?w]) (simp_all add: kill_net_hand_threads_def kthread_stop_def ended_def)
  qed
qed (use assms(2) in simp)

lemma stop_one_executor:
  assumes "hand st t \<noteq> Error_pointer" and "idle (shared st)"
    and "wf_heap (kheap (shared st))" and "allocs_succeed (kheap (shared st))"
  obtains h where "(if hand st t \<noteq> No_thread then end_executor t r st else Ok st) =
      Ok (st\<lparr>shared := (shared st)\<lparr>kheap := h\<rparr>, running := running st - ended st t\<rparr>)"
    and "balanced (kheap (shared st)) h"
proof (cases "hand st t")
  case No_thread
  then show ?thesis by (intro that [of "kheap (shared st)"]) (simp_all add: ended_def)
next
  case Thread
  from assms(2) have "queue_of r (shared st) = \<lparr>tasks = [], sem = 0, locked = False\<rparr>" by (simp add: idle_def)
  with Thread obtain h where "end_executor t r st = Ok (st\<lparr>shared := (shared st)\<lparr>kheap := h\<rparr>, running := running st - {t}\<rparr>)"
    "balanced (kheap (shared st)) h" using assms(3,4) by (rule end_executor_Ok)
  with Thread that show ?thesis by (simp add: ended_def)
qed (use assms(1) in simp)

lemma stop_rest:
  assumes kill: "kill_net_hand_threads (st\<lparr>threads_should_stop := True\<rparr>) =
      Ok (st\<lparr>threads_should_stop := True, shared := w1, running := running st - U\<rparr>)"
    and hand: "\<And>t. hand st t \<noteq> Error_pointer"
    and i1: "idle w1" "wf_heap (kheap w1)" "allocs_succeed (kheap w1)"
  obtains h where "stop_threads st = Ok (st\<lparr>threads_should_stop := True, shared := w1\<lparr>kheap := h\<rparr>,
      running := running st - U - ended st DEV_MON - ended st MIHF_EXECUTOR - ended st DISPATCH_EXECUTOR\<rparr>)"
    and "balanced (kheap w1) h"
proof -
  let ?s1 = "st\<lparr>threads_should_stop := True, shared := w1, running := running st - U\<rparr>"
  let ?s2 = "?s1\<lparr>running := running ?s1 - ended ?s1 DEV_MON\<rparr>"
  have mon: "(if hand ?s1 DEV_MON \<noteq> No_thread then kthread_stop DEV_MON ?s1 else Ok ?s1) = Ok ?s2"
    using hand [of DEV_MON] by (cases "hand st DEV_MON") (simp_all add: kthread_stop_def ended_def)
  obtain h3 where 3: "(if hand ?s2 MIHF_EXECUTOR \<noteq> No_thread then end_executor MIHF_EXECUTOR MIHF ?s2 else Ok ?s2) =
      Ok (?s2\<lparr>shared := (shared ?s2)\<lparr>kheap := h3\<rparr>, running := running ?s2 - ended ?s2 MIHF_EXECUTOR\<rparr>)"
    "balanced (kheap (shared ?s2)) h3"
    by (rule stop_one_executor [of ?s2 MIHF_EXECUTOR MIHF]) (use i1 hand in simp_all)
  let ?s3 = "?s2\<lparr>shared := (shared ?s2)\<lparr>kheap := h3\<rparr>, running := running ?s2 - ended ?s2 MIHF_EXECUTOR\<rparr>"
  have i3: "idle (w1\<lparr>kheap := h3\<rparr>)" "wf_heap h3" "allocs_succeed h3"
    using 3(2) i1 extends_wf [OF i1(2)] by (simp_all add: idle_def)
  obtain h4 where 4: "(if hand ?s3 DISPATCH_EXECUTOR \<noteq> No_thread
        then end_executor DISPATCH_EXECUTOR DISPATCH ?s3 else Ok ?s3) =
      Ok (?s3\<lparr>shared := (shared ?s3)\<lparr>kheap := h4\<rparr>, running := running ?s3 - ended ?s3 DISPATCH_EXECUTOR\<rparr>)"
    "balanced (kheap (shared ?s3)) h4"
    by (rule stop_one_executor [of ?s3 DISPATCH_EXECUTOR DISPATCH]) (use i3 hand in simp_all)
  have "stop_threads st = Ok (st\<lparr>threads_should_stop := True, shared := w1\<lparr>kheap := h4\<rparr>,
      running := running st - U - ended st DEV_MON - ended st MIHF_EXECUTOR - ended st DISPATCH_EXECUTOR\<rparr>)"
    unfolding stop_threads_def
    by (rule cbind_eqI, rule kill, rule cbind_eqI, rule mon, rule cbind_eqI, rule 3(1), rule trans, rule 4(1)) simp
  moreover have "balanced (kheap w1) h4"
    using extends_trans [of "kheap w1" h3 "{}" h4 "{}"] 3(2) 4(2) by simp
  ultimately show ?thesis by (rule that)
qed

lemma stop_threads_Ok:
  assumes tcp: "hand st TCP_HAND = No_thread" and hand: "\<And>t. hand st t \<noteq> Error_pointer"
    and idle: "idle (shared st)" and ok: "allocs_succeed (kheap (shared st))" and wf: "wf_heap (kheap (shared st))"
    and so: "wf_socks (shared st)" and net: "0 \<le> net_ret (shared st) (net_calls (shared st))"
  obtains w where "stop_threads st = Ok (st\<lparr>threads_should_stop := True, shared := w,
      running := running st - {t. hand st t = Thread}\<rparr>)"
    and "balanced (kheap (shared st)) (kheap w)" and "idle w" and "open_socks w = open_socks (shared st)"
proof -
  let ?s0 = "st\<lparr>threads_should_stop := True\<rparr>"
  obtain w1 where 1: "kill_net_hand_threads ?s0 = Ok (?s0\<lparr>shared := w1, running := running ?s0 - ended ?s0 UDP_HAND\<rparr>)"
    "kheap w1 = kheap (shared ?s0)" "open_socks w1 = open_socks (shared ?s0)"
    "\<And>r. queue_of r w1 = queue_of r (shared ?s0)"
    by (rule stop_net_hand [of ?s0]) (use tcp hand so net in simp_all)
  have i1: "idle w1" "wf_heap (kheap w1)" "allocs_succeed (kheap w1)" using 1 idle ok wf by (simp_all add: idle_def)
  obtain h where h: "stop_threads st = Ok (st\<lparr>threads_should_stop := True, shared := w1\<lparr>kheap := h\<rparr>,
      running := running st - ended st UDP_HAND - ended st DEV_MON - ended st MIHF_EXECUTOR - ended st DISPATCH_EXECUTOR\<rparr>)"
    "balanced (kheap w1) h"
    by (rule stop_rest [OF _ hand i1]) (use 1(1) in simp)
  have "running st - ended st UDP_HAND - ended st DEV_MON - ended st MIHF_EXECUTOR - ended st DISPATCH_EXECUTOR =
      running st - {t. hand st t = Thread}"
  proof (rule set_eqI)
    fix t show "t \<in> running st - ended st UDP_HAND - ended st DEV_MON - ended st MIHF_EXECUTOR -
        ended st DISPATCH_EXECUTOR \<longleftrightarrow> t \<in> running st - {t. hand st t = Thread}"
      using tcp by (cases t) (simp_all add: ended_def)
  qed
  with h 1(2,3) i1(1) show ?thesis by (intro that [of "w1\<lparr>kheap := h\<rparr>"]) (simp_all add: idle_def)
qed

lemma loaded_balanced:
  assumes "loaded h st v1 v2" and b: "balanced (kheap (shared st)) (kheap (shared st'))"
    and same: "snd_buf st' = snd_buf st" "rcv_buf st' = rcv_buf st" "src_mihf_id st' = src_mihf_id st"
      "dst_mihf_id st' = dst_mihf_id st"
  shows "loaded h st' v1 v2"
proof -
  have "gains h (kheap (shared st')) B" if "gains h (kheap (shared st)) B" for B
    using gains_extends(1) [OF that b] by simp
  moreover have "buffer_blocks st' = buffer_blocks st" using same by (simp add: buffer_blocks_def)
  ultimately show ?thesis using assms(1) unfolding loaded_def same by metis
qed

text \<open>Unloading after the threads were stopped.\<close>

lemma mod_End_stopped:
  assumes l: "loaded h st v1 v2" and stop: "stop_threads st = Ok (st\<lparr>threads_should_stop := True, shared := w, running := R\<rparr>)"
    and w: "balanced (kheap (shared st)) (kheap w)"
  obtains g where "mod_End st = Ok (st\<lparr>threads_should_stop := True, shared := w\<lparr>kheap := g\<rparr>, running := R,
      netdev_notifier := False, inaddr_notifier := False\<rparr>)" and "gains h g {v1, v2}"
proof -
  let ?s = "st\<lparr>threads_should_stop := True, shared := w, running := R, netdev_notifier := False, inaddr_notifier := False\<rparr>"
  have "loaded h ?s v1 v2" using l by (rule loaded_balanced) (use w in simp_all)
  then obtain g1 g2 g3 g4 where g: "kfree (snd_buf ?s) (kheap (shared ?s)) = Ok g1" "kfree (rcv_buf ?s) g1 = Ok g2"
    "kfree (tlv_blk (the (src_mihf_id ?s))) g2 = Ok g3" "kfree (tlv_blk (the (dst_mihf_id ?s))) g3 = Ok g4"
    "gains h g4 {v1, v2}" by (rule mod_End_frees)
  have "\<exists>t1 t2. src_mihf_id st = Some t1 \<and> dst_mihf_id st = Some t2" using l by (auto simp: loaded_def)
  with g stop show ?thesis by (intro that [of g4]) (auto simp: mod_End_def Let_def)
qed

lemma mod_End_Ok:
  assumes op: "operating h st v1 v2" and idle: "idle (shared st)" and ok: "allocs_succeed (kheap (shared st))"
    and so: "wf_socks (shared st)" and net: "0 \<le> net_ret (shared st) (net_calls (shared st))"
  obtains st' where "mod_End st = Ok st'" and "gains h (kheap (shared st')) {v1, v2}"
    and "running st' = {}" and "\<not> netdev_notifier st'" and "\<not> inaddr_notifier st'" and "idle (shared st')"
    and "open_socks (shared st') = open_socks (shared st)"
proof -
  have l: "loaded h st v1 v2" and hand: "hand st = (\<lambda>t. if t \<in> started then Thread else No_thread)"
    and run: "running st = started" using op by (simp_all add: operating_def)
  have wf: "wf_heap (kheap (shared st))" using l by (auto simp: loaded_def gains_def)
  obtain w where stop: "stop_threads st = Ok (st\<lparr>threads_should_stop := True, shared := w,
      running := running st - {t. hand st t = Thread}\<rparr>)"
    and w: "balanced (kheap (shared st)) (kheap w)" "idle w" "open_socks w = open_socks (shared st)"
    by (rule stop_threads_Ok [OF _ _ idle ok wf so net]) (simp_all add: hand)
  obtain g where "mod_End st = Ok (st\<lparr>threads_should_stop := True, shared := w\<lparr>kheap := g\<rparr>,
      running := running st - {t. hand st t = Thread}, netdev_notifier := False, inaddr_notifier := False\<rparr>)"
    "gains h g {v1, v2}" using l stop w(1) by (rule mod_End_stopped)
  moreover have "running st - {t. hand st t = Thread} = {}" using run hand by auto
  ultimately show ?thesis using w(2,3)
    by (intro that [of "st\<lparr>threads_should_stop := True, shared := w\<lparr>kheap := g\<rparr>, running := {},
        netdev_notifier := False, inaddr_notifier := False\<rparr>"]) (simp_all add: idle_def)
qed

section \<open>What loading and unloading do\<close>



text \<open>
  The values of the two elements are not strings: the byte after the identifier is never
  written.
\<close>

lemma own_ids_unterminated:
  "loaded h st v1 v2 \<Longrightarrow> \<exists>t cells. src_mihf_id st = Some t \<and> tlv_value t = Blk v1 cells \<and> cstring cells = Fault Uninit"
  by (auto simp: loaded_def mymihfid_def)

lemma start_threads_stops:
  assumes "\<And>t. t \<in> set ts \<Longrightarrow> run t \<noteq> Error_pointer" and "\<exists>t \<in> set ts. run t = No_thread"
    and "distinct ts" and "\<And>t. t \<in> set ts \<Longrightarrow> hand st t = No_thread" and "running st = {t. hand st t = Thread}"
  obtains hand' where "start_threads ts run st = (False, st\<lparr>hand := hand', running := {t. hand' t = Thread}\<rparr>)"
    and "\<And>t. t \<notin> set ts \<Longrightarrow> hand' t = hand st t" and "\<And>t. t \<in> set ts \<Longrightarrow> hand' t \<noteq> Error_pointer"
  using assms
proof (induction ts arbitrary: st thesis)
  case Nil
  then show ?case by simp
next
  case (Cons t ts)
  let ?st = "st\<lparr>hand := (hand st)(t := run t), running := {u. ((hand st)(t := run t)) u = Thread}\<rparr>"
  have run: "(if run t = Thread then insert t (running st) else running st) = {u. ((hand st)(t := run t)) u = Thread}"
    using Cons.prems(5,6) by (auto split: if_splits)
  show ?case
  proof (cases "run t = No_thread")
    case True
    show ?thesis
      by (rule Cons.prems(1) [of "(hand st)(t := run t)"]) (use True run Cons.prems(5) in \<open>auto simp: Let_def fun_upd_def\<close>)
  next
    case False
    obtain hand' where h: "start_threads ts run ?st = (False, ?st\<lparr>hand := hand', running := {t. hand' t = Thread}\<rparr>)"
      "\<And>u. u \<notin> set ts \<Longrightarrow> hand' u = hand ?st u" "\<And>u. u \<in> set ts \<Longrightarrow> hand' u \<noteq> Error_pointer"
    proof (rule Cons.IH [of ?st])
    qed (use Cons.prems False in auto)
    have "start_threads (t # ts) run st = start_threads ts run ?st" using False run by (simp add: Let_def)
    then show ?thesis
      using h h(2) [of t] Cons.prems(2) [of t] Cons.prems(4) by (intro Cons.prems(1) [of hand']) auto
  qed
qed



text \<open>
  \<open>kthread_run\<close> reports a failure by an error pointer, which the code takes
  for a thread: \<open>mod_Start\<close> answers 0 and \<open>mod_End\<close> hands the error pointer to
  \<open>kthread_stop\<close>, which follows it.
\<close>

theorem error_pointer_followed:
  assumes "wf_heap (kheap w)" and "allocs_succeed (kheap w)" and "wf_socks w"
    and "0 \<le> net_ret w (net_calls w)"
  shows "\<exists>st. mod_Start False False (\<lambda>t. if t = UDP_HAND then Error_pointer else Thread) (unloaded w) = Ok (0, st) \<and>
    UDP_HAND \<notin> running st \<and> mod_End st = Fault OutOfBounds"
proof (rule mod_Start_threads [OF assms(1,2), of "\<lambda>t. if t = UDP_HAND then Error_pointer else Thread"])
  let ?run = "\<lambda>t. if t = UDP_HAND then Error_pointer else Thread" and ?ts = "[UDP_HAND, DEV_MON, MIHF_EXECUTOR, DISPATCH_EXECUTOR]"
  fix st v1 v2
  assume start: "mod_Start False False ?run (unloaded w) =
      (case start_threads ?ts ?run st of
         (ok, st) \<Rightarrow> if ok then Ok (0, st) else cbind (stop_threads st) (\<lambda>st. Ok (0, st)))"
    and p: "prepared w st" and none: "hand st = (\<lambda>_. No_thread)" "running st = {}"
  obtain st' where s: "start_threads ?ts ?run st = (True, st')" "hand st' TCP_HAND = No_thread"
    "hand st' UDP_HAND = Error_pointer" "shared st' = shared st" "UDP_HAND \<notin> running st'"
    by (simp add: Let_def none)
  have "wf_socks (shared st)" "0 \<le> net_ret (shared st) (net_calls (shared st))"
    using p assms(3,4) by (simp_all add: prepared_def wf_socks_def net_answers_def)
  then obtain w' where "wake_up True (shared st) = Ok (True, w')" using wake_up_Ok by blast
  then have "mod_End st' = Fault OutOfBounds"
    by (simp add: mod_End_def stop_threads_def kill_net_hand_threads_def kthread_stop_def s)
  with start s(1,5) show ?thesis by auto
qed

text \<open>
  When no wake-up socket can be created, \<open>kill_net_hand_threads\<close> returns
  without stopping the UDP thread, and \<open>mod_End\<close> goes on: the module is unloaded, its
  buffers are released and its notifiers are gone, while the UDP thread still runs in it.
\<close>

theorem unload_leaves_udp_thread:
  assumes "wf_heap (kheap w)" and "allocs_succeed (kheap w)" and "net_ret w (net_calls w) < 0"
  shows "\<exists>st st'. mod_Start False False (\<lambda>_. Thread) (unloaded w) = Ok (0, st) \<and> mod_End st = Ok st' \<and>
    running st' = {UDP_HAND} \<and> \<not> netdev_notifier st' \<and> \<not> inaddr_notifier st'"
proof -
  obtain st v1 v2 where st: "mod_Start False False (\<lambda>_. Thread) (unloaded w) = Ok (0, st)"
    "operating (kheap w) st v1 v2" "prepared w st"
    using assms(1,2) by (rule mod_Start_Ok)
  have l: "loaded (kheap w) st v1 v2" and hand: "hand st = (\<lambda>t. if t \<in> started then Thread else No_thread)"
    and run: "running st = started" using st(2) by (simp_all add: operating_def)
  have real: "hand st t \<noteq> Error_pointer" for t by (simp add: hand)
  let ?w = "(shared st)\<lparr>net_calls := Suc (net_calls (shared st))\<rparr>"
  have net: "net_ret (shared st) (net_calls (shared st)) < 0"
    using st(3) assms(3) by (simp add: prepared_def net_answers_def)
  then have kill: "kill_net_hand_threads (st\<lparr>threads_should_stop := True\<rparr>) =
      Ok (st\<lparr>threads_should_stop := True, shared := ?w, running := running st - {}\<rparr>)"
    by (simp add: kill_net_hand_threads_def hand wake_up_def sock_create_def net_call_def Let_def)
  have "idle ?w" "wf_heap (kheap ?w)" "allocs_succeed (kheap ?w)"
    using st(3) l by (auto simp: prepared_def idle_def loaded_def gains_def)
  from stop_rest [OF kill real this] obtain h where h: "stop_threads st = Ok (st\<lparr>threads_should_stop := True, shared := ?w\<lparr>kheap := h\<rparr>,
      running := running st - {} - ended st DEV_MON - ended st MIHF_EXECUTOR - ended st DISPATCH_EXECUTOR\<rparr>)"
    "balanced (kheap ?w) h" by blast
  have R: "running st - {} - ended st DEV_MON - ended st MIHF_EXECUTOR - ended st DISPATCH_EXECUTOR = {UDP_HAND}"
    by (auto simp: run ended_def hand)
  from h(2) have "balanced (kheap (shared st)) (kheap (?w\<lparr>kheap := h\<rparr>))" by simp
  from mod_End_stopped [OF l h(1) [unfolded R] this] st(1) show ?thesis by fastforce
qed

end
