(* ===== verification/Mih_Service.thy ===== *)
theory Mih_Service
  imports Mih_Safety
    "HOL-Library.Sublist"
begin

text \<open>
  What the module promises to the network, and that its threads keep the promise. The
  promise is a small abstract machine: requests come in and are put in an inbox, each is
  answered at most once or ignored, answers go out in the order of the outbox. The code's
  threads, interleaved turn by turn, are shown to implement it, and what holds of the
  abstract machine is carried over to the datagrams the module sends.
\<close>

section \<open>Refinement of transition systems\<close>

locale refinement =
  fixes cstart :: "'c \<Rightarrow> bool" and cstep :: "'c \<Rightarrow> 'c \<Rightarrow> bool" and cinv :: "'c \<Rightarrow> bool"
    and astart :: "'a \<Rightarrow> bool" and astep :: "'a \<Rightarrow> 'a \<Rightarrow> bool" and abs :: "'c \<Rightarrow> 'a"
  assumes start_refines: "cstart s \<Longrightarrow> astart (abs s)"
    and start_inv: "cstart s \<Longrightarrow> cinv s"
    and step_inv: "cstep s s' \<Longrightarrow> cinv s \<Longrightarrow> cinv s'"
    and step_refines: "cstep s s' \<Longrightarrow> cinv s \<Longrightarrow> astep\<^sup>=\<^sup>= (abs s) (abs s')"
begin

lemma run_inv: "cstep\<^sup>*\<^sup>* s s' \<Longrightarrow> cstart s \<Longrightarrow> cinv s'"
  by (induction rule: rtranclp_induct) (auto intro: start_inv step_inv)

lemma run_refines: "cstep\<^sup>*\<^sup>* s s' \<Longrightarrow> cstart s \<Longrightarrow> astep\<^sup>*\<^sup>* (abs s) (abs s')"
proof (induction rule: rtranclp_induct)
  case (step t u)
  then have "astep\<^sup>=\<^sup>= (abs t) (abs u)" by (intro step_refines run_inv)
  with step show ?case by (auto intro: rtranclp.rtrancl_into_rtrancl)
qed simp

lemma transfer:
  assumes "cstart s" and "cstep\<^sup>*\<^sup>* s s'"
    and "\<And>a. astart a \<Longrightarrow> P a" and "\<And>a a'. astep a a' \<Longrightarrow> P a \<Longrightarrow> P a'"
  shows "P (abs s')"
  using run_refines [OF assms(2,1)]
  by (induction rule: rtranclp_induct) (use assms start_refines in blast)+

end

section \<open>The promise\<close>

text \<open>
  A job is an answer to be sent to an address (or to nowhere, when there was no memory for
  the address), an indication of the link layer, or the order to halt.
\<close>

datatype job = Answer "sockaddr_in option" | Indicate | Halt

record service =
  requests :: "sockaddr_in list"
  inbox :: "job list"
  outbox :: "job list"
  wire :: "(sockaddr_in option \<times> nat) list"

inductive serves :: "service \<Rightarrow> service \<Rightarrow> bool" where
  arrive: "to \<in> {None, Some a} \<Longrightarrow>
    serves s (s\<lparr>requests := requests s @ [a], inbox := inbox s @ [Answer to]\<rparr>)"
| order: "j \<in> {Indicate, Halt} \<Longrightarrow> serves s (s\<lparr>inbox := inbox s @ [j]\<rparr>)"
| halt: "serves s (s\<lparr>outbox := outbox s @ [Halt]\<rparr>)"
| answer: "inbox s = Answer to # js \<Longrightarrow>
    serves s (s\<lparr>inbox := js, outbox := outbox s @ [Answer to]\<rparr>)"
| ignore: "inbox s = j # js \<Longrightarrow> serves s (s\<lparr>inbox := js\<rparr>)"
| emit: "outbox s = Answer to # js \<Longrightarrow> n \<le> BUFFER_SIZE \<Longrightarrow>
    serves s (s\<lparr>outbox := js, wire := wire s @ [(to, n)]\<rparr>)"
| discard: "outbox s = j # js \<Longrightarrow> serves s (s\<lparr>outbox := js\<rparr>)"

definition idle_service :: "service \<Rightarrow> bool" where
  "idle_service s \<longleftrightarrow> requests s = [] \<and> inbox s = [] \<and> outbox s = [] \<and> wire s = []"

text \<open>Where the answers among the jobs go.\<close>

fun answers :: "job list \<Rightarrow> sockaddr_in option list" where
  "answers [] = []"
| "answers (Answer to # js) = to # answers js"
| "answers (j # js) = answers js"

text \<open>
  Each destination belongs to a request of its own, in the order of the requests, and is
  the address the request came from (or nowhere).
\<close>

definition addressed :: "sockaddr_in option list \<Rightarrow> sockaddr_in list \<Rightarrow> bool" where
  "addressed ds rs \<longleftrightarrow> (\<exists>as. subseq as rs \<and> list_all2 (\<lambda>d a. d \<in> {None, Some a}) ds as)"

definition served :: "service \<Rightarrow> bool" where
  "served s \<longleftrightarrow> addressed (map fst (wire s) @ answers (outbox s) @ answers (inbox s)) (requests s) \<and>
     (\<forall>x \<in> set (wire s). snd x \<le> BUFFER_SIZE)"

lemma answers_append [simp]: "answers (js @ ks) = answers js @ answers ks"
  by (induction js rule: answers.induct) simp_all

lemma subseq_list_all2:
  "subseq es ds \<Longrightarrow> list_all2 P ds as \<Longrightarrow> \<exists>bs. subseq bs as \<and> list_all2 P es bs"
proof (induction arbitrary: as rule: list_emb.induct)
  case (list_emb_Nil ys)
  then show ?case by (intro exI [of _ "[]"]) simp
next
  case (list_emb_Cons xs ys y)
  then show ?case by (auto simp: list_all2_Cons1 intro: list_emb.list_emb_Cons)
next
  case (list_emb_Cons2 x y xs ys)
  obtain a as' where as: "as = a # as'" "P y a" "list_all2 P ys as'"
    using list_emb_Cons2.prems by (auto simp: list_all2_Cons1)
  then obtain bs where "subseq bs as'" "list_all2 P xs bs" using list_emb_Cons2.IH by blast
  with as list_emb_Cons2.hyps(1) show ?case by (intro exI [of _ "a # bs"]) auto
qed

lemma addressed_subseq:
  assumes "addressed ds rs" and "subseq es ds"
  shows "addressed es rs"
proof -
  obtain as where as: "subseq as rs" "list_all2 (\<lambda>d a. d \<in> {None, Some a}) ds as"
    using assms(1) by (auto simp: addressed_def)
  obtain bs where "subseq bs as" "list_all2 (\<lambda>d a. d \<in> {None, Some a}) es bs"
    using subseq_list_all2 [OF assms(2) as(2)] by blast
  with as(1) show ?thesis unfolding addressed_def using subseq_order.trans by blast
qed

lemma addressed_arrive: "addressed ds rs \<Longrightarrow> d \<in> {None, Some a} \<Longrightarrow> addressed (ds @ [d]) (rs @ [a])"
  unfolding addressed_def
  by (meson list_all2_appendI list.rel_intros list_emb_append_mono subseq_order.refl)

lemma subseq_omit: "subseq (xs @ ys) (xs @ x # ys)" "subseq (xs @ ys @ zs) (xs @ ys @ x # zs)"
proof -
  show one: "subseq (xs @ ys) (xs @ x # ys)" for xs ys by (induction xs) auto
  show "subseq (xs @ ys @ zs) (xs @ ys @ x # zs)" using one [of "xs @ ys"] by simp
qed

lemma serves_served: "serves s s' \<Longrightarrow> served s \<Longrightarrow> served s'"
proof (induction rule: serves.induct)
  case (arrive to a s)
  then show ?case using addressed_arrive [of "map fst (wire s) @ answers (outbox s) @ answers (inbox s)"]
    by (simp add: served_def)
next
  case (order j s)
  then show ?case by (auto simp: served_def)
next
  case (ignore s j js)
  then show ?case by (cases j) (auto simp: served_def elim!: addressed_subseq intro: subseq_omit)
next
  case (discard s j js)
  then show ?case by (cases j) (auto simp: served_def elim!: addressed_subseq intro: subseq_omit)
qed (auto simp: served_def)

lemma addressed_length: "addressed ds rs \<Longrightarrow> length ds \<le> length rs"
  by (auto simp: addressed_def dest!: list_all2_lengthD list_emb_length)

section \<open>The service the module state stands for\<close>

text \<open>A connection is never queued: the thread that would do it is not started.\<close>

fun job_of :: "parameter \<Rightarrow> job" where
  "job_of (Received (b, rm)) = Answer (map_option snd (rh_param (snd (rm_reply rm))))"
| "job_of (Reply (b, rp)) = Answer (map_option snd (rp_param rp))"
| "job_of (Link p) = Indicate"
| "job_of (Connection p) = Indicate"
| "job_of NULL = Halt"

abbreviation jobs :: "queued_task list \<Rightarrow> job list" where
  "jobs \<equiv> map (\<lambda>t. job_of (qt_parameter t))"

definition service_of :: "module_run \<Rightarrow> service" where
  "service_of s =
     \<lparr>requests = mr_senders s, inbox = jobs (tasks (mihf_queue (mr_world s))),
      outbox = jobs (tasks (dispatch_queue (mr_world s))),
      wire = map (\<lambda>d. (dg_to d, length (dg_bytes d))) (sent (mr_world s))\<rparr>"

lemma service_of_world [simp]:
  "tasks (mihf_queue w) = tasks (mihf_queue (mr_world s)) \<Longrightarrow>
   tasks (dispatch_queue w) = tasks (dispatch_queue (mr_world s)) \<Longrightarrow> sent w = sent (mr_world s) \<Longrightarrow>
   service_of (s\<lparr>mr_world := w\<rparr>) = service_of s"
  by (simp add: service_of_def)

section \<open>Producers\<close>

text \<open>An indication: two allocations and a task on the MIHF queue.\<close>

lemma indication_effect:
  assumes a: "w_alloc i w = Ok (c, w1)" "w_alloc j w1 = Ok (b, w2)"
    and q: "queue_task MIHF f (Link (b, lp)) w2 = Ok (z, w')"
  shows "jobs (tasks (mihf_queue w')) = jobs (tasks (mihf_queue w)) @ [Indicate] \<and>
    dispatch_queue w' = dispatch_queue w \<and> sent w' = sent w"
proof -
  obtain h where h: "w2 = w\<lparr>kheap := h\<rparr>" using a by (auto dest!: w_alloc_Ok)
  with q show ?thesis by (elim queue_task_grows) (auto dest: spec [of _ DISPATCH])
qed

lemma NetDevNotifier_effect:
  assumes "NetDevNotifier event dev w = Ok (r, w')"
  shows "dispatch_queue w' = dispatch_queue w \<and> sent w' = sent w \<and>
    (jobs (tasks (mihf_queue w')) = jobs (tasks (mihf_queue w)) @ [Indicate] \<or> mihf_queue w' = mihf_queue w)"
proof -
  have up: "?thesis" if "DevLinkUp dev w = Ok w'"
    using that by (auto simp: DevLinkUp_def Let_def elim!: cbind_OkE dest: indication_effect)
  have down: "?thesis" if "DevLinkDown dev w = Ok w'"
    using that by (auto simp: DevLinkDown_def elim!: cbind_OkE dest: indication_effect)
  have going: "?thesis" if "DevLinkGoingDown dev w = Ok w'"
    using that by (auto simp: DevLinkGoingDown_def elim!: cbind_OkE dest: indication_effect)
  show ?thesis
    using assms up down going
    by (auto simp: NetDevNotifier_def elim!: cbind_OkE split: if_splits netdev_event.splits)
qed

lemma udp_turn_effect:
  assumes run: "udp_turn sk got st w = Ok (st', w')"
  shows "dispatch_queue w' = dispatch_queue w \<and> sent w' = sent w \<and>
    (sender_of sk got = [] \<and> mihf_queue w' = mihf_queue w \<or>
     (\<exists>a to. sender_of sk got = [a] \<and> to \<in> {None, Some a} \<and>
        jobs (tasks (mihf_queue w')) = jobs (tasks (mihf_queue w)) @ [Answer to]))"
proof -
  obtain rx buf w1 z cells src where
    al: "(case st of Some (rxaddr, buf) \<Rightarrow> Ok (rxaddr, buf, w)
       | None \<Rightarrow> (let (rxaddr, w) = w_kmalloc sizeof_sockaddr_in w in
           cbind (w_alloc BUFFER_SIZE w) (\<lambda>(buf, w). Ok (rxaddr, buf, w)))) = Ok (rx, buf, w1)"
    and rc: "udp_recv sk got (replicate BUFFER_SIZE (Some 0)) (int BUFFER_SIZE) = Ok (z, cells, src)"
    using run by (auto simp: udp_turn_def elim!: cbind_OkE)
  note run = run [unfolded udp_turn_def al rc cbind.simps prod.case]
  define a where "a = (case src of None \<Rightarrow> \<lparr>sin_family = 0, sin_port = 0, sin_addr = 0\<rparr> | Some a \<Rightarrow> a)"
  have src: "sender_of sk got = (if z < 0 then [] else [a])"
    using rc by (auto simp: udp_recv_def sender_of_def a_def Let_def split: if_splits arrival.splits)
  have w1: "\<exists>h. w1 = w\<lparr>kheap := h\<rparr>"
    using al by (auto simp: w_kmalloc_def split: option.splits prod.splits elim!: cbind_OkE dest!: w_alloc_Ok)
      (metis world.surjective world.update_convs(1))
  show ?thesis
  proof (cases "z < 0")
    case True
    with run w1 src show ?thesis by auto
  next
    case False
    then obtain rb w2 pb w3 y where al2: "w_alloc 16 w1 = Ok (rb, w2)" "w_alloc 32 w2 = Ok (pb, w3)"
      and q: "queue_task MIHF Addr_handle_message (Received (pb, \<lparr>rm_len = z, rm_msg = Blk buf cells,
        rm_reply = (rb, \<lparr>rh_handler = Addr_handle_udp_reply, rh_param = map_option (\<lambda>b. (b, a)) rx\<rparr>)\<rparr>)) w3 = Ok (y, w')"
      using run by (auto simp: Let_def a_def elim!: cbind_OkE)
    obtain h where w3: "w3 = w\<lparr>kheap := h\<rparr>" using al2 w1 by (auto dest!: w_alloc_Ok)
    have "map_option (\<lambda>b. snd (b, a)) rx \<in> {None, Some a}" by (cases rx) simp_all
    with q w3 src False show ?thesis
      by (elim queue_task_grows) (auto simp: option.map_comp comp_def dest: spec [of _ DISPATCH])
  qed
qed

lemma stop_executor_effect:
  assumes "stop_executor q w = Ok w'"
  shows "sent w' = sent w \<and> jobs (tasks (queue_of q w')) = jobs (tasks (queue_of q w)) @ [Halt] \<and>
    (\<forall>r. r \<noteq> q \<longrightarrow> queue_of r w' = queue_of r w)"
proof -
  obtain z where run: "queue_task q poison_task NULL w = Ok (z, w')"
    using assms by (auto simp: stop_executor_def elim!: cbind_OkE)
  then show ?thesis by (elim queue_task_grows) simp
qed

lemma udp_leave_effect:
  assumes "udp_loop sk [Stop] st w = Ok (e, w')"
  shows "mihf_queue w' = mihf_queue w \<and> dispatch_queue w' = dispatch_queue w \<and> sent w' = sent w"
  using assms by (auto simp: w_kfree_def split: option.splits elim!: cbind_OkE)

section \<open>The module keeps the promise\<close>

text \<open>What the queues hold.\<close>

lemma queued_parameter:
  assumes "world_inv w" and "t \<in> set (tasks (queue_of q w))"
  shows "case q of
      MIHF \<Rightarrow> (\<exists>b rm. qt_parameter t = Received (b, rm)) \<or> (\<exists>p. qt_parameter t = Link p) \<or> qt_parameter t = NULL
    | DISPATCH \<Rightarrow> (\<exists>b rp. qt_parameter t = Reply (b, rp)) \<or> qt_parameter t = NULL"
proof -
  have typed: "typed_call (qt_task t) (qt_parameter t)"
    and adm: "case q of MIHF \<Rightarrow> started_admits (qt_task t) \<or> qt_task t = poison_task
      | DISPATCH \<Rightarrow> dispatch_admits (qt_task t) \<or> qt_task t = poison_task"
    using assms by (cases q; auto simp: world_inv_def queues_inv_def all_tasks_def good_task_def)+
  from typed adm show ?thesis
    by (cases "(qt_task t, qt_parameter t)" rule: typed_call.cases; cases q)
      (auto simp: started_admits_def mihf_admits_def dispatch_admits_def)
qed

lemma serves_by:
  "inbox s = Answer to # js \<Longrightarrow> s' = s\<lparr>inbox := js, outbox := outbox s @ [Answer to]\<rparr> \<Longrightarrow> serves s s'"
  "inbox s = j # js \<Longrightarrow> s' = s\<lparr>inbox := js\<rparr> \<Longrightarrow> serves s s'"
  "outbox s = Answer to # js \<Longrightarrow> n \<le> BUFFER_SIZE \<Longrightarrow> s' = s\<lparr>outbox := js, wire := wire s @ [(to, n)]\<rparr> \<Longrightarrow> serves s s'"
  "outbox s = j # js \<Longrightarrow> s' = s\<lparr>outbox := js\<rparr> \<Longrightarrow> serves s s'"
  by (auto intro: serves.intros)

lemma short_list: "length xs \<le> 1 \<Longrightarrow> xs = [] \<or> (\<exists>x. xs = [x])"
  by (cases xs) auto

lemma take_task_serves:
  assumes inv: "world_inv (mr_world s)" and run: "take_task call_handler q (mr_world s) = Ok (r, w)"
  shows "serves\<^sup>=\<^sup>= (service_of s) (service_of (s\<lparr>mr_world := w\<rparr>))"
proof (cases "tasks (queue_of q (mr_world s))")
  case Nil
  from take_task_idle [OF run Nil] show ?thesis by simp
next
  case (Cons t ts)
  let ?a = "service_of s" and ?c = "service_of (s\<lparr>mr_world := w\<rparr>)"
  obtain us ds where eff: "traffic (qt_parameter t) us ds" "sent w = sent (mr_world s) @ ds"
    "tasks (mihf_queue w) = (if q = MIHF then ts else tasks (mihf_queue (mr_world s)))"
    "tasks (dispatch_queue w) = (if q = DISPATCH then ts else tasks (dispatch_queue (mr_world s))) @ us"
    using take_task_effect [OF inv run Cons] by blast
  have p: "case q of
      MIHF \<Rightarrow> (\<exists>b rm. qt_parameter t = Received (b, rm)) \<or> (\<exists>p. qt_parameter t = Link p) \<or> qt_parameter t = NULL
    | DISPATCH \<Rightarrow> (\<exists>b rp. qt_parameter t = Reply (b, rp)) \<or> qt_parameter t = NULL"
    using inv by (rule queued_parameter) (simp add: Cons)
  have "serves ?a ?c"
  proof (cases q)
    case MIHF
    consider (answer) b rm c m u where "qt_parameter t = Received (b, rm)" "ds = []" "us = [u]"
        "qt_parameter u = Reply (c, \<lparr>rp_message = Some m, rp_param = rh_param (snd (rm_reply rm))\<rparr>)"
      | (ignore) "us = []" "ds = []"
      using p eff(1) MIHF short_list [of us] by auto
    then show ?thesis
    proof cases
      case answer
      with MIHF Cons eff show ?thesis by (intro serves_by(1)) (simp_all add: service_of_def)
    next
      case ignore
      with MIHF Cons eff show ?thesis by (intro serves_by(2)) (simp_all add: service_of_def)
    qed
  next
    case DISPATCH
    consider (emit) b rp d where "qt_parameter t = Reply (b, rp)" "us = []" "ds = [d]"
        "dg_to d = map_option snd (rp_param rp)" "length (dg_bytes d) \<le> BUFFER_SIZE"
      | (discard) "us = []" "ds = []"
      using p eff(1) DISPATCH short_list [of ds] by auto
    then show ?thesis
    proof cases
      case emit
      with DISPATCH Cons eff show ?thesis
        by (intro serves_by(3) [of ?a _ _ "length (dg_bytes d)"]) (simp_all add: service_of_def)
    next
      case discard
      with DISPATCH Cons eff show ?thesis by (intro serves_by(4)) (simp_all add: service_of_def)
    qed
  qed
  then show ?thesis by simp
qed

lemma module_moves_serves:
  assumes "module_moves s s'" and "module_inv s"
  shows "serves\<^sup>=\<^sup>= (service_of s) (service_of s')"
  using assms
proof (induction rule: module_moves.induct)
  case (turn sk got s st w)
  from udp_turn_effect [OF turn.hyps] show ?case
  proof (elim conjE disjE exE)
    fix a to
    assume e: "dispatch_queue w = dispatch_queue (mr_world s)" "sent w = sent (mr_world s)" "sender_of sk got = [a]"
      "to \<in> {None, Some a}" "jobs (tasks (mihf_queue w)) = jobs (tasks (mihf_queue (mr_world s))) @ [Answer to]"
    have "serves (service_of s) ((service_of s)\<lparr>requests := requests (service_of s) @ [a],
        inbox := inbox (service_of s) @ [Answer to]\<rparr>)"
      using e(4) by (rule serves.arrive)
    with e show ?thesis by (simp add: service_of_def)
  qed (simp add: service_of_def)
next
  case (leave sk s w)
  from udp_leave_effect [OF leave.hyps] show ?case by (simp add: service_of_def)
next
  case (notify event dev s r w)
  from NetDevNotifier_effect [OF notify.hyps] serves.order [of Indicate "service_of s"] show ?case
    by (auto simp: service_of_def)
next
  case (stop q s w)
  show ?case
    using stop_executor_effect [OF stop.hyps] serves.order [of Halt "service_of s"] serves.halt [of "service_of s"]
    by (cases q) (auto simp: service_of_def dest: spec [of _ MIHF] spec [of _ DISPATCH])
next
  case (execute q k s r w)
  let ?s = "s\<lparr>mr_world := down_killable q k (mr_world s)\<rparr>"
  have "serves\<^sup>=\<^sup>= (service_of ?s) (service_of (?s\<lparr>mr_world := w\<rparr>))"
    using execute by (intro take_task_serves) (simp_all add: module_inv_def execute_task_def)
  moreover have "service_of ?s = service_of s" by simp
  ultimately show ?case by simp
qed

lemma module_starts_idle: "module_starts s \<Longrightarrow> idle_service (service_of s)"
  by (auto simp: module_starts_def idle_service_def service_of_def init_queue_def)

interpretation service: refinement module_starts module_moves module_inv idle_service serves service_of
  by unfold_locales
    (fact module_starts_idle module_starts_inv module_moves_inv module_moves_serves)+

lemma reachable_run: "module_reachable s \<Longrightarrow> \<exists>s0. module_starts s0 \<and> module_moves\<^sup>*\<^sup>* s0 s"
  by (induction rule: module_reachable.induct) (auto intro: rtranclp.rtrancl_into_rtrancl)

lemma reachable_served:
  assumes "module_reachable s"
  shows "served (service_of s)"
proof -
  obtain s0 where "module_starts s0" "module_moves\<^sup>*\<^sup>* s0 s" using reachable_run [OF assms] by blast
  then show ?thesis
  proof (rule service.transfer)
    show "served a" if "idle_service a" for a
      using that by (simp add: idle_service_def served_def addressed_def)
  qed (rule serves_served)
qed

section \<open>From the arrival of a request to its answer\<close>

lemma queue_task_net: "queue_task r f p w = Ok (z, w') \<Longrightarrow> net_answers w' = net_answers w \<and> net_calls w' = net_calls w"
  by (cases r) (auto simp: queue_task_def link_task_def spin_lock_def spin_unlock_def list_add_tail_def up_def
      net_answers_def elim!: cbind_OkE split: if_splits dest!: w_alloc_Ok)

lemma udp_turn_net: "udp_turn sk got st w = Ok (st', w') \<Longrightarrow> net_answers w' = net_answers w"
  by (auto simp: udp_turn_def Let_def w_kmalloc_def elim!: cbind_OkE split: option.splits prod.splits if_splits
      dest!: queue_task_net w_alloc_Ok)

text \<open>
  A turn that takes a datagram allocates five blocks: the task, its parameter and the
  buffer, which the task owns, and the sender's address and the reply handler.
\<close>

lemma udp_turn_takes:
  assumes sk: "sock_sk sk" and inv: "wf_heap (kheap w)" "\<not> locked (mihf_queue w)" "allocs_succeed (kheap w)"
    and bs: "length bs \<le> BUFFER_SIZE"
  shows "\<exists>w' t a r. udp_turn sk (Datagram bs from) None w = Ok (None, w') \<and>
    tasks (mihf_queue w') = tasks (mihf_queue w) @ [t] \<and> dispatch_queue w' = dispatch_queue w \<and>
    qt_task t = Addr_handle_message \<and>
    (\<exists>pb buf. qt_parameter t = Received (pb, \<lparr>rm_len = int (length bs),
      rm_msg = Blk buf (map Some bs @ replicate (BUFFER_SIZE - length bs) (Some 0)),
      rm_reply = (r, \<lparr>rh_handler = Addr_handle_udp_reply, rh_param = Some (a, from)\<rparr>)\<rparr>)) \<and>
    a \<noteq> r \<and> {a, r} \<inter> kh_live (kheap w) = {} \<and> {a, r} \<inter> task_blocks t = {} \<and>
    task_blocks t \<inter> kh_live (kheap w) = {} \<and> kh_live (kheap w') = kh_live (kheap w) \<union> {a, r} \<union> task_blocks t \<and>
    \<not> locked (mihf_queue w') \<and> allocs_succeed (kheap w')"
proof -
  obtain a h0 where a: "kmalloc 16 (kheap w) = (Some a, h0)" "extends (kheap w) h0 {a}"
    using inv(3) by (rule kmalloc_succeedE [of _ 16]) simp
  obtain buf h1 where buf: "w_alloc 4096 (w\<lparr>kheap := h0\<rparr>) = Ok (buf, w\<lparr>kheap := h1\<rparr>)" "extends h0 h1 {buf}"
    using w_alloc_succeeds [of "w\<lparr>kheap := h0\<rparr>" 4096] inv(3) a(2) by auto
  obtain r h2 where r: "w_alloc 16 (w\<lparr>kheap := h1\<rparr>) = Ok (r, w\<lparr>kheap := h2\<rparr>)" "extends h1 h2 {r}"
    using w_alloc_succeeds [of "w\<lparr>kheap := h1\<rparr>" 16] inv(3) a(2) buf(2) by auto
  obtain pb h3 where pb: "w_alloc 32 (w\<lparr>kheap := h2\<rparr>) = Ok (pb, w\<lparr>kheap := h3\<rparr>)" "extends h2 h3 {pb}"
    using w_alloc_succeeds [of "w\<lparr>kheap := h2\<rparr>" 32] inv(3) a(2) buf(2) r(2) by auto
  define q where "q = Received (pb, \<lparr>rm_len = int (length bs),
      rm_msg = Blk buf (map Some bs @ replicate (BUFFER_SIZE - length bs) (Some 0)),
      rm_reply = (r, \<lparr>rh_handler = Addr_handle_udp_reply, rh_param = Some (a, from)\<rparr>)\<rparr>)"
  have "\<not> locked (queue_of MIHF (w\<lparr>kheap := h3\<rparr>))" "allocs_succeed (kheap (w\<lparr>kheap := h3\<rparr>))"
    using inv(2,3) a(2) buf(2) r(2) pb(2) by simp_all
  from queue_task_appended [OF this, of Addr_handle_message q]
  obtain b w' where q: "queue_task MIHF Addr_handle_message q (w\<lparr>kheap := h3\<rparr>) = Ok (0, w')"
    "queue_of MIHF w' = (mihf_queue w)\<lparr>tasks := tasks (mihf_queue w) @ [\<lparr>qt_blk = b, qt_task = Addr_handle_message,
      qt_parameter = q\<rparr>], sem := Suc (sem (mihf_queue w))\<rparr>"
    "queue_of DISPATCH w' = dispatch_queue w" "extends h3 (kheap w') {b}" by auto
  have rc: "udp_recv sk (Datagram bs from) (replicate 4096 (Some 0)) (int 4096)
     = Ok (int (length bs), map Some bs @ replicate (4096 - length bs) (Some 0), Some from)"
    using sk bs by (simp add: udp_recv_def blit_def Let_def del: replicate.simps)
  have run: "udp_turn sk (Datagram bs from) None w = Ok (None, w')"
    using a(1) buf(1) r(1) pb(1) rc q(1)
    by (simp add: udp_turn_def w_kmalloc_def Let_def q_def del: replicate.simps)
  note e1 = extends_trans [OF a(2) buf(2)]
  note e2 = extends_trans [OF e1 r(2)]
  note e3 = extends_trans [OF e2 pb(2)]
  note e4 = extends_trans [OF e3 q(4)]
  note dis = extends_disjoint [OF inv(1) a(2) buf(2)] extends_disjoint [OF inv(1) e1 r(2)]
    extends_disjoint [OF inv(1) e2 pb(2)] extends_disjoint [OF inv(1) e3 q(4)]
  let ?t = "\<lparr>qt_blk = b, qt_task = Addr_handle_message, qt_parameter = q\<rparr>"
  have tb: "task_blocks ?t = {b, pb, buf}" by (auto simp: task_blocks_def q_def)
  have "a \<noteq> r" "{a, r} \<inter> {b, pb, buf} = {}" using dis by auto
  moreover have "{a, r} \<inter> kh_live (kheap w) = {}" "{b, pb, buf} \<inter> kh_live (kheap w) = {}"
    using extends_fresh [OF inv(1) e4] by auto
  moreover have "kh_live (kheap w') = kh_live (kheap w) \<union> {a, r} \<union> {b, pb, buf}"
    using extends_live [OF e4] by auto
  moreover have "allocs_succeed (kheap w')" using inv(3) e4 by simp
  ultimately show ?thesis using run q(2,3) tb inv(2)
    by (intro exI [of _ w'] exI [of _ ?t] exI [of _ a] exI [of _ r]) (simp add: q_def del: replicate.simps)
qed

lemma datagram_answered:
  assumes "module_reachable s" and "mr_reuse s = None" and "w = mr_world s" and "sock_sk sk"
    and "tasks (mihf_queue w) = []" and "tasks (dispatch_queue w) = []"
    and "allocs_succeed (kheap w)" and "\<forall>i. 0 \<le> net_ret w i \<and> net_sk w i"
    and "bs = enc_header hdr @ enc_tlvs (request_ids src)" and "ackreq hdr = 1"
    and "payloadlength hdr = of_nat (length (enc_tlvs (request_ids src)))" and "length src \<le> 127" and "0 \<notin> set src"
  shows "\<exists>w1 w2 w3 d a r. udp_turn sk (Datagram bs addr) None w = Ok (None, w1) \<and>
    execute_task call_handler MIHF Acquired w1 = Ok (1, w2) \<and>
    execute_task call_handler DISPATCH Acquired w2 = Ok (1, w3) \<and>
    sent w3 = sent w @ [d] \<and> dg_to d = Some addr \<and>
    (\<forall>h msg0. wf_heap h \<longrightarrow> allocs_succeed h \<longrightarrow> (\<exists>msg h'.
       unpack_mih_message (dg_bytes d) (of_nat (length (dg_bytes d))) msg0 h = Ok (0, msg, h') \<and>
       header msg = (ack_header hdr)\<lparr>payloadlength := of_nat (length (dg_bytes d) - 8)\<rparr> \<and>
       list_all2 is_id (tlvs msg) (answer_ids src))) \<and>
    tasks (mihf_queue w3) = [] \<and> tasks (dispatch_queue w3) = [] \<and> open_socks w3 = open_socks w \<and>
    a \<noteq> r \<and> {a, r} \<inter> kh_live (kheap w) = {} \<and> kh_live (kheap w3) = kh_live (kheap w) \<union> {a, r}"
proof -
  have inv: "module_inv s" and un: "unlocked w"
    using module_reachable_inv [OF assms(1)] reachable_unlocked [OF assms(1)] assms(3) by simp_all
  then have wi: "world_inv w" "spare w (reusing None)" and wf: "wf_heap (kheap w)"
    using assms(2,3) by (simp_all add: module_inv_def world_inv_def)
  have len: "length bs = length src + 19" "length bs \<le> 4096" using assms(9,12) by (simp_all add: ids_length)
  have l: "\<not> locked (mihf_queue w)" "\<not> locked (dispatch_queue w)" using un by (simp_all add: unlocked_def)
  from udp_turn_takes [OF assms(4) wf l(1) assms(7) len(2), of addr] obtain w1 t a r pb buf where
    t: "udp_turn sk (Datagram bs addr) None w = Ok (None, w1)" "tasks (mihf_queue w1) = [t]"
      "dispatch_queue w1 = dispatch_queue w" "qt_task t = Addr_handle_message"
    and p: "qt_parameter t = Received (pb, \<lparr>rm_len = int (length bs),
      rm_msg = Blk buf (map Some bs @ replicate (4096 - length bs) (Some 0)),
      rm_reply = (r, \<lparr>rh_handler = Addr_handle_udp_reply, rh_param = Some (a, addr)\<rparr>)\<rparr>)"
    and h: "a \<noteq> r" "{a, r} \<inter> kh_live (kheap w) = {}" "{a, r} \<inter> task_blocks t = {}"
      "task_blocks t \<inter> kh_live (kheap w) = {}" "kh_live (kheap w1) = kh_live (kheap w) \<union> {a, r} \<union> task_blocks t"
      "\<not> locked (mihf_queue w1)" "allocs_succeed (kheap w1)"
    using assms(5) by (auto simp del: replicate.simps)
  let ?rm = "\<lparr>rm_len = int (length bs),
      rm_msg = Blk buf (map Some bs @ replicate (4096 - length bs) (Some 0)),
      rm_reply = (r, \<lparr>rh_handler = Addr_handle_udp_reply, rh_param = Some (a, addr)\<rparr>)\<rparr>"
  have c: "carries_request ?rm buf hdr src"
    using assms(9,11-13) len(2) by (simp add: carries_request_def holds_def del: replicate.simps)
  have w1: "world_inv w1" using udp_turn_inv [OF t(1) wi] by simp
  have net: "\<forall>i. 0 \<le> net_ret w1 i \<and> net_sk w1 i" and out: "sent w1 = sent w" "open_socks w1 = open_socks w"
    using udp_turn_net [OF t(1)] assms(8) udp_turn_effect [OF t(1)] udp_turn_socks [OF t(1)]
    by (simp_all add: net_answers_def)
  have d1: "tasks (dispatch_queue w1) = []" "\<not> locked (dispatch_queue w1)" using t(3) assms(6) l(2) by simp_all
  have rp: "snd (rm_reply ?rm) = \<lparr>rh_handler = Addr_handle_udp_reply, rh_param = Some (a, addr)\<rparr>" by simp
  obtain w2 w3 d where run: "execute_task call_handler MIHF Acquired w1 = Ok (1, w2)"
    "execute_task call_handler DISPATCH Acquired w2 = Ok (1, w3)" "sent w3 = sent w1 @ [d]" "dg_to d = Some addr"
    "\<forall>h msg0. wf_heap h \<longrightarrow> allocs_succeed h \<longrightarrow> (\<exists>msg h'.
       unpack_mih_message (dg_bytes d) (of_nat (length (dg_bytes d))) msg0 h = Ok (0, msg, h') \<and>
       header msg = (ack_header hdr)\<lparr>payloadlength := of_nat (length (dg_bytes d) - 8)\<rparr> \<and>
       list_all2 is_id (tlvs msg) (answer_ids src))"
    "tasks (mihf_queue w3) = []" "tasks (dispatch_queue w3) = []" "open_socks w3 = open_socks w1"
    "kh_live (kheap w3) = kh_live (kheap w1) - task_blocks t"
    using request_answered [OF w1 t(2) h(6) t(4) p c assms(10) rp d1 h(7) net] by blast
  moreover have "kh_live (kheap w3) = kh_live (kheap w) \<union> {a, r}" using run(9) h(3-5) by auto
  ultimately show ?thesis using t(1) out h(1,2)
    by (intro exI [of _ w1] exI [of _ w2] exI [of _ w3] exI [of _ d] exI [of _ a] exI [of _ r]) simp
qed

text \<open>The request of an example.\<close>

definition sample_datagram :: "u8 list" where
  "sample_datagram = enc_header request_header @ enc_tlvs (request_ids [109])"

lemma sample_datagram_answered:
  obtains w1 w2 w3 d a r where
    "udp_turn \<lparr>sock_id = 0, sock_sk = True\<rparr> (Datagram sample_datagram inbound_addr) None world0 = Ok (None, w1)"
    and "execute_task call_handler MIHF Acquired w1 = Ok (1, w2)"
    and "execute_task call_handler DISPATCH Acquired w2 = Ok (1, w3)"
    and "sent w3 = [d]" and "dg_to d = Some inbound_addr"
proof -
  have s: "module_reachable run0" by (rule module_reachable.start [OF run0_starts])
  have w: "mr_reuse run0 = None" "world0 = mr_world run0" "sock_sk \<lparr>sock_id = 0, sock_sk = True\<rparr>"
    "tasks (mihf_queue world0) = []" "tasks (dispatch_queue world0) = []" "allocs_succeed (kheap world0)"
    "\<forall>i. 0 \<le> net_ret world0 i \<and> net_sk world0 i"
    by (simp_all add: world0_def)
  have m: "ackreq request_header = 1" "payloadlength request_header = of_nat (length (enc_tlvs (request_ids [109])))"
    "length [109 :: u8] \<le> 127" "0 \<notin> set [109 :: u8]"
    by (simp_all add: request_header_def ids_length)
  have "sent world0 = []" by (simp add: world0_def)
  with datagram_answered [OF s w sample_datagram_def m, of inbound_addr] show ?thesis
    by (elim exE conjE) (rule that, auto)
qed

lemma sample_run:
  obtains s d where "module_moves\<^sup>*\<^sup>* run0 s" and "mr_senders s = [inbound_addr]"
    and "sent (mr_world s) = [d]" and "dg_to d = Some inbound_addr"
proof -
  let ?sk = "\<lparr>sock_id = 0, sock_sk = True\<rparr>"
  obtain w1 w2 w3 d where r: "udp_turn ?sk (Datagram sample_datagram inbound_addr) None world0 = Ok (None, w1)"
    "execute_task call_handler MIHF Acquired w1 = Ok (1, w2)" "execute_task call_handler DISPATCH Acquired w2 = Ok (1, w3)"
    and d: "sent w3 = [d]" "dg_to d = Some inbound_addr"
    by (rule sample_datagram_answered)
  let ?s = "\<lambda>w. \<lparr>mr_world = w, mr_reuse = None, mr_senders = [inbound_addr]\<rparr>"
  have "module_moves run0 (?s w1)"
    using module_moves.turn [of ?sk "Datagram sample_datagram inbound_addr" run0 None w1] r(1)
    by (simp add: sender_of_def)
  moreover have "module_moves (?s w1) (?s w2)"
    using module_moves.execute [of MIHF Acquired "?s w1" 1 w2] r(2) by simp
  moreover have "module_moves (?s w2) (?s w3)"
    using module_moves.execute [of DISPATCH Acquired "?s w2" 1 w3] r(3) by simp
  ultimately have "module_moves\<^sup>*\<^sup>* run0 (?s w3)"
    by (meson rtranclp.rtrancl_refl rtranclp.rtrancl_into_rtrancl)
  with d show ?thesis by (intro that [of "?s w3" d]) simp_all
qed

lemma run_reachable: "module_moves\<^sup>*\<^sup>* s0 s \<Longrightarrow> module_starts s0 \<Longrightarrow> module_reachable s"
  by (induction rule: rtranclp_induct) (auto intro: module_reachable.intros)

text \<open>The answers still to be given are the tasks that give them.\<close>

lemma answering_tasks:
  assumes "world_inv w"
  shows "length (answers (jobs (tasks (mihf_queue w)))) = length (filter (\<lambda>t. qt_task t = Addr_handle_message) (tasks (mihf_queue w)))"
    and "length (answers (jobs (tasks (dispatch_queue w)))) = length (filter (\<lambda>t. qt_task t = Addr_handle_udp_reply) (tasks (dispatch_queue w)))"
proof -
  have count: "length (answers (jobs ts)) = length (filter (\<lambda>t. qt_task t = f) ts)"
    if "\<forall>t \<in> set ts. (\<exists>to. job_of (qt_parameter t) = Answer to) \<longleftrightarrow> qt_task t = f" for ts f
    using that by (induction ts) (simp_all, metis answers.simps(2,3,4) job.exhaust length_Cons)
  have typed: "typed_call (qt_task t) (qt_parameter t)" if "t \<in> set (all_tasks w)" for t
    using assms that by (auto simp: world_inv_def queues_inv_def good_task_def)
  have "(\<exists>to. job_of (qt_parameter t) = Answer to) \<longleftrightarrow> qt_task t = Addr_handle_message" if "t \<in> set (tasks (mihf_queue w))" for t
    using queued_parameter [OF assms, of t MIHF] typed [of t] that
    by (cases "(qt_task t, qt_parameter t)" rule: typed_call.cases) (auto simp: all_tasks_def)
  then show "length (answers (jobs (tasks (mihf_queue w)))) = length (filter (\<lambda>t. qt_task t = Addr_handle_message) (tasks (mihf_queue w)))"
    by (intro count) blast
  have "(\<exists>to. job_of (qt_parameter t) = Answer to) \<longleftrightarrow> qt_task t = Addr_handle_udp_reply" if "t \<in> set (tasks (dispatch_queue w))" for t
    using queued_parameter [OF assms, of t DISPATCH] typed [of t] that
    by (cases "(qt_task t, qt_parameter t)" rule: typed_call.cases) (auto simp: all_tasks_def)
  then show "length (answers (jobs (tasks (dispatch_queue w)))) = length (filter (\<lambda>t. qt_task t = Addr_handle_udp_reply) (tasks (dispatch_queue w)))"
    by (intro count) blast
qed

section \<open>Properties\<close>

text \<open>
  Property C1: a request that asks for an acknowledgement is answered. From every state
  the module reaches in which both queues are empty, when the encoding of a message to
  this node arrives and memory and the kernel's sockets are available, the turn of the UDP
  thread, the executor of the MIHF queue and the executor of the dispatch queue run to
  their end without a fault; exactly one datagram is sent, to the sender of the request,
  and whoever unpacks it finds an acknowledgement with the service, operation, action and
  transaction of the request, from this node to the requester. Both queues are empty again
  and no socket stays open; but two blocks, the copy of the sender's address and the reply
  handler, stay allocated for ever.
\<close>

theorem datagram_is_answered:
  assumes "module_reachable s" and "mr_reuse s = None" and "w = mr_world s" and "sock_sk sk"
    and "tasks (mihf_queue w) = []" and "tasks (dispatch_queue w) = []"
    and "allocs_succeed (kheap w)" and "\<forall>i. 0 \<le> net_ret w i \<and> net_sk w i"
    and "bs = enc_header hdr @ enc_tlvs (request_ids src)" and "ackreq hdr = 1"
    and "payloadlength hdr = of_nat (length (enc_tlvs (request_ids src)))" and "length src \<le> 127" and "0 \<notin> set src"
  shows "\<exists>w1 w2 w3 d a r. udp_turn sk (Datagram bs addr) None w = Ok (None, w1) \<and>
    execute_task call_handler MIHF Acquired w1 = Ok (1, w2) \<and>
    execute_task call_handler DISPATCH Acquired w2 = Ok (1, w3) \<and>
    sent w3 = sent w @ [d] \<and> dg_to d = Some addr \<and>
    (\<forall>h msg0. wf_heap h \<longrightarrow> allocs_succeed h \<longrightarrow> (\<exists>msg h'.
       unpack_mih_message (dg_bytes d) (of_nat (length (dg_bytes d))) msg0 h = Ok (0, msg, h') \<and>
       header msg = (ack_header hdr)\<lparr>payloadlength := of_nat (length (dg_bytes d) - 8)\<rparr> \<and>
       list_all2 is_id (tlvs msg) (answer_ids src))) \<and>
    tasks (mihf_queue w3) = [] \<and> tasks (dispatch_queue w3) = [] \<and> open_socks w3 = open_socks w \<and>
    a \<noteq> r \<and> {a, r} \<inter> kh_live (kheap w) = {} \<and> kh_live (kheap w3) = kh_live (kheap w) \<union> {a, r}"
  using assms by (rule datagram_answered)

theorem datagram_is_answered_witness:
  "\<exists>w1 w2 w3 d. udp_turn \<lparr>sock_id = 0, sock_sk = True\<rparr> (Datagram sample_datagram inbound_addr) None world0 = Ok (None, w1) \<and>
    execute_task call_handler MIHF Acquired w1 = Ok (1, w2) \<and>
    execute_task call_handler DISPATCH Acquired w2 = Ok (1, w3) \<and> sent w3 = [d] \<and> dg_to d = Some inbound_addr \<and>
    card (kh_live (kheap w3)) = 2"
proof -
  have s: "module_reachable run0" by (rule module_reachable.start [OF run0_starts])
  have w: "mr_reuse run0 = None" "world0 = mr_world run0" "sock_sk \<lparr>sock_id = 0, sock_sk = True\<rparr>"
    "tasks (mihf_queue world0) = []" "tasks (dispatch_queue world0) = []" "allocs_succeed (kheap world0)"
    "\<forall>i. 0 \<le> net_ret world0 i \<and> net_sk world0 i"
    by (simp_all add: world0_def)
  have m: "ackreq request_header = 1" "payloadlength request_header = of_nat (length (enc_tlvs (request_ids [109])))"
    "length [109 :: u8] \<le> 127" "0 \<notin> set [109 :: u8]"
    by (simp_all add: request_header_def ids_length)
  obtain w1 w2 w3 d a r where
    "udp_turn \<lparr>sock_id = 0, sock_sk = True\<rparr> (Datagram sample_datagram inbound_addr) None world0 = Ok (None, w1)"
    "execute_task call_handler MIHF Acquired w1 = Ok (1, w2)" "execute_task call_handler DISPATCH Acquired w2 = Ok (1, w3)"
    "sent w3 = sent world0 @ [d]" "dg_to d = Some inbound_addr" "a \<noteq> r" "kh_live (kheap w3) = kh_live (kheap world0) \<union> {a, r}"
    using datagram_is_answered [OF s w sample_datagram_def m, of inbound_addr] by (elim exE conjE) (rule that)
  then show ?thesis by (intro exI [of _ w1] exI [of _ w2] exI [of _ w3] exI [of _ d]) (simp add: world0_def heap0_def)
qed

text \<open>
  Property C3: the threads of the module implement the service. Every run of the module,
  whichever way the turns of the UDP thread, the notifications, the stops and the two
  executors are interleaved, is a run of the abstract machine: requests enter the inbox,
  each is answered at most once or ignored, and the answers leave in the order of the
  outbox, whatever arrives, whichever allocations fail and whatever the kernel answers.
\<close>

theorem module_refines_service:
  assumes "module_starts s0" and "module_moves\<^sup>*\<^sup>* s0 s"
  shows "idle_service (service_of s0) \<and> serves\<^sup>*\<^sup>* (service_of s0) (service_of s)"
  using module_starts_idle [OF assms(1)] service.run_refines [OF assms(2,1)] by simp

theorem module_refines_service_witness:
  "\<exists>s n. serves\<^sup>*\<^sup>* (service_of run0) (service_of s) \<and> requests (service_of s) = [inbound_addr] \<and>
     wire (service_of s) = [(Some inbound_addr, n)]"
proof -
  obtain s d where s: "module_moves\<^sup>*\<^sup>* run0 s" "mr_senders s = [inbound_addr]"
    "sent (mr_world s) = [d]" "dg_to d = Some inbound_addr" by (rule sample_run)
  then show ?thesis using module_refines_service [OF run0_starts s(1)]
    by (intro exI [of _ s] exI [of _ "length (dg_bytes d)"]) (simp add: service_of_def)
qed





end
