(* ===== verification/Mih_Memory.thy ===== *)
theory Mih_Memory
  imports Mih_Service
begin

text \<open>
  The memory balance of a running module. The executors release exactly what the tasks
  own; the producers hand everything they allocate to the tasks they queue, but for the
  sender's address and the reply handler of a received datagram, which nobody releases.
  So the number of blocks lost in a run follows the number of datagrams received.
\<close>

section \<open>What the producers hand over\<close>

lemma alloc_unowned:
  assumes "world_inv w" and "extends (kheap w) h C"
  shows "unowned (w\<lparr>kheap := h\<rparr>) = unowned w \<union> C"
proof -
  have "wf_heap (kheap w)" "tasks_blocks (all_tasks w) \<subseteq> kh_live (kheap w)"
    using assms(1) by (simp_all add: world_inv_def queues_inv_def)
  with extends_fresh [OF _ assms(2)] extends_live [OF assms(2)] show ?thesis by (auto simp: unowned_def)
qed

lemma w_alloc_unowned:
  assumes "world_inv w" and "w_alloc n w = Ok (b, w')"
  shows "unowned w' = insert b (unowned w)" and "b \<notin> kh_live (kheap w)" and "world_inv w'"
proof -
  obtain h where h: "w' = w\<lparr>kheap := h\<rparr>" "extends (kheap w) h {b}" using w_alloc_Ok [OF assms(2)] by blast
  then show "unowned w' = insert b (unowned w)" using alloc_unowned [OF assms(1) h(2)] by simp
  show "b \<notin> kh_live (kheap w)" using extends_fresh [OF _ h(2)] assms(1) by (auto simp: world_inv_def)
  show "world_inv w'" using w_alloc_inv(1) [OF assms] .
qed

lemma queue_task_unowned:
  assumes run: "queue_task r f p w = Ok (z, w')" and inv: "world_inv w" and sp: "spare w (param_blocks p)"
  shows "unowned w' = unowned w - param_blocks p"
proof -
  obtain b where b: "tasks (queue_of r w') = tasks (queue_of r w) @ [\<lparr>qt_blk = b, qt_task = f, qt_parameter = p\<rparr>]"
    "\<forall>q. q \<noteq> r \<longrightarrow> queue_of q w' = queue_of q w" "extends (kheap w) (kheap w') {b}"
    using run by (rule queue_task_grows)
  have wf: "wf_heap (kheap w)" and sub: "tasks_blocks (all_tasks w) \<subseteq> kh_live (kheap w)"
    using inv by (simp_all add: world_inv_def queues_inv_def)
  from b(1) b(2) [rule_format, of MIHF] b(2) [rule_format, of DISPATCH] extends_fresh [OF wf b(3)]
    extends_live [OF b(3)] sub sp
  show ?thesis by (cases r) (auto simp: unowned_def all_tasks_def task_blocks_def spare_def)
qed

lemma unowned_spare: "B \<subseteq> unowned w \<longleftrightarrow> spare w B"
  by (auto simp: unowned_def spare_def)

lemma indication_unowned:
  assumes inv: "world_inv w" and a: "w_alloc i w = Ok (c, w1)" "w_alloc j w1 = Ok (b, w2)"
    and q: "queue_task MIHF f (Link (b, lp)) w2 = Ok (z, w')" and lp: "lp_link_addr lp = c"
  shows "unowned w' = unowned w"
proof -
  note 1 = w_alloc_unowned [OF inv a(1)]
  note 2 = w_alloc_unowned [OF 1(3) a(2)]
  have "spare w2 {b, c}" unfolding unowned_spare [symmetric] using 1(1) 2(1) by simp
  then have "unowned w' = unowned w2 - {b, c}" using queue_task_unowned [OF q 2(3)] lp by simp
  moreover have "c \<notin> unowned w" "b \<notin> unowned w1" using 1(2) 2(2) by (auto simp: unowned_def)
  ultimately show ?thesis using 1(1) 2(1) by auto
qed

lemma NetDevNotifier_unowned:
  assumes "world_inv w" and "NetDevNotifier event dev w = Ok (r, w')"
  shows "unowned w' = unowned w"
proof -
  have up: ?thesis if "DevLinkUp dev w = Ok w'"
    using that by (auto simp: DevLinkUp_def Let_def elim!: cbind_OkE dest: indication_unowned [OF assms(1)])
  have down: ?thesis if "DevLinkDown dev w = Ok w'"
    using that by (auto simp: DevLinkDown_def elim!: cbind_OkE dest: indication_unowned [OF assms(1)])
  have going: ?thesis if "DevLinkGoingDown dev w = Ok w'"
    using that by (auto simp: DevLinkGoingDown_def elim!: cbind_OkE dest: indication_unowned [OF assms(1)])
  show ?thesis
    using assms up down going
    by (auto simp: NetDevNotifier_def elim!: cbind_OkE split: if_splits netdev_event.splits)
qed

lemma stop_executor_unowned:
  assumes "stop_executor r w = Ok w'" and "world_inv w"
  shows "unowned w' = unowned w"
  using assms by (auto simp: stop_executor_def spare_def elim!: cbind_OkE dest: queue_task_unowned)

text \<open>
  A turn of the UDP thread: what it keeps for the next one apart, nothing is lost when the
  receive failed, and the reply handler and, when there was memory for it, the address
  when a datagram was taken.
\<close>

lemma udp_turn_unowned:
  assumes run: "udp_turn sk got st w = Ok (st', w')" and inv: "world_inv w" and sp: "spare w (reusing st)"
    and ne: "\<forall>rx buf. st = Some (rx, buf) \<longrightarrow> buf \<notin> set_option rx"
  shows "\<exists>L. unowned w' - reusing st' = unowned w - reusing st \<union> L \<and> L \<inter> (unowned w - reusing st) = {} \<and>
    finite L \<and> length (sender_of sk got) \<le> card L \<and> card L \<le> 2 * length (sender_of sk got)"
proof -
  obtain rx buf w1 z cells src where
    al: "(case st of Some (rxaddr, buf) \<Rightarrow> Ok (rxaddr, buf, w)
       | None \<Rightarrow> (let (rxaddr, w) = w_kmalloc sizeof_sockaddr_in w in
           cbind (w_alloc BUFFER_SIZE w) (\<lambda>(buf, w). Ok (rxaddr, buf, w)))) = Ok (rx, buf, w1)"
    and rc: "udp_recv sk got (replicate BUFFER_SIZE (Some 0)) (int BUFFER_SIZE) = Ok (z, cells, src)"
    using run by (auto simp: udp_turn_def elim!: cbind_OkE)
  note run = run [unfolded udp_turn_def al rc cbind.simps prod.case]
  let ?K = "insert buf (set_option rx)"
  have w1: "world_inv w1 \<and> unowned w1 - ?K = unowned w - reusing st \<and> ?K \<subseteq> unowned w1 \<and> buf \<notin> set_option rx"
  proof (cases st)
    case (Some p)
    with al inv sp ne unowned_spare show ?thesis by (cases p) (auto simp: reusing_def)
  next
    case None
    obtain h where k: "kmalloc 16 (kheap w) = (rx, h)" and b: "w_alloc 4096 (w\<lparr>kheap := h\<rparr>) = Ok (buf, w1)"
      using al None by (auto simp: Let_def w_kmalloc_def split: prod.splits elim!: cbind_OkE)
    have e: "extends (kheap w) h (set_option rx)" using k by (cases rx) (auto dest: kmalloc_Some kmalloc_None)
    note v = alloc_inv(1) [OF inv e] alloc_unowned [OF inv e]
    note u = w_alloc_unowned [OF v(1) b]
    have "set_option rx \<inter> kh_live (kheap w) = {}" using extends_fresh [OF _ e] inv by (simp add: world_inv_def)
    then have "set_option rx \<inter> unowned w = {}" by (auto simp: unowned_def)
    moreover have "buf \<notin> set_option rx \<union> unowned w"
      using u(2) extends_live [OF e] by (auto simp: unowned_def)
    ultimately show ?thesis using None u(1,3) v(2) by (auto simp: reusing_def)
  qed
  have len: "length (sender_of sk got) = (if z < 0 then 0 else 1)"
    using rc by (auto simp: udp_recv_def sender_of_def Let_def split: if_splits arrival.splits)
  show ?thesis
  proof (cases "z < 0")
    case True
    with run have "st' = Some (rx, buf)" "w' = w1" by auto
    then show ?thesis using w1 len True by (intro exI [of _ "{}"]) (auto simp: reusing_def)
  next
    case False
    with run obtain rb w2 pb w3 y rp where a: "w_alloc 16 w1 = Ok (rb, w2)" "w_alloc 32 w2 = Ok (pb, w3)"
      and q: "queue_task MIHF Addr_handle_message (Received (pb, \<lparr>rm_len = z, rm_msg = Blk buf cells,
        rm_reply = (rb, \<lparr>rh_handler = Addr_handle_udp_reply, rh_param = rp\<rparr>)\<rparr>)) w3 = Ok (y, w')" and st': "st' = None"
      by (auto simp: Let_def elim!: cbind_OkE)
    note 1 = w_alloc_unowned [OF _ a(1)] and 2 = w_alloc_unowned [OF _ a(2)]
    have inv2: "world_inv w2" "world_inv w3" using 1 2 w1 by simp_all
    have u: "unowned w3 = insert pb (insert rb (unowned w1))" "rb \<notin> unowned w1" "pb \<notin> insert rb (unowned w1)"
      using 1 2 w1 inv2 by (auto simp: unowned_def)
    then have "spare w3 {pb, buf}" unfolding unowned_spare [symmetric] using w1 by auto
    then have "unowned w' = unowned w3 - {pb, buf}" using queue_task_unowned [OF q inv2(2)] by (simp add: insert_commute)
    then have "unowned w' - reusing st' = unowned w - reusing st \<union> insert rb (set_option rx)"
      using w1 u st' by (auto simp: reusing_def)
    moreover have "insert rb (set_option rx) \<inter> (unowned w - reusing st) = {}" using w1 u by auto
    moreover have "rb \<notin> set_option rx" using w1 u(2) by auto
    then have "1 \<le> card (insert rb (set_option rx)) \<and> card (insert rb (set_option rx)) \<le> 2" by (cases rx) auto
    ultimately show ?thesis using len False by (intro exI [of _ "insert rb (set_option rx)"]) simp
  qed
qed

lemma udp_leave_unowned:
  assumes "udp_loop sk [Stop] st w = Ok (e, w')" and "spare w (reusing st)"
  shows "unowned w' = unowned w - reusing st"
proof (cases st)
  case None
  with assms show ?thesis by (auto simp: reusing_def)
next
  case (Some p)
  obtain rx buf where p: "p = (rx, buf)" by (cases p)
  obtain h h2 where f: "kfree rx (kheap w) = Ok h" "kfree (Some buf) h = Ok h2" "w' = w\<lparr>kheap := h2\<rparr>"
    using assms(1) Some p by (auto simp: w_kfree_def elim!: cbind_OkE)
  have "kh_live h2 = kh_live (kheap w) - reusing st"
    using f(1,2) Some p by (cases rx) (auto simp: kfree_def reusing_def split: if_splits)
  then show ?thesis by (auto simp: unowned_def f(3))
qed

section \<open>What a run loses\<close>

text \<open>The allocated blocks that neither a task nor the UDP thread owns.\<close>

definition lost :: "module_run \<Rightarrow> nat set" where
  "lost s = unowned (mr_world s) - reusing (mr_reuse s)"

text \<open>\<open>L\<close> was lost between two states: one or two blocks for each request that came in.\<close>

definition loses :: "nat set \<Rightarrow> module_run \<Rightarrow> module_run \<Rightarrow> bool" where
  "loses L s s' \<longleftrightarrow> lost s' = lost s \<union> L \<and> L \<inter> lost s = {} \<and> finite L \<and>
     (\<exists>ds. mr_senders s' = mr_senders s @ ds \<and> length ds \<le> card L \<and> card L \<le> 2 * length ds)"

lemma loses_nothing: "lost s' = lost s \<Longrightarrow> mr_senders s' = mr_senders s \<Longrightarrow> loses {} s s'"
  by (simp add: loses_def)

lemma loses_trans:
  assumes "loses L s t" and "loses M t u"
  shows "loses (L \<union> M) s u"
proof -
  obtain ds es where d: "mr_senders t = mr_senders s @ ds" "length ds \<le> card L" "card L \<le> 2 * length ds"
    "mr_senders u = mr_senders t @ es" "length es \<le> card M" "card M \<le> 2 * length es"
    using assms by (auto simp: loses_def)
  have "L \<inter> M = {}" "finite L" "finite M" using assms by (auto simp: loses_def)
  then have "card (L \<union> M) = card L + card M" by (simp add: card_Un_disjoint)
  with d have "length (ds @ es) \<le> card (L \<union> M)" "card (L \<union> M) \<le> 2 * length (ds @ es)" by simp_all
  moreover have "mr_senders u = mr_senders s @ (ds @ es)" using d by simp
  ultimately show ?thesis using assms unfolding loses_def by blast
qed

lemma module_moves_loses: "module_moves s s' \<Longrightarrow> module_inv s \<Longrightarrow> \<exists>L. loses L s s'"
proof (induction rule: module_moves.induct)
  case (turn sk got s st w)
  then have "world_inv (mr_world s)" "spare (mr_world s) (reusing (mr_reuse s))"
    "\<forall>rx buf. mr_reuse s = Some (rx, buf) \<longrightarrow> buf \<notin> set_option rx" by (simp_all add: module_inv_def)
  from udp_turn_unowned [OF turn.hyps this] show ?case by (simp add: loses_def lost_def)
next
  case (leave sk s w)
  then have "unowned w = unowned (mr_world s) - reusing (mr_reuse s)"
    by (intro udp_leave_unowned) (simp_all add: module_inv_def)
  then show ?case by (intro exI [of _ "{}"] loses_nothing) (auto simp: lost_def reusing_def)
next
  case (notify event dev s r w)
  then have "unowned w = unowned (mr_world s)"
    by (intro NetDevNotifier_unowned [OF _ notify.hyps]) (simp add: module_inv_def)
  then show ?case by (intro exI [of _ "{}"] loses_nothing) (simp_all add: lost_def)
next
  case (stop q s w)
  then have "unowned w = unowned (mr_world s)"
    by (intro stop_executor_unowned [OF stop.hyps]) (simp add: module_inv_def)
  then show ?case by (intro exI [of _ "{}"] loses_nothing) (simp_all add: lost_def)
next
  case (execute q k s r w)
  then have "unowned w = unowned (mr_world s)"
    by (intro execute_task_inv(3) [OF _ execute.hyps]) (simp add: module_inv_def)
  then show ?case by (intro exI [of _ "{}"] loses_nothing) (simp_all add: lost_def)
qed

lemma run_loses: "module_moves\<^sup>*\<^sup>* s0 s \<Longrightarrow> module_starts s0 \<Longrightarrow> \<exists>L. loses L s0 s"
proof (induction rule: rtranclp_induct)
  case base
  then show ?case by (intro exI [of _ "{}"] loses_nothing) simp_all
next
  case (step t u)
  then have "module_inv t" by (intro service.run_inv)
  with step show ?case using module_moves_loses loses_trans by blast
qed

section \<open>Properties\<close>

text \<open>
  Property C10: the executors neither lose nor steal memory. In every state the module
  reaches, whatever task an executor takes and whatever that task does, the blocks that
  are allocated and owned by no queued task are the same before and after: what the task
  owned is released or has gone to the tasks it queued.
\<close>

theorem executors_conserve_memory:
  assumes "module_reachable s" and "w = mr_world s" and "execute_task call_handler r k w = Ok (res, w')"
  shows "kh_live (kheap w') - tasks_blocks (all_tasks w') = kh_live (kheap w) - tasks_blocks (all_tasks w)"
proof -
  have "world_inv w" using module_reachable_inv [OF assms(1)] assms(2) by (simp add: module_inv_def)
  from execute_task_inv(3) [OF this assms(3)] show ?thesis by (simp add: unowned_def)
qed

theorem executors_conserve_memory_witness:
  "\<exists>w w'. tasks (mihf_queue w) \<noteq> [] \<and> execute_task call_handler MIHF Acquired w = Ok (1, w') \<and>
    kh_live (kheap w') - tasks_blocks (all_tasks w') = kh_live (kheap w) - tasks_blocks (all_tasks w)"
proof -
  let ?sk = "\<lparr>sock_id = 0, sock_sk = True\<rparr>"
  obtain w1 w2 where r: "udp_turn ?sk (Datagram sample_datagram inbound_addr) None world0 = Ok (None, w1)"
    "execute_task call_handler MIHF Acquired w1 = Ok (1, w2)" by (rule sample_datagram_answered)
  let ?s = "\<lparr>mr_world = w1, mr_reuse = None, mr_senders = [inbound_addr]\<rparr>"
  have "module_moves run0 ?s"
    using module_moves.turn [of ?sk "Datagram sample_datagram inbound_addr" run0 None w1] r(1)
    by (simp add: sender_of_def)
  with module_reachable.start [OF run0_starts] have s: "module_reachable ?s" by (rule module_reachable.step)
  have "tasks (mihf_queue w1) \<noteq> []" using udp_turn_effect [OF r(1)] by (auto simp: sender_of_def)
  moreover have "w1 = mr_world ?s" by simp
  ultimately show ?thesis using executors_conserve_memory [OF s _ r(2)] r(2) by blast
qed



end
