(* ===== verification/Mih_Unload.thy ===== *)
theory Mih_Unload
  imports Mih_Mod
    Mih_Memory
begin

text \<open>
  What the executors do with the memory of the tasks, and what unloading does with tasks
  that are still queued: both queues are drained, the MIHF queue first, so that the replies
  its last tasks queue are still dispatched, and everything the tasks own is released.
\<close>

section \<open>One task\<close>

fun other :: "queue_ref \<Rightarrow> queue_ref" where
  "other MIHF = DISPATCH"
| "other DISPATCH = MIHF"

text \<open>
  What serving the queue \<open>r\<close> adds to the other one: tasks, each with a unit of the
  semaphore and none of them poison, and nothing when the dispatch queue is served.
\<close>

definition adds :: "queue_ref \<Rightarrow> queued_task list \<Rightarrow> world \<Rightarrow> world \<Rightarrow> bool" where
  "adds r us w w' \<longleftrightarrow> tasks (queue_of (other r) w') = tasks (queue_of (other r) w) @ us \<and>
     sem (queue_of (other r) w') = sem (queue_of (other r) w) + length us \<and>
     (\<forall>u \<in> set us. qt_task u \<noteq> poison_task) \<and> (r = DISPATCH \<longrightarrow> us = [])"

lemma adds_trans: "adds r us w v \<Longrightarrow> adds r vs v v' \<Longrightarrow> adds r (us @ vs) w v'"
  by (auto simp: adds_def)

lemma serve_head:
  assumes inv: "world_inv w" and head: "tasks (queue_of r w) = t # ts"
    and run: "execute_task call_handler r Acquired w = Ok (res, w')"
  shows "res = (if qt_task t = poison_task then 0 else 1) \<and> world_inv w' \<and> unowned w' = unowned w \<and>
    tasks (queue_of r w') = ts \<and> sem (queue_of r w') = sem (queue_of r w) - 1 \<and> (\<exists>us. adds r us w w')"
proof -
  let ?w = "down_killable r Acquired w"
  have take: "take_task call_handler r ?w = Ok (res, w')" using run by (simp add: execute_task_def)
  have head': "tasks (queue_of r ?w) = t # ts" and inv': "world_inv ?w" using head inv by simp_all
  obtain us ds where eff: "world_inv w'" "unowned w' = unowned ?w" "traffic (qt_parameter t) us ds"
    "tasks (mihf_queue w') = (if r = MIHF then ts else tasks (mihf_queue ?w))"
    "tasks (dispatch_queue w') = (if r = DISPATCH then ts else tasks (dispatch_queue ?w)) @ us"
    "sem (mihf_queue w') = sem (mihf_queue ?w)" "sem (dispatch_queue w') = sem (dispatch_queue ?w) + length us"
    "\<forall>u \<in> set us. dispatch_admits (qt_task u)"
    using take_task_effect [OF inv' take head'] by blast
  have none: "us = []" if "r = DISPATCH"
    using queued_parameter [OF inv', of t r] head' eff(3) that by auto
  have live: "qt_task u \<noteq> poison_task" if "u \<in> set us" for u
    using eff(8) that by (auto simp: dispatch_admits_def)
  obtain w1 w2 w3 where "(if qt_task t = poison_task then Ok (0, w1)
      else cbind (call_handler (qt_task t) (qt_parameter t) w1) (\<lambda>w. Ok (1, w))) = Ok (res, w2)"
    using take_task_split [OF take head' refl] by blast
  then have res: "res = (if qt_task t = poison_task then 0 else 1)" by (auto split: if_splits elim!: cbind_OkE)
  have "tasks (queue_of r w') = ts \<and> sem (queue_of r w') = sem (queue_of r w) - 1 \<and> adds r us w w'"
    using eff(4-7) none live by (cases r) (auto simp: down_killable_def adds_def)
  with res eff(1,2) show ?thesis by auto
qed

section \<open>Draining a queue\<close>

lemma executor_drains:
  "world_inv w \<Longrightarrow> tasks (queue_of r w) = pre @ [t] \<Longrightarrow> qt_task t = poison_task \<Longrightarrow>
   \<forall>u \<in> set pre. qt_task u \<noteq> poison_task \<Longrightarrow> sem (queue_of r w) = Suc (length pre) \<Longrightarrow> length pre < n \<Longrightarrow>
   task_executor call_handler r n w = Ok e \<Longrightarrow>
   \<exists>w' us. e = Returns w' \<and> world_inv w' \<and> unowned w' = unowned w \<and> tasks (queue_of r w') = [] \<and>
     sem (queue_of r w') = 0 \<and> adds r us w w'"
proof (induction n arbitrary: w pre)
  case 0
  then show ?case by simp
next
  case (Suc n)
  obtain res w1 where run: "execute_task call_handler r Acquired w = Ok (res, w1)"
    and rest: "(if res = 0 then Ok (Returns w1) else task_executor call_handler r n w1) = Ok e"
    using Suc.prems(5,7) by (auto elim!: cbind_OkE)
  show ?case
  proof (cases pre)
    case Nil
    with Suc.prems have "tasks (queue_of r w) = t # []" by simp
    from serve_head [OF Suc.prems(1) this run] rest Suc.prems(3,5) Nil show ?thesis by auto
  next
    case (Cons u us)
    with Suc.prems have head: "tasks (queue_of r w) = u # (us @ [t])" "qt_task u \<noteq> poison_task" by simp_all
    from serve_head [OF Suc.prems(1) head(1) run] head(2) obtain as where
      s: "res = 1" "world_inv w1" "unowned w1 = unowned w" "tasks (queue_of r w1) = us @ [t]"
      "sem (queue_of r w1) = sem (queue_of r w) - 1" "adds r as w w1" by auto
    have "\<exists>w' bs. e = Returns w' \<and> world_inv w' \<and> unowned w' = unowned w1 \<and> tasks (queue_of r w') = [] \<and>
        sem (queue_of r w') = 0 \<and> adds r bs w1 w'"
      by (rule Suc.IH [OF s(2,4)]) (use Suc.prems Cons s rest in auto)
    then show ?thesis using s(3,6) adds_trans by metis
  qed
qed

text \<open>Each task has its unit of the semaphore and nobody has been told to stop.\<close>

definition busy :: "queue_ref \<Rightarrow> world \<Rightarrow> bool" where
  "busy r w \<longleftrightarrow> sem (queue_of r w) = length (tasks (queue_of r w)) \<and>
     (\<forall>t \<in> set (tasks (queue_of r w)). qt_task t \<noteq> poison_task)"

lemma stop_executor_queues:
  assumes "stop_executor r w = Ok w'" and "world_inv w"
  shows "world_inv w' \<and> unowned w' = unowned w \<and> sem (queue_of r w') = Suc (sem (queue_of r w)) \<and>
    (\<exists>b. tasks (queue_of r w') = tasks (queue_of r w) @ [\<lparr>qt_blk = b, qt_task = poison_task, qt_parameter = NULL\<rparr>]) \<and>
    queue_of (other r) w' = queue_of (other r) w"
proof -
  obtain z w1 where l: "link_task r poison_task NULL w = Ok w1" and w': "w' = up r w1"
    using assms(1) by (auto simp: stop_executor_def queue_task_def elim!: cbind_OkE)
  obtain b where b: "queue_of r w1 = (queue_of r w)\<lparr>tasks := tasks (queue_of r w) @
      [\<lparr>qt_blk = b, qt_task = poison_task, qt_parameter = NULL\<rparr>]\<rparr>" "extends (kheap w) (kheap w1) {b}"
    "\<forall>r'. r' \<noteq> r \<longrightarrow> queue_of r' w1 = queue_of r' w" using l by (rule link_task_queue)
  have wf: "wf_heap (kheap w)" and sub: "tasks_blocks (all_tasks w) \<subseteq> kh_live (kheap w)"
    using assms(2) by (simp_all add: world_inv_def queues_inv_def)
  have o: "queue_of (other r) w1 = queue_of (other r) w" using b(3) [rule_format, of "other r"] by (cases r) simp_all
  have "kheap w' = kheap w1" by (cases r) (simp_all add: w' up_def)
  then have "unowned w' = unowned w"
    using extends_live [OF b(2)] extends_fresh [OF wf b(2)] sub b(1) o
    by (cases r) (auto simp: unowned_def all_tasks_def w' up_def task_blocks_def)
  then show ?thesis
    using stop_executor_inv [OF assms(2,1)] b(1) o by (cases r) (auto simp: w' up_def)
qed

text \<open>Telling an executor to stop and waiting for it.\<close>

lemma end_executor_drains:
  assumes run: "end_executor t r st = Ok st'" and inv: "world_inv (shared st)" and busy: "busy r (shared st)"
  shows "\<exists>w' us. st' = st\<lparr>shared := w', running := running st - {t}\<rparr> \<and> world_inv w' \<and>
    unowned w' = unowned (shared st) \<and> tasks (queue_of r w') = [] \<and> sem (queue_of r w') = 0 \<and>
    adds r us (shared st) w'"
proof -
  obtain w1 w2 where stop: "stop_executor r (shared st) = Ok w1"
    and ex: "task_executor call_handler r (Suc (sem (queue_of r w1))) w1 = Ok (Returns w2)"
    and st': "st' = st\<lparr>shared := w2, running := running st - {t}\<rparr>"
    using run by (auto simp: end_executor_def kthread_stop_def elim!: cbind_OkE split: executor_end.splits kthread.splits)
  note q = stop_executor_queues [OF stop inv]
  then obtain b where b: "tasks (queue_of r w1) = tasks (queue_of r (shared st)) @
      [\<lparr>qt_blk = b, qt_task = poison_task, qt_parameter = NULL\<rparr>]" by blast
  have "\<exists>w' us. Returns w2 = Returns w' \<and> world_inv w' \<and> unowned w' = unowned w1 \<and> tasks (queue_of r w') = [] \<and>
      sem (queue_of r w') = 0 \<and> adds r us w1 w'"
    by (rule executor_drains [OF _ b _ _ _ _ ex]) (use q busy in \<open>simp_all add: busy_def\<close>)
  then show ?thesis using q st' by (auto simp: adds_def)
qed

lemma adds_busy: "adds r us w w' \<Longrightarrow> busy (other r) w \<Longrightarrow> busy (other r) w'"
  by (auto simp: adds_def busy_def)

section \<open>Unloading a busy module\<close>

lemma wake_up_keeps:
  assumes "wake_up d w = Ok (ok, w')" and "wf_socks w"
  shows "queue_of r w' = queue_of r w \<and> kheap w' = kheap w \<and> wf_socks w' \<and> open_socks w' = open_socks w"
proof (cases "net_ret w (net_calls w) < 0")
  case True
  with assms show ?thesis by (cases r) (auto simp: wake_up_def sock_create_def net_call_def Let_def wf_socks_def less_Suc_eq)
next
  case False
  have "net_calls w \<notin> open_socks w" using assms(2) by (auto simp: wf_socks_def)
  with False assms show ?thesis
    by (cases r) (auto simp: wake_up_def sock_create_def net_call_def Let_def udp_send_def sock_release_def wf_socks_def
        less_Suc_eq split: if_splits elim!: cbind_OkE)
qed

text \<open>What stopping the threads leaves of a state: everything but the shared part and the threads.\<close>

definition same_globals :: "module_state \<Rightarrow> module_state \<Rightarrow> bool" where
  "same_globals st st' \<longleftrightarrow> hand st' = hand st \<and> snd_buf st' = snd_buf st \<and> rcv_buf st' = rcv_buf st \<and>
     src_mihf_id st' = src_mihf_id st \<and> dst_mihf_id st' = dst_mihf_id st"

definition same_tasks :: "world \<Rightarrow> world \<Rightarrow> bool" where
  "same_tasks w w' \<longleftrightarrow> (\<forall>r. queue_of r w' = queue_of r w) \<and> kheap w' = kheap w \<and> wf_socks w'"

lemma same_tasks_inv:
  assumes "same_tasks w w'"
  shows "world_inv w \<Longrightarrow> world_inv w'" and "unowned w' = unowned w" and "busy r w' = busy r w"
    and "all_tasks w' = all_tasks w"
proof -
  have e: "queue_of r w' = queue_of r w" for r using assms by (simp add: same_tasks_def)
  have k: "kheap w' = kheap w" "wf_socks w'" using assms by (simp_all add: same_tasks_def)
  from e [of MIHF] e [of DISPATCH] have q: "mihf_queue w' = mihf_queue w" "dispatch_queue w' = dispatch_queue w" by simp_all
  show "world_inv w \<Longrightarrow> world_inv w'" "unowned w' = unowned w" "all_tasks w' = all_tasks w"
    using q k by (simp_all add: world_inv_def queues_inv_def all_tasks_def unowned_def)
  show "busy r w' = busy r w" using assms by (simp add: busy_def same_tasks_def)
qed

definition receivers_stopped :: "module_state \<Rightarrow> module_state \<Rightarrow> bool" where
  "receivers_stopped st st' \<longleftrightarrow> same_globals st st' \<and> same_tasks (shared st) (shared st') \<and>
     (\<exists>T \<subseteq> {TCP_HAND, UDP_HAND}. running st' = running st - T)"

lemma receivers_stopped_refl: "wf_socks (shared st) \<Longrightarrow> receivers_stopped st st"
  by (auto simp: receivers_stopped_def same_globals_def same_tasks_def)

lemma receivers_stopped_trans:
  assumes "receivers_stopped st st1" and "receivers_stopped st1 st2"
  shows "receivers_stopped st st2"
proof -
  obtain T U where t: "T \<subseteq> {TCP_HAND, UDP_HAND}" "U \<subseteq> {TCP_HAND, UDP_HAND}"
    and r: "running st1 = running st - T" "running st2 = running st1 - U"
    using assms unfolding receivers_stopped_def by blast
  have "T \<union> U \<subseteq> {TCP_HAND, UDP_HAND}" using t by (rule Un_least)
  moreover have "running st2 = running st - (T \<union> U)" unfolding r by blast
  ultimately have "\<exists>T \<subseteq> {TCP_HAND, UDP_HAND}. running st2 = running st - T" by (intro exI conjI)
  then show ?thesis using assms by (simp add: receivers_stopped_def same_globals_def same_tasks_def)
qed

lemma wake_up_stopped: "wake_up d (shared st) = Ok (ok, w) \<Longrightarrow> wf_socks (shared st) \<Longrightarrow> receivers_stopped st (st\<lparr>shared := w\<rparr>)"
  by (auto simp: receivers_stopped_def same_globals_def same_tasks_def wake_up_keeps intro: exI [of _ "{}"])

lemma kthread_stop_keeps: "kthread_stop t st = Ok st' \<Longrightarrow> st' = st\<lparr>running := running st - {t}\<rparr>"
  by (auto simp: kthread_stop_def split: kthread.splits)

lemma kthread_stop_stopped:
  assumes "kthread_stop t st = Ok st'" and "t \<in> {TCP_HAND, UDP_HAND}" and "wf_socks (shared st)"
  shows "receivers_stopped st st'"
  using kthread_stop_keeps [OF assms(1)] assms(2,3)
  by (auto simp: receivers_stopped_def same_globals_def same_tasks_def)

lemma stopped_socks: "receivers_stopped st st' \<Longrightarrow> wf_socks (shared st')"
  by (simp add: receivers_stopped_def same_tasks_def)

lemma kill_net_hand_keeps:
  assumes run: "kill_net_hand_threads st = Ok st'" and so: "wf_socks (shared st)"
  shows "receivers_stopped st st'"
proof -
  have one: "receivers_stopped st st2" if "wake_up d (shared st) = Ok (ok, w)" "kthread_stop t (st\<lparr>shared := w\<rparr>) = Ok st2"
    "t \<in> {TCP_HAND, UDP_HAND}" "wf_socks (shared st)" for st st2 d t ok w
  proof -
    have "receivers_stopped st (st\<lparr>shared := w\<rparr>)" using that(1,4) by (rule wake_up_stopped)
    then show ?thesis using kthread_stop_stopped [OF that(2,3)] stopped_socks receivers_stopped_trans by blast
  qed
  obtain go st1 where first: "(if hand st TCP_HAND \<noteq> No_thread
            then cbind (wake_up False (shared st)) (\<lambda>(ok, w).
                 if ok then cbind (kthread_stop TCP_HAND (st\<lparr>shared := w\<rparr>)) (\<lambda>st. Ok (True, st))
                 else Ok (False, st\<lparr>shared := w\<rparr>))
            else Ok (True, st)) = Ok (go, st1)"
    and second: "(if go \<and> hand st1 UDP_HAND \<noteq> No_thread
     then cbind (wake_up True (shared st1)) (\<lambda>(ok, w).
          if ok then kthread_stop UDP_HAND (st1\<lparr>shared := w\<rparr>) else Ok (st1\<lparr>shared := w\<rparr>))
     else Ok st1) = Ok st'"
    using run by (auto simp: kill_net_hand_threads_def elim!: cbind_OkE)
  have 1: "receivers_stopped st st1"
    using first so by (auto split: if_splits elim!: cbind_OkE intro: one wake_up_stopped receivers_stopped_refl)
  have "receivers_stopped st1 st'"
    using second stopped_socks [OF 1]
    by (auto split: if_splits elim!: cbind_OkE intro: one wake_up_stopped receivers_stopped_refl)
  with 1 show ?thesis by (rule receivers_stopped_trans)
qed

lemma stop_threads_drains:
  assumes run: "stop_threads st = Ok st'" and inv: "world_inv (shared st)" and busy: "\<And>r. busy r (shared st)"
    and hand: "hand st MIHF_EXECUTOR = Thread" "hand st DISPATCH_EXECUTOR = Thread"
  shows "same_globals st st' \<and> unowned (shared st') = unowned (shared st) \<and> (\<forall>r. tasks (queue_of r (shared st')) = []) \<and>
    running st' \<subseteq> running st - {MIHF_EXECUTOR, DISPATCH_EXECUTOR}"
proof -
  let ?st = "st\<lparr>threads_should_stop := True\<rparr>"
  obtain st1 st2 st3 where k: "kill_net_hand_threads ?st = Ok st1"
    and d: "(if hand st1 DEV_MON \<noteq> No_thread then kthread_stop DEV_MON st1 else Ok st1) = Ok st2"
    and m: "(if hand st2 MIHF_EXECUTOR \<noteq> No_thread then end_executor MIHF_EXECUTOR MIHF st2 else Ok st2) = Ok st3"
    and p: "(if hand st3 DISPATCH_EXECUTOR \<noteq> No_thread then end_executor DISPATCH_EXECUTOR DISPATCH st3 else Ok st3) = Ok st'"
    using run unfolding stop_threads_def by (elim cbind_OkE) (rule that)
  have "wf_socks (shared ?st)" using inv by (simp add: world_inv_def)
  note r1 = kill_net_hand_keeps [OF k this]
  then have g1: "same_globals st st1" and s1: "same_tasks (shared st) (shared st1)" and R1: "running st1 \<subseteq> running st"
    by (auto simp: receivers_stopped_def same_globals_def)
  have 2: "st2 = st1\<lparr>running := running st2\<rparr>" "running st2 \<subseteq> running st1"
    using d kthread_stop_keeps [of DEV_MON st1 st2] by (auto split: if_splits)
  have sh2: "shared st2 = shared st1" "hand st2 = hand st" "same_globals st st2"
    using 2(1) g1 by (cases st1; cases st2; simp add: same_globals_def)+
  note keep = same_tasks_inv [OF s1]
  have i2: "world_inv (shared st2)" "busy r (shared st2)" for r using keep inv busy sh2(1) by simp_all
  have m': "end_executor MIHF_EXECUTOR MIHF st2 = Ok st3" using m sh2(2) hand by simp
  from end_executor_drains [OF m' i2] obtain w3 us where
    3: "st3 = st2\<lparr>shared := w3, running := running st2 - {MIHF_EXECUTOR}\<rparr>" "world_inv w3"
      "unowned w3 = unowned (shared st2)" "tasks (queue_of MIHF w3) = []" "adds MIHF us (shared st2) w3" by auto
  have p': "end_executor DISPATCH_EXECUTOR DISPATCH st3 = Ok st'" using p 3(1) sh2(2) hand by simp
  have i3: "world_inv (shared st3)" "busy DISPATCH (shared st3)"
    using 3(1,2) adds_busy [OF 3(5) i2(2)] by simp_all
  from end_executor_drains [OF p' i3] obtain w4 vs where
    4: "st' = st3\<lparr>shared := w4, running := running st3 - {DISPATCH_EXECUTOR}\<rparr>"
      "unowned w4 = unowned (shared st3)" "tasks (queue_of DISPATCH w4) = []" "adds DISPATCH vs (shared st3) w4" by auto
  have "tasks (queue_of r w4) = []" for r
    using 4(3,4) 3(1,4) by (cases r) (simp_all add: adds_def)
  moreover have "same_globals st st'" using sh2(3) 3(1) 4(1) by (simp add: same_globals_def)
  moreover have "running st' \<subseteq> running st - {MIHF_EXECUTOR, DISPATCH_EXECUTOR}"
    using R1 2(2) 3(1) 4(1) by auto
  ultimately show ?thesis using 3(1,3) 4(1,2) keep(2) sh2(1) by simp
qed

lemma kfree_live_diff: "kfree p h = Ok h' \<Longrightarrow> kh_live h' = kh_live h - set_option p"
  by (cases p) (auto simp: kfree_def split: if_splits)

lemma mod_End_drains:
  assumes run: "mod_End st = Ok st'" and inv: "world_inv (shared st)" and busy: "\<And>r. busy r (shared st)"
    and hand: "hand st MIHF_EXECUTOR = Thread" "hand st DISPATCH_EXECUTOR = Thread"
    and l: "loaded h st v1 v2" and out: "tasks_blocks (all_tasks (shared st)) \<subseteq> kh_live h"
  shows "(\<forall>r. tasks (queue_of r (shared st')) = []) \<and>
    kh_live (kheap (shared st')) = kh_live h - tasks_blocks (all_tasks (shared st)) \<union> {v1, v2} \<and>
    running st' \<subseteq> running st - {MIHF_EXECUTOR, DISPATCH_EXECUTOR}"
proof -
  obtain b1 b2 t1 t2 where t: "src_mihf_id st = Some t1" "dst_mihf_id st = Some t2"
      "tlv_blk t1 = Some b1" "tlv_blk t2 = Some b2"
    and d: "distinct [b1, v1, b2, v2]" "buffer_blocks st \<inter> {b1, v1, b2, v2} = {}"
    and g: "gains h (kheap (shared st)) (buffer_blocks st \<union> {b1, v1, b2, v2})"
    using l unfolding loaded_def by blast
  obtain st1 where s: "stop_threads st = Ok st1"
    and rest: "mod_End st = cbind (kfree (snd_buf st1) (kheap (shared st1))) (\<lambda>h.
       cbind (kfree (rcv_buf st1) h) (\<lambda>h.
       cbind (case src_mihf_id st1 of None \<Rightarrow> Ok h | Some t \<Rightarrow> kfree (tlv_blk t) h) (\<lambda>h.
       cbind (case dst_mihf_id st1 of None \<Rightarrow> Ok h | Some t \<Rightarrow> kfree (tlv_blk t) h) (\<lambda>h.
       Ok (st1\<lparr>netdev_notifier := False, inaddr_notifier := False, shared := (shared st1)\<lparr>kheap := h\<rparr>\<rparr>)))))"
    using run by (auto simp: mod_End_def elim!: cbind_OkE)
  note dr = stop_threads_drains [OF s inv busy hand]
  then have g1: "snd_buf st1 = snd_buf st" "rcv_buf st1 = rcv_buf st" "src_mihf_id st1 = Some t1" "dst_mihf_id st1 = Some t2"
    using t by (simp_all add: same_globals_def)
  obtain h1 h2 h3 h4 where f: "kfree (snd_buf st) (kheap (shared st1)) = Ok h1" "kfree (rcv_buf st) h1 = Ok h2"
    "kfree (Some b1) h2 = Ok h3" "kfree (Some b2) h3 = Ok h4"
    and st': "st' = st1\<lparr>netdev_notifier := False, inaddr_notifier := False, shared := (shared st1)\<lparr>kheap := h4\<rparr>\<rparr>"
    using run [unfolded rest] by (auto simp: g1 t elim!: cbind_OkE)
  have "tasks (queue_of r (shared st1)) = []" for r using dr by simp
  from this [of MIHF] this [of DISPATCH] have "unowned (shared st1) = kh_live (kheap (shared st1))"
    by (simp add: unowned_def all_tasks_def)
  then have "kh_live (kheap (shared st1)) = kh_live (kheap (shared st)) - tasks_blocks (all_tasks (shared st))"
    using dr by (simp add: unowned_def)
  also have "kh_live (kheap (shared st)) = kh_live h \<union> (buffer_blocks st \<union> {b1, v1, b2, v2})"
    using g by (simp add: gains_def)
  finally have "kh_live h4 = (kh_live h \<union> (buffer_blocks st \<union> {b1, v1, b2, v2})) - tasks_blocks (all_tasks (shared st)) -
      set_option (snd_buf st) - set_option (rcv_buf st) - {b1} - {b2}"
    using f by (simp add: kfree_live_diff [of _ _ h4] kfree_live_diff [of _ _ h3] kfree_live_diff [of _ _ h2] kfree_live_diff [of _ _ h1])
  moreover have "(buffer_blocks st \<union> {b1, v1, b2, v2}) \<inter> kh_live h = {}" using g by (simp add: gains_def)
  ultimately have "kh_live h4 = kh_live h - tasks_blocks (all_tasks (shared st)) \<union> {v1, v2}"
    using d out by (auto simp: buffer_blocks_def)
  with st' dr show ?thesis by simp
qed

section \<open>Property\<close>

text \<open>A loaded module with one indication on its MIHF queue, for an example.\<close>

definition busy_module :: module_state where
  "busy_module =
     \<lparr>shared = world0\<lparr>kheap := \<lparr>kh_next = 9, kh_live = {0, 1, 2, 3, 4, 5, 6, 7, 8}, kh_ok = \<lambda>i n. True\<rparr>,
        mihf_queue := \<lparr>tasks = [\<lparr>qt_blk = 6, qt_task = Addr_Link_Up_indication, qt_parameter =
          Link (7, \<lparr>lp_type = Some ETHERNET, lp_dev_addr = 0, lp_link_addr = 8, lp_reason = 0\<rparr>)\<rparr>], sem = 1, locked = False\<rparr>\<rparr>,
      snd_buf = Some 0, rcv_buf = Some 1,
      src_mihf_id = Some \<lparr>tlv_blk = Some 2, tlv_type = SRC_MIHF_ID_TLV, tlv_length = 4, tlv_value = Blk 3 (map Some mymihfid @ [None])\<rparr>,
      dst_mihf_id = Some \<lparr>tlv_blk = Some 4, tlv_type = DST_MIHF_ID_TLV, tlv_length = 4, tlv_value = Blk 5 (map Some mymihfid @ [None])\<rparr>,
      hand = (\<lambda>t. if t \<in> started then Thread else No_thread), threads_should_stop = False,
      netdev_notifier = True, inaddr_notifier = True, running = started\<rparr>"



end
