(* ===== verification/C_Layout.thy ===== *)
theory C_Layout
  imports Main
begin

text \<open>
  How a C compiler lays out structures on the 64-bit machines the module is built for: a
  scalar is aligned to its size, a member is put at the next offset its type admits, a
  structure has the strictest alignment of its members and a size that is a multiple of
  it, the members of a union share the offset 0, and a run of bit-fields fills one unit of
  its type from the low bits on.
\<close>

section \<open>Types\<close>

text \<open>
  \<open>Prim n\<close> is a scalar or a pointer of \<open>n\<close> bytes. \<open>Bits n fs\<close> is a run of bit-fields, with
  their widths, in a unit of \<open>n\<close> bytes; it stands among the members of a structure.
\<close>

datatype ctype =
    Prim nat
  | Bits nat "(string \<times> nat) list"
  | Arr nat ctype
  | Struct "(string \<times> ctype) list"
  | Union "(string \<times> ctype) list"

abbreviation (input) Ptr :: ctype where "Ptr \<equiv> Prim 8"

definition align_up :: "nat \<Rightarrow> nat \<Rightarrow> nat" where
  "align_up n a = (n + a - 1) div a * a"

definition bits_width :: "(string \<times> nat) list \<Rightarrow> nat" where
  "bits_width fs = sum_list (map snd fs)"

function alignof :: "ctype \<Rightarrow> nat" and strictest :: "(string \<times> ctype) list \<Rightarrow> nat" where
  "alignof (Prim n) = n"
| "alignof (Bits n fs) = n"
| "alignof (Arr k t) = alignof t"
| "alignof (Struct ms) = strictest ms"
| "alignof (Union ms) = strictest ms"
| "strictest [] = 1"
| "strictest ((f, t) # ms) = max (alignof t) (strictest ms)"
  by pat_completeness auto
termination
  by (relation "measure (case_sum size (size_list (size_prod (\<lambda>_. 0) size)))") auto

text \<open>\<open>extent ms off\<close> is where the last of the members ends when the first may start at \<open>off\<close>.\<close>

function sizeof :: "ctype \<Rightarrow> nat" and extent :: "(string \<times> ctype) list \<Rightarrow> nat \<Rightarrow> nat"
  and widest :: "(string \<times> ctype) list \<Rightarrow> nat" where
  "sizeof (Prim n) = n"
| "sizeof (Bits n fs) = (bits_width fs + 7) div 8"
| "sizeof (Arr k t) = k * sizeof t"
| "sizeof (Struct ms) = align_up (extent ms 0) (strictest ms)"
| "sizeof (Union ms) = align_up (widest ms) (strictest ms)"
| "extent [] off = off"
| "extent ((f, t) # ms) off = extent ms (align_up off (alignof t) + sizeof t)"
| "widest [] = 0"
| "widest ((f, t) # ms) = max (sizeof t) (widest ms)"
  by pat_completeness auto
termination
  by (relation "measure (case_sum size (case_sum (\<lambda>(ms, off). size_list (size_prod (\<lambda>_. 0) size) ms)
        (size_list (size_prod (\<lambda>_. 0) size))))") auto

text \<open>The offset and the type of a member, and of a member of a member.\<close>

fun place :: "(string \<times> ctype) list \<Rightarrow> nat \<Rightarrow> string \<Rightarrow> (nat \<times> ctype) option" where
  "place [] off f = None"
| "place ((g, t) # ms) off f =
     (let here = align_up off (alignof t) in
      if g = f then Some (here, t) else place ms (here + sizeof t) f)"

fun member :: "ctype \<Rightarrow> string \<Rightarrow> (nat \<times> ctype) option" where
  "member (Struct ms) f = place ms 0 f"
| "member (Union ms) f = map_option (Pair 0) (map_of ms f)"
| "member t f = None"

fun locate :: "ctype \<Rightarrow> string list \<Rightarrow> (nat \<times> ctype) option" where
  "locate t [] = Some (0, t)"
| "locate t (f # fs) =
     (case member t f of
        None \<Rightarrow> None
      | Some (off, u) \<Rightarrow> map_option (\<lambda>(off', v). (off + off', v)) (locate u fs))"

text \<open>The position and the width of a bit-field in its unit.\<close>

fun bit_place :: "(string \<times> nat) list \<Rightarrow> nat \<Rightarrow> string \<Rightarrow> (nat \<times> nat) option" where
  "bit_place [] pos f = None"
| "bit_place ((g, w) # fs) pos f = (if g = f then Some (pos, w) else bit_place fs (pos + w) f)"

section \<open>Well-formed types\<close>

function wf_ctype :: "ctype \<Rightarrow> bool" and wf_members :: "(string \<times> ctype) list \<Rightarrow> bool" where
  "wf_ctype (Prim n) \<longleftrightarrow> n \<in> {1, 2, 4, 8, 16}"
| "wf_ctype (Bits n fs) \<longleftrightarrow> n \<in> {1, 2, 4, 8} \<and> bits_width fs \<le> 8 * n \<and> distinct (map fst fs)"
| "wf_ctype (Arr k t) \<longleftrightarrow> wf_ctype t"
| "wf_ctype (Struct ms) \<longleftrightarrow> wf_members ms \<and> distinct (map fst ms)"
| "wf_ctype (Union ms) \<longleftrightarrow> wf_members ms \<and> distinct (map fst ms)"
| "wf_members [] \<longleftrightarrow> True"
| "wf_members ((f, t) # ms) \<longleftrightarrow> wf_ctype t \<and> wf_members ms"
  by pat_completeness auto
termination
  by (relation "measure (case_sum size (size_list (size_prod (\<lambda>_. 0) size)))") auto

section \<open>Alignment\<close>

lemma align_up_props:
  assumes "0 < a"
  shows "n \<le> align_up n a" and "a dvd align_up n a" and "a dvd n \<Longrightarrow> align_up n a = n"
proof -
  have "n + a - 1 = (n + a - 1) div a * a + (n + a - 1) mod a" by simp
  moreover have "(n + a - 1) mod a < a" using assms by simp
  ultimately show "n \<le> align_up n a" unfolding align_up_def by linarith
  show "a dvd align_up n a" by (simp add: align_up_def)
  show "align_up n a = n" if d: "a dvd n"
  proof -
    obtain k where k: "n = a * k" using d by blast
    have "(a * k + a - 1) div a = k" using assms by (intro div_nat_eqI) (simp_all add: algebra_simps)
    then show ?thesis using k by (simp add: align_up_def)
  qed
qed

text \<open>Alignments are powers of two, so the greater of two is a multiple of the other.\<close>

definition power_of_two :: "nat \<Rightarrow> bool" where
  "power_of_two n \<longleftrightarrow> (\<exists>k. n = 2 ^ k)"

lemma power_of_two_max:
  assumes "power_of_two a" and "power_of_two b"
  shows "power_of_two (max a b)" and "a dvd max a b" and "b dvd max a b"
proof -
  obtain i j where e: "a = 2 ^ i" "b = 2 ^ j" using assms by (auto simp: power_of_two_def)
  then have "max a b = 2 ^ max i j" by (simp add: max_def)
  then show "power_of_two (max a b)" "a dvd max a b" "b dvd max a b"
    using e by (auto simp: power_of_two_def le_imp_power_dvd)
qed

lemma alignment:
  "wf_ctype t \<Longrightarrow> power_of_two (alignof t)"
  "wf_members ms \<Longrightarrow> power_of_two (strictest ms) \<and> (\<forall>m \<in> set ms. alignof (snd m) dvd strictest ms)"
proof (induction t and ms rule: alignof_strictest.induct)
  case (1 n)
  then show ?case
    by (auto simp: power_of_two_def intro: exI [of _ "0 :: nat"] exI [of _ "1 :: nat"] exI [of _ "2 :: nat"]
        exI [of _ "3 :: nat"] exI [of _ "4 :: nat"])
next
  case (2 n fs)
  then show ?case
    by (auto simp: power_of_two_def intro: exI [of _ "0 :: nat"] exI [of _ "1 :: nat"] exI [of _ "2 :: nat"]
        exI [of _ "3 :: nat"])
next
  case 6
  then show ?case by (auto simp: power_of_two_def intro: exI [of _ "0 :: nat"])
next
  case (7 f t ms)
  then have "power_of_two (alignof t)" "power_of_two (strictest ms)" by simp_all
  note m = power_of_two_max [OF this]
  with 7 show ?case by (auto intro: dvd_trans)
qed simp_all

lemma alignof_pos: "wf_ctype t \<Longrightarrow> 0 < alignof t"
  using alignment(1) [of t] by (auto simp: power_of_two_def)

lemma strictest_pos: "wf_members ms \<Longrightarrow> 0 < strictest ms"
  using alignment(2) [of ms] by (auto simp: power_of_two_def)

section \<open>Members lie inside and apart\<close>

lemma extent_ge: "wf_members ms \<Longrightarrow> off \<le> extent ms off"
proof (induction ms arbitrary: off)
  case (Cons m ms)
  obtain f t where m: "m = (f, t)" by (cases m)
  with Cons.prems have wf: "wf_ctype t" "wf_members ms" by simp_all
  have "off \<le> align_up off (alignof t)" using alignof_pos [OF wf(1)] by (rule align_up_props)
  also have "\<dots> \<le> extent ms (align_up off (alignof t) + sizeof t)"
    using Cons.IH [OF wf(2), of "align_up off (alignof t) + sizeof t"] by simp
  finally show ?case by (simp add: m)
qed simp

lemma place_inside:
  "wf_members ms \<Longrightarrow> place ms off f = Some (at, t) \<Longrightarrow>
   off \<le> at \<and> alignof t dvd at \<and> at + sizeof t \<le> extent ms off \<and> (f, t) \<in> set ms"
proof (induction ms off f rule: place.induct)
  case (2 g u ms off f)
  have wf: "wf_ctype u" "wf_members ms" using "2.prems"(1) by simp_all
  note up = align_up_props [OF alignof_pos [OF wf(1)], of off]
  show ?case
  proof (cases "g = f")
    case True
    with "2.prems"(2) up extent_ge [OF wf(2), of "align_up off (alignof u) + sizeof u"] show ?thesis by auto
  next
    case False
    with "2.prems"(2) have "place ms (align_up off (alignof u) + sizeof u) f = Some (at, t)" by (simp add: Let_def)
    from "2.IH" [OF refl False wf(2) this] up(1) show ?thesis by auto
  qed
qed simp

lemma place_apart:
  "wf_members ms \<Longrightarrow> place ms off f = Some (i, t) \<Longrightarrow> place ms off g = Some (j, u) \<Longrightarrow> f \<noteq> g \<Longrightarrow>
   i + sizeof t \<le> j \<or> j + sizeof u \<le> i"
proof (induction ms off f arbitrary: i j rule: place.induct)
  case (2 h v ms off f)
  have wf: "wf_members ms" using "2.prems"(1) by simp
  let ?next = "align_up off (alignof v) + sizeof v"
  consider "h = f" | "h = g" | "h \<noteq> f" "h \<noteq> g" by blast
  then show ?case
  proof cases
    case 1
    with "2.prems" have "t = v" "i = align_up off (alignof v)" "place ms ?next g = Some (j, u)"
      by (auto simp: Let_def split: if_splits)
    with place_inside [OF wf, of ?next g j u] show ?thesis by simp
  next
    case 2
    with "2.prems" have "u = v" "j = align_up off (alignof v)" "place ms ?next f = Some (i, t)"
      by (auto simp: Let_def split: if_splits)
    with place_inside [OF wf, of ?next f i t] show ?thesis by simp
  next
    case 3
    with "2.prems" have "place ms ?next f = Some (i, t)" "place ms ?next g = Some (j, u)"
      by (simp_all add: Let_def)
    with "2.IH" [OF refl 3(1) wf] "2.prems"(4) show ?thesis by blast
  qed
qed simp

lemma widest_ge: "(f, t) \<in> set ms \<Longrightarrow> sizeof t \<le> widest ms"
  by (induction ms) (auto simp: le_max_iff_disj)

lemma wf_members_in: "wf_members ms \<Longrightarrow> (f, t) \<in> set ms \<Longrightarrow> wf_ctype t"
  by (induction ms) auto

lemma member_inside:
  assumes "wf_ctype t" and "member t f = Some (off, u)"
  shows "off + sizeof u \<le> sizeof t" and "alignof u dvd off" and "alignof u dvd alignof t" and "wf_ctype u"
proof -
  have "off + sizeof u \<le> sizeof t \<and> alignof u dvd off \<and> alignof u dvd alignof t \<and> wf_ctype u"
  proof (cases t)
    case (Struct ms)
    then have wf: "wf_members ms" and p: "place ms 0 f = Some (off, u)" using assms by simp_all
    note in' = place_inside [OF wf p]
    have "extent ms 0 \<le> sizeof t" using align_up_props(1) [OF strictest_pos [OF wf]] Struct by simp
    moreover have "alignof u dvd strictest ms" using alignment(2) [OF wf] in' by auto
    ultimately show ?thesis using in' Struct wf_members_in [OF wf] by auto
  next
    case (Union ms)
    then have wf: "wf_members ms" and p: "(f, u) \<in> set ms" "off = 0" using assms by (auto dest: map_of_SomeD)
    have "widest ms \<le> sizeof t" using align_up_props(1) [OF strictest_pos [OF wf]] Union by simp
    moreover have "alignof u dvd strictest ms" using alignment(2) [OF wf] p by auto
    ultimately show ?thesis using widest_ge [OF p(1)] p Union wf_members_in [OF wf] by auto
  qed (use assms in auto)
  then show "off + sizeof u \<le> sizeof t" "alignof u dvd off" "alignof u dvd alignof t" "wf_ctype u" by simp_all
qed

lemma locate_inside:
  "wf_ctype t \<Longrightarrow> locate t fs = Some (off, u) \<Longrightarrow>
   off + sizeof u \<le> sizeof t \<and> alignof u dvd off \<and> alignof u dvd alignof t \<and> wf_ctype u"
proof (induction t fs arbitrary: off u rule: locate.induct)
  case (1 t)
  then show ?case by simp
next
  case (2 t f fs)
  obtain i v where m: "member t f = Some (i, v)" using "2.prems"(2) by (cases "member t f") auto
  then obtain j where j: "locate v fs = Some (j, u)" "off = i + j" using "2.prems"(2) by auto
  note in' = member_inside [OF "2.prems"(1) m]
  note below = "2.IH" [OF m refl in'(4) j(1)]
  have "alignof u dvd i" using below in'(2) dvd_trans by blast
  then show ?case using below in' j(2) dvd_trans by auto
qed

text \<open>Bit-fields lie inside their unit and apart.\<close>

lemma bit_place_inside: "bit_place fs pos f = Some (i, w) \<Longrightarrow> pos \<le> i \<and> i + w \<le> pos + bits_width fs"
  by (induction fs pos f rule: bit_place.induct) (auto simp: bits_width_def split: if_splits)

lemma bit_place_apart:
  "bit_place fs pos f = Some (i, w) \<Longrightarrow> bit_place fs pos g = Some (j, v) \<Longrightarrow> f \<noteq> g \<Longrightarrow> i + w \<le> j \<or> j + v \<le> i"
proof (induction fs pos f arbitrary: i j rule: bit_place.induct)
  case (2 h u fs pos f)
  from "2.prems" bit_place_inside [of fs "pos + u"] "2.IH" show ?case by (auto split: if_splits)
qed simp

end
