(* ===== verification/Mih_Layout.thy ===== *)
theory Mih_Layout
  imports C_Layout
begin

text \<open>
  The type definitions of \<open>mih.h\<close>, and the structures of \<open>proto.h\<close>, \<open>queue.h\<close>, \<open>net_hand.c\<close>,
  \<open>data.h\<close> and \<open>mih_link_sap.h\<close>, as layout descriptors, in the order of the source and
  with its names; a structure without a type name carries the prefix \<open>struct\<close>. A pointer
  is described by its size alone; an enumeration has the size of an \<open>int\<close>.
\<close>

named_theorems layout

section \<open>Structures of the kernel\<close>

text \<open>\<open>struct list_head\<close> and \<open>struct sockaddr\<close>, which the definitions below embed.\<close>

definition list_head :: ctype where [layout]:
  "list_head = Struct [(''next'', Ptr), (''prev'', Ptr)]"

definition struct_sockaddr :: ctype where [layout]:
  "struct_sockaddr = Struct [(''sa_family'', Prim 2), (''sa_data'', Arr 14 (Prim 1))]"

section \<open>Information elements and addresses\<close>

definition u24 :: ctype where [layout]:
  "u24 = Struct [(''data'', Arr 3 (Prim 1))]"

definition u128 :: ctype where [layout]:
  "u128 = Prim 16"

definition network_id_t :: ctype where [layout]:
  "network_id_t = Ptr"

definition op_mode_t :: ctype where [layout]:
  "op_mode_t = Prim 1"

definition cos_id_t :: ctype where [layout]:
  "cos_id_t = Prim 1"

definition num_cos_types_t :: ctype where [layout]:
  "num_cos_types_t = Struct [(''cos_id'', cos_id_t), (''val'', Prim 2)]"

definition min_pk_tx_delay_t :: ctype where [layout]:
  "min_pk_tx_delay_t = Struct [(''cos_id'', cos_id_t), (''val'', Prim 2)]"

definition avg_pk_tx_delay_t :: ctype where [layout]:
  "avg_pk_tx_delay_t = Struct [(''cos_id'', cos_id_t), (''val'', Prim 2)]"

definition max_pk_tx_delay_t :: ctype where [layout]:
  "max_pk_tx_delay_t = Struct [(''cos_id'', cos_id_t), (''val'', Prim 2)]"

definition pk_delay_jitter_t :: ctype where [layout]:
  "pk_delay_jitter_t = Struct [(''cos_id'', cos_id_t), (''val'', Prim 2)]"

definition pk_loss_rate_t :: ctype where [layout]:
  "pk_loss_rate_t = Struct [(''cos_id'', cos_id_t), (''val'', Prim 2)]"

definition qos_list_t :: ctype where [layout]:
  "qos_list_t = Struct [(''num_cos_types'', num_cos_types_t), (''min_pk_tx_delay'', Ptr),
       (''avg_pk_tx_delay'', Ptr), (''max_pk_tx_delay'', Ptr), (''pk_delay_jitter'', Ptr),
       (''pk_loss_rate'', Ptr)]"

definition ip_mob_mgmt_t :: ctype where [layout]:
  "ip_mob_mgmt_t = Prim 2"

definition freq_bands_t :: ctype where [layout]:
  "freq_bands_t = Ptr"

definition net_caps_t :: ctype where [layout]:
  "net_caps_t = Prim 4"

definition cntry_code_t :: ctype where [layout]:
  "cntry_code_t = Prim 2"

definition regu_domain_t :: ctype where [layout]:
  "regu_domain_t = Struct [(''cntry_code'', cntry_code_t), (''class'', Prim 1)]"

definition supported_lcp_t :: ctype where [layout]:
  "supported_lcp_t = Prim 1"

definition type_ext_t :: ctype where [layout]:
  "type_ext_t = Ptr"

definition pilot_pn_t :: ctype where [layout]:
  "pilot_pn_t = Prim 2"

definition ip4_addr_t :: ctype where [layout]:
  "ip4_addr_t = Prim 4"

definition ip6_addr_t :: ctype where [layout]:
  "ip6_addr_t = u128"

definition fqdn_t :: ctype where [layout]:
  "fqdn_t = Ptr"

definition proxy_addr_t :: ctype where [layout]:
  "proxy_addr_t = Union [(''ip4_addr'', ip4_addr_t), (''ip6_addr'', ip6_addr_t), (''fqdn'', fqdn_t)]"

definition freq_id_t :: ctype where [layout]:
  "freq_id_t = Prim 2"

definition base_id_t :: ctype where [layout]:
  "base_id_t = Prim 2"

definition band_class_t :: ctype where [layout]:
  "band_class_t = Prim 1"

definition sys_params_t :: ctype where [layout]:
  "sys_params_t = Struct [(''base_id'', base_id_t), (''pilot_pn'', pilot_pn_t), (''freq_id'', freq_id_t),
       (''band_class'', band_class_t)]"

definition subtype_t :: ctype where [layout]:
  "subtype_t = Prim 8"

definition link_type_t :: ctype where [layout]:
  "link_type_t = Prim 1"

definition network_type_t :: ctype where [layout]:
  "network_type_t = Struct [(''link_type'', link_type_t), (''subtype'', subtype_t),
       (''type_ext'', type_ext_t)]"

definition fq_code_num_t :: ctype where [layout]:
  "fq_code_num_t = Prim 2"

definition cell_id_t :: ctype where [layout]:
  "cell_id_t = Prim 4"

definition sib_t :: ctype where [layout]:
  "sib_t = Struct [(''cell_id'', cell_id_t), (''fq_code_num'', fq_code_num_t)]"

definition gap_t :: ctype where [layout]:
  "gap_t = Struct [(''ttg'', Prim 2), (''rtg'', Prim 1)]"

definition data_rate_t :: ctype where [layout]:
  "data_rate_t = Prim 4"

definition eirp_t :: ctype where [layout]:
  "eirp_t = Prim 2"

definition down_bp_t :: ctype where [layout]:
  "down_bp_t = Ptr"

definition up_bp_t :: ctype where [layout]:
  "up_bp_t = Ptr"

definition burst_prof_t :: ctype where [layout]:
  "burst_prof_t = Struct [(''down_bp'', down_bp_t), (''up_bp'', up_bp_t)]"

definition bandwidth_t :: ctype where [layout]:
  "bandwidth_t = Prim 2"

definition du_ctr_freq_t :: ctype where [layout]:
  "du_ctr_freq_t = Prim 1"

definition init_code_t :: ctype where [layout]:
  "init_code_t = Prim 1"

definition ho_code_t :: ctype where [layout]:
  "ho_code_t = Prim 1"

definition cdma_codes_t :: ctype where [layout]:
  "cdma_codes_t = Struct [(''init_code'', init_code_t), (''ho_code'', ho_code_t)]"

definition dcd_ucd_t :: ctype where [layout]:
  "dcd_ucd_t = Struct [(''base_id'', base_id_t), (''bandwidth'', bandwidth_t),
       (''du_ctr_freq'', du_ctr_freq_t), (''eirp'', eirp_t), (''gap'', gap_t),
       (''burst_prof'', burst_prof_t), (''cdma_codes'', cdma_codes_t)]"

definition parameters_t :: ctype where [layout]:
  "parameters_t = Union [(''dcd_ucd'', dcd_ucd_t), (''sib'', sib_t), (''sys_params'', sys_params_t)]"

definition net_aux_id_t :: ctype where [layout]:
  "net_aux_id_t = Ptr"

definition cost_unit_t :: ctype where [layout]:
  "cost_unit_t = Prim 1"

definition op_namespace_t :: ctype where [layout]:
  "op_namespace_t = Prim 1"

definition op_name_t :: ctype where [layout]:
  "op_name_t = Ptr"

definition operator_id_t :: ctype where [layout]:
  "operator_id_t = Struct [(''op_name'', op_name_t), (''op_namespace'', op_namespace_t)]"

definition roaming_ptns_t :: ctype where [layout]:
  "roaming_ptns_t = Ptr"

definition sp_id_t :: ctype where [layout]:
  "sp_id_t = Ptr"

definition cost_value_t :: ctype where [layout]:
  "cost_value_t = Struct [(''val_int'', Prim 4), (''val_frac'', Prim 2)]"

definition cost_curr_t :: ctype where [layout]:
  "cost_curr_t = u24"

definition cost_t :: ctype where [layout]:
  "cost_t = Struct [(''unit'', cost_unit_t), (''value'', cost_value_t), (''curr'', cost_curr_t)]"

definition boolean_t :: ctype where [layout]:
  "boolean_t = Prim 4"

definition batt_level_t :: ctype where [layout]:
  "batt_level_t = Prim 1"

definition channel_id_t :: ctype where [layout]:
  "channel_id_t = Prim 2"

definition config_status_t :: ctype where [layout]:
  "config_status_t = boolean_t"

definition device_info_t :: ctype where [layout]:
  "device_info_t = Ptr"

definition ip_prefix_len_t :: ctype where [layout]:
  "ip_prefix_len_t = Prim 1"

definition transport_addr_t :: ctype where [layout]:
  "transport_addr_t = Struct [(''addr_type'', Prim 2), (''addr'', Ptr)]"

definition mac_addr_t :: ctype where [layout]:
  "mac_addr_t = transport_addr_t"

definition ip_addr_t :: ctype where [layout]:
  "ip_addr_t = transport_addr_t"

definition dhcp_serv_t :: ctype where [layout]:
  "dhcp_serv_t = ip_addr_t"

definition ip_subnet_info_t :: ctype where [layout]:
  "ip_subnet_info_t = Struct [(''ip_prefix_len'', ip_prefix_len_t), (''ip_addr'', ip_addr_t)]"

definition fn_agnt_t :: ctype where [layout]:
  "fn_agnt_t = ip_addr_t"

definition acc_rtr_t :: ctype where [layout]:
  "acc_rtr_t = ip_addr_t"

definition ip_cfg_mthds_t :: ctype where [layout]:
  "ip_cfg_mthds_t = Prim 4"

definition ip_config_t :: ctype where [layout]:
  "ip_config_t = Struct [(''ip_cfg_mthds'', ip_cfg_mthds_t), (''dhcp_serv'', dhcp_serv_t),
       (''fn_agnt'', fn_agnt_t), (''acc_rtr'', acc_rtr_t)]"

definition ci_t :: ctype where [layout]:
  "ci_t = Prim 2"

definition lac_t :: ctype where [layout]:
  "lac_t = Prim 2"

definition plmn_id_t :: ctype where [layout]:
  "plmn_id_t = u24"

definition tgpp_2g_cell_id_t :: ctype where [layout]:
  "tgpp_2g_cell_id_t = Struct [(''plmn_id'', plmn_id_t), (''lac'', lac_t), (''ci'', ci_t)]"

definition tgpp_3g_cell_id_t :: ctype where [layout]:
  "tgpp_3g_cell_id_t = Struct [(''plmn_id'', plmn_id_t), (''cell_id'', cell_id_t)]"

definition tgpp_addr_t :: ctype where [layout]:
  "tgpp_addr_t = Ptr"

definition tgpp2_addr_t :: ctype where [layout]:
  "tgpp2_addr_t = Ptr"

definition other_l2_addr_t :: ctype where [layout]:
  "other_l2_addr_t = Ptr"

definition link_addr_t :: ctype where [layout]:
  "link_addr_t = Union [(''mac_addr'', mac_addr_t), (''tgpp_3g_cell_id'', tgpp_3g_cell_id_t),
       (''tgpp_2g_cell_id'', tgpp_2g_cell_id_t), (''tgpp_addr'', tgpp_addr_t),
       (''tgpp2_addr'', tgpp2_addr_t), (''other_l2_addr'', other_l2_addr_t)]"

definition system_info_t :: ctype where [layout]:
  "system_info_t = Struct [(''network_type'', network_type_t), (''link_addr'', link_addr_t),
       (''parameters'', parameters_t)]"

definition link_id_t :: ctype where [layout]:
  "link_id_t = Struct [(''link_type'', link_type_t), (''link_addr'', link_addr_t)]"

definition transport_type_t :: ctype where [layout]:
  "transport_type_t = Prim 4"

definition mihf_id_t :: ctype where [layout]:
  "mihf_id_t = Ptr"

definition civic_addr_t :: ctype where [layout]:
  "civic_addr_t = Ptr"

definition bin_civic_loc_t :: ctype where [layout]:
  "bin_civic_loc_t = Struct [(''cntry_code'', cntry_code_t), (''civic_addr'', civic_addr_t)]"

definition xml_civic_loc_t :: ctype where [layout]:
  "xml_civic_loc_t = Ptr"

definition bin_geo_loc_t :: ctype where [layout]:
  "bin_geo_loc_t = u128"

definition xml_geo_loc_t :: ctype where [layout]:
  "xml_geo_loc_t = Ptr"

definition civic_loc_t :: ctype where [layout]:
  "civic_loc_t = Union [(''bin_civic_loc'', bin_civic_loc_t), (''xml_civic_loc'', xml_civic_loc_t)]"

definition geo_loc_t :: ctype where [layout]:
  "geo_loc_t = Union [(''bin_geo'', bin_geo_loc_t), (''xml_geo_loc'', xml_geo_loc_t)]"

definition location_t :: ctype where [layout]:
  "location_t = Union [(''civic_loc'', civic_loc_t), (''geo_loc'', geo_loc_t), (''cell_id'', cell_id_t)]"

definition ch_range_t :: ctype where [layout]:
  "ch_range_t = Struct [(''low'', Prim 4), (''high'', Prim 4)]"

definition ie_container_poa_t :: ctype where [layout]:
  "ie_container_poa_t = Struct [(''ie_poa_link_addr'', link_addr_t), (''ie_poa_location'', location_t),
       (''ie_poa_channel_range'', ch_range_t), (''ie_poa_system_info'', system_info_t),
       (''ie_poa_subnet_info'', Ptr), (''ie_poa_ip_addr'', Ptr), (''next'', Ptr)]"

definition ie_container_network_t :: ctype where [layout]:
  "ie_container_network_t = Struct [(''ie_network_type'', network_type_t), (''ie_operator_id'', operator_id_t),
       (''ie_service_provider_id'', sp_id_t), (''ie_country_code'', cntry_code_t),
       (''ie_network_id'', network_id_t), (''ie_network_aux_id'', net_aux_id_t),
       (''ie_roaming_partners'', roaming_ptns_t), (''ie_cost'', cost_t),
       (''ie_network_qos'', qos_list_t), (''ie_network_data_rate'', data_rate_t),
       (''ie_net_regulat_domain'', regu_domain_t),
       (''ie_net_frequency_bands'', freq_bands_t), (''ie_net_ip_cfg_methods'', ip_config_t),
       (''ie_net_capabilities'', net_caps_t), (''ie_net_supported_lcp'', supported_lcp_t),
       (''ie_net_mob_mgmt_prot'', ip_mob_mgmt_t), (''ie_net_emserv_proxy'', proxy_addr_t),
       (''ie_net_ims_proxy_cscf'', proxy_addr_t), (''ie_net_mobile_network'', boolean_t),
       (''ie_container_poa'', Ptr), (''next'', Ptr)]"

section \<open>Messages, capabilities and links\<close>

definition mih_header_t :: ctype where [layout]:
  "mih_header_t = Struct [(''bits0'', Bits 2 [(''version'', 4), (''ackreq'', 1), (''ackrsp'', 1),
       (''uir'', 1), (''morefragment'', 1), (''fragmentnumber'', 7), (''rsvd1'', 1)]),
       (''bits1'', Bits 2 [(''sid'', 4), (''opcode'', 2), (''aid'', 10)]),
       (''bits2'', Bits 2 [(''rsvd2'', 4), (''tid'', 12)]),
       (''bits3'', Bits 2 [(''payloadlength'', 16)])]"

definition mih_tlv_t :: ctype where [layout]:
  "mih_tlv_t = Struct [(''list'', list_head), (''type'', Prim 1), (''length'', Prim 4),
       (''value'', Ptr)]"

definition mih_message_t :: ctype where [layout]:
  "mih_message_t = Struct [(''header'', mih_header_t), (''tlvs'', mih_tlv_t)]"

definition enumerated_t :: ctype where [layout]:
  "enumerated_t = Prim 1"

definition status_t :: ctype where [layout]:
  "status_t = Prim 4"

definition mih_sid_t :: ctype where [layout]:
  "mih_sid_t = Prim 4"

definition link_event_list_t :: ctype where [layout]:
  "link_event_list_t = Struct [(''bits'', Bits 4 [(''Link_Detected'', 1), (''Link_Up'', 1), (''Link_Down'', 1),
       (''Link_Parameters_Report'', 1), (''Link_Going_Down'', 1),
       (''Link_Handover_Imminent'', 1), (''Link_Handover_Complete'', 1),
       (''Link_PDU_Transmit_Status'', 1), (''Reserved'', 24)]), (''list'', list_head)]"

definition link_cmd_list_t :: ctype where [layout]:
  "link_cmd_list_t = Struct [(''bits'', Bits 4 [(''Reserved'', 1), (''Link_Event_Subscribe'', 1),
       (''Link_Event_Unsubscribe'', 1), (''Link_Get_Parameters'', 1),
       (''Link_Configure_Thresholds'', 1), (''Link_Action'', 1), (''Reserved2'', 26)]),
       (''list'', list_head)]"

definition mih_evt_list_t :: ctype where [layout]:
  "mih_evt_list_t = Struct [(''bits'', Bits 4 [(''MIH_Link_Detected'', 1), (''MIH_Link_Up'', 1),
       (''MIH_Link_Down'', 1), (''MIH_Link_Parameters_Report'', 1),
       (''MIH_Link_Going_Down'', 1), (''MIH_Link_Handover_Imminent'', 1),
       (''MIH_Link_Handover_Complete'', 1), (''MIH_Link_PDU_Transmit_Status'', 1),
       (''Reserved'', 24)]), (''list'', list_head)]"

definition mih_cmd_list_t :: ctype where [layout]:
  "mih_cmd_list_t = Struct [(''bits'', Bits 4 [(''MIH_Link_Get_Parameters'', 1),
       (''MIH_Link_Configure_Thresholds'', 1), (''MIH_Link_Actions'', 1),
       (''MIH_Net_HO_Candidate_Query'', 1), (''MIH_MN_HO_Candidate_Query'', 1),
       (''Reserved'', 25)]), (''list'', list_head)]"

definition mih_iq_type_lst_t :: ctype where [layout]:
  "mih_iq_type_lst_t = Struct [(''bits'', Bits 8 [(''Binary_Data'', 1), (''RDF_Data'', 1),
       (''RDF_Schema_URL'', 1), (''RDF_Schema'', 1), (''IE_Network_Type'', 1),
       (''IE_Operator_ID'', 1), (''IE_Service_Provider_ID'', 1), (''IE_Country_Code'', 1),
       (''IE_Network_ID'', 1), (''IE_Nework_Aux_ID'', 1), (''IE_Roaming_Partners'', 1),
       (''IE_Cost'', 1), (''IE_Network_QoS'', 1), (''IE_Network_Date_Rate'', 1),
       (''IE_Net_Regult_Domain'', 1), (''IE_Net_Frequency_bands'', 1),
       (''IE_Net_IP_Cfg_Methods'', 1), (''IE_Net_Capabilities'', 1),
       (''IE_Net_Supported_LCP'', 1), (''IE_Net_Mob_Mgmt_Prot'', 1),
       (''IE_Net_Emserv_Proxy'', 1), (''IE_Net_IMS_Proxy_CSCF'', 1),
       (''IE_Net_Mobile_Network'', 1), (''IE_PoA_Link_Addr'', 1), (''IE_PoA_Location'', 1),
       (''IE_PoA_Channel_Range'', 1), (''IE_PoA_System_Info'', 1),
       (''IE_PoA_Subnet_Info'', 1), (''IE_PoA_IP_Addr'', 1), (''Reserved'', 1)]),
       (''list'', list_head)]"

definition mih_trans_lst_t :: ctype where [layout]:
  "mih_trans_lst_t = Struct [(''bits'', Bits 2 [(''UDP'', 1), (''TCP'', 1), (''Reserved'', 14)]),
       (''list'', list_head)]"

definition reg_request_code_t :: ctype where [layout]:
  "reg_request_code_t = Prim 1"

definition percentage_t :: ctype where [layout]:
  "percentage_t = Prim 1"

definition sig_strength_t :: ctype where [layout]:
  "sig_strength_t = Prim 1"

definition link_data_rate_t :: ctype where [layout]:
  "link_data_rate_t = Prim 4"

definition link_dn_reason_t :: ctype where [layout]:
  "link_dn_reason_t = Prim 4"

definition link_det_cfg_t :: ctype where [layout]:
  "link_det_cfg_t = Struct [(''network_id'', network_id_t), (''sig_strength'', Ptr),
       (''link_data_rate'', Ptr)]"

definition link_param_gen_t :: ctype where [layout]:
  "link_param_gen_t = Prim 1"

definition link_param_qos_t :: ctype where [layout]:
  "link_param_qos_t = Prim 1"

definition link_param_gg_t :: ctype where [layout]:
  "link_param_gg_t = Prim 1"

definition link_param_edge_t :: ctype where [layout]:
  "link_param_edge_t = Prim 1"

definition link_param_eth_t :: ctype where [layout]:
  "link_param_eth_t = Prim 1"

definition link_param_802_11_t :: ctype where [layout]:
  "link_param_802_11_t = Prim 1"

definition link_param_c2k_t :: ctype where [layout]:
  "link_param_c2k_t = Prim 1"

definition link_param_fdd_t :: ctype where [layout]:
  "link_param_fdd_t = Prim 1"

definition link_param_hrpd_t :: ctype where [layout]:
  "link_param_hrpd_t = Prim 1"

definition link_param_802_16_t :: ctype where [layout]:
  "link_param_802_16_t = Prim 1"

definition link_param_802_20_t :: ctype where [layout]:
  "link_param_802_20_t = Prim 1"

definition link_param_802_22_t :: ctype where [layout]:
  "link_param_802_22_t = Prim 1"

definition link_param_type_t :: ctype where [layout]:
  "link_param_type_t = Prim 1"

definition timer_interval_t :: ctype where [layout]:
  "timer_interval_t = Prim 2"

definition th_action_t :: ctype where [layout]:
  "th_action_t = Prim 1"

definition threshold_val_t :: ctype where [layout]:
  "threshold_val_t = Prim 2"

definition threshold_x_dir_t :: ctype where [layout]:
  "threshold_x_dir_t = Prim 1"

definition threshold_t :: ctype where [layout]:
  "threshold_t = Struct [(''threshold_val'', threshold_val_t), (''threshold_x_dir'', threshold_x_dir_t)]"

definition link_cfg_param_t :: ctype where [layout]:
  "link_cfg_param_t = Struct [(''link_param_type'', link_param_type_t), (''timer_interval'', Ptr),
       (''th_action'', th_action_t), (''threshold'', Ptr)]"

definition evt_cfg_info_t :: ctype where [layout]:
  "evt_cfg_info_t = Union [(''link_det_cfg'', Ptr), (''link_cfg_param'', Ptr)]"

definition link_cfg_status_t :: ctype where [layout]:
  "link_cfg_status_t = Struct [(''link_param_type'', link_param_type_t), (''threshold'', threshold_t),
       (''config_status'', config_status_t)]"

definition link_tuple_id_t :: ctype where [layout]:
  "link_tuple_id_t = Struct [(''link_id'', link_id_t), (''link_addr'', Ptr)]"

definition link_mihcap_flag_t :: ctype where [layout]:
  "link_mihcap_flag_t = Struct [(''bits'', Bits 1 [(''Reserved'', 1), (''Event_Service'', 1),
       (''Command_Service'', 1), (''Information_Service'', 1), (''Reserved2'', 4)])]"

definition link_det_info_t :: ctype where [layout]:
  "link_det_info_t = Struct [(''link_tuple_id'', link_tuple_id_t), (''network_id'', network_id_t),
       (''net_aux_id'', net_aux_id_t), (''sig_strength'', sig_strength_t),
       (''sinr'', Prim 2), (''link_data_rate'', link_data_rate_t),
       (''link_mihcap_flag'', link_mihcap_flag_t), (''net_caps'', net_caps_t)]"

definition net_type_addr_t :: ctype where [layout]:
  "net_type_addr_t = Struct [(''network_type'', network_type_t), (''link_addr'', link_addr_t)]"

definition mbb_ho_supp_t :: ctype where [layout]:
  "mbb_ho_supp_t = Struct [(''from_network'', network_type_t), (''to_network'', network_type_t),
       (''make_b_break'', boolean_t)]"

definition ip_renewal_flag_t :: ctype where [layout]:
  "ip_renewal_flag_t = boolean_t"

definition link_gd_reason_t :: ctype where [layout]:
  "link_gd_reason_t = Prim 1"

definition link_states_req_t :: ctype where [layout]:
  "link_states_req_t = Prim 2"

definition link_states_rsp_t :: ctype where [layout]:
  "link_states_rsp_t = Union [(''op_mode'', op_mode_t), (''channel_id'', channel_id_t)]"

definition link_param_val_t :: ctype where [layout]:
  "link_param_val_t = Prim 2"

definition qos_param_val_t :: ctype where [layout]:
  "qos_param_val_t = Union [(''num_cos_types'', num_cos_types_t), (''min_pk_tx_delay'', Ptr),
       (''avg_pk_tx_delay'', Ptr), (''max_pk_tx_delay'', Ptr), (''pk_delay_jitter'', Ptr),
       (''pk_loss_rate'', Ptr)]"

definition link_param_t :: ctype where [layout]:
  "link_param_t = Struct [(''link_param_type'', link_param_type_t),
       (''param_val'', Union [(''link_param_val'', link_param_val_t),
       (''qos_param_val'', qos_param_val_t)])]"

definition link_param_rpt_t :: ctype where [layout]:
  "link_param_rpt_t = Struct [(''link_param'', link_param_t), (''threshold'', threshold_t)]"

definition link_desc_req_t :: ctype where [layout]:
  "link_desc_req_t = Prim 2"

definition num_cos_t :: ctype where [layout]:
  "num_cos_t = Prim 1"

definition num_queue_t :: ctype where [layout]:
  "num_queue_t = Prim 1"

definition link_desc_rsp_t :: ctype where [layout]:
  "link_desc_rsp_t = Union [(''num_cos'', num_cos_t), (''num_queue'', num_queue_t)]"

definition link_ac_type_t :: ctype where [layout]:
  "link_ac_type_t = Prim 1"

definition link_ac_attr_t :: ctype where [layout]:
  "link_ac_attr_t = Prim 1"

definition link_action_t :: ctype where [layout]:
  "link_action_t = Struct [(''link_ac_type'', link_ac_type_t), (''link_ac_attr'', link_ac_attr_t)]"

definition link_scan_rsp_t :: ctype where [layout]:
  "link_scan_rsp_t = Struct [(''link_addr'', link_addr_t), (''network_id'', network_id_t),
       (''sig_strength'', sig_strength_t)]"

definition link_ac_result_t :: ctype where [layout]:
  "link_ac_result_t = Prim 4"

definition struct_addrinfo :: ctype where [layout]:
  "struct_addrinfo = Struct [(''ai_flags'', Prim 4), (''ai_family'', Prim 4), (''ai_socktype'', Prim 4),
       (''ai_protocol'', Prim 4), (''ai_addrlen'', Prim 8), (''ai_addr'', Ptr),
       (''ai_canonname'', Ptr), (''ai_next'', Ptr)]"

section \<open>Structures of the module\<close>

definition struct_reply_parameter :: ctype where [layout]:
  "struct_reply_parameter = Struct [(''message'', Ptr), (''param'', Ptr)]"

definition struct_reply_handler :: ctype where [layout]:
  "struct_reply_handler = Struct [(''handler'', Ptr), (''param'', Ptr)]"

definition struct_queued_task :: ctype where [layout]:
  "struct_queued_task = Struct [(''task'', Ptr), (''parameter'', Ptr), (''list'', list_head)]"

definition struct_received_message :: ctype where [layout]:
  "struct_received_message = Struct [(''sock'', Ptr), (''len'', Prim 4), (''msg'', Ptr), (''reply'', Ptr)]"

definition struct_dev_list :: ctype where [layout]:
  "struct_dev_list = Struct [(''dev'', Ptr), (''next'', Ptr)]"

definition struct_subscriber :: ctype where [layout]:
  "struct_subscriber = Struct [(''mihfid'', mihf_id_t), (''trans_lst'', mih_trans_lst_t),
       (''addr'', struct_sockaddr), (''link'', link_type_t), (''evt_list'', mih_evt_list_t),
       (''param'', link_cfg_param_t), (''next'', Ptr)]"

definition struct_Link_Up_parameter :: ctype where [layout]:
  "struct_Link_Up_parameter = Struct [(''LinkIdentifier'', link_tuple_id_t), (''OldAccessRouter'', link_addr_t),
       (''NewAccessRouter'', link_addr_t), (''IPRenewalFlag'', ip_renewal_flag_t),
       (''MobilityManagementSupport'', ip_mob_mgmt_t)]"

definition struct_Link_Down_parameter :: ctype where [layout]:
  "struct_Link_Down_parameter = Struct [(''LinkIdentifier'', link_tuple_id_t), (''OldAccessRouter'', link_addr_t),
       (''ReasonCode'', link_dn_reason_t)]"

definition struct_Link_Going_Down_parameter :: ctype where [layout]:
  "struct_Link_Going_Down_parameter = Struct [(''LinkIdentifier'', link_tuple_id_t), (''TimeInterval'', Prim 2),
       (''LinkGoingDownReason'', link_gd_reason_t)]"

section \<open>All structures and unions\<close>

definition mih_types :: "ctype list" where
  "mih_types =
     [u24, num_cos_types_t, min_pk_tx_delay_t, avg_pk_tx_delay_t,
      max_pk_tx_delay_t, pk_delay_jitter_t, pk_loss_rate_t, qos_list_t,
      regu_domain_t, proxy_addr_t, sys_params_t, network_type_t,
      sib_t, gap_t, burst_prof_t, cdma_codes_t,
      dcd_ucd_t, parameters_t, operator_id_t, cost_value_t,
      cost_t, transport_addr_t, ip_subnet_info_t, ip_config_t,
      tgpp_2g_cell_id_t, tgpp_3g_cell_id_t, link_addr_t, system_info_t,
      link_id_t, bin_civic_loc_t, civic_loc_t, geo_loc_t,
      location_t, ch_range_t, ie_container_poa_t, ie_container_network_t,
      mih_header_t, mih_tlv_t, mih_message_t, link_event_list_t,
      link_cmd_list_t, mih_evt_list_t, mih_cmd_list_t, mih_iq_type_lst_t,
      mih_trans_lst_t, link_det_cfg_t, threshold_t, link_cfg_param_t,
      evt_cfg_info_t, link_cfg_status_t, link_tuple_id_t, link_mihcap_flag_t,
      link_det_info_t, net_type_addr_t, mbb_ho_supp_t, link_states_rsp_t,
      qos_param_val_t, link_param_t, link_param_rpt_t, link_desc_rsp_t,
      link_action_t, link_scan_rsp_t, struct_addrinfo, struct_reply_parameter,
      struct_reply_handler, struct_queued_task, struct_received_message, struct_dev_list,
      struct_subscriber, struct_Link_Up_parameter, struct_Link_Down_parameter, struct_Link_Going_Down_parameter]"

lemmas sized = layout align_up_def bits_width_def

lemma mih_types_wf:
  "wf_ctype u24"
  "wf_ctype num_cos_types_t"
  "wf_ctype min_pk_tx_delay_t"
  "wf_ctype avg_pk_tx_delay_t"
  "wf_ctype max_pk_tx_delay_t"
  "wf_ctype pk_delay_jitter_t"
  "wf_ctype pk_loss_rate_t"
  "wf_ctype qos_list_t"
  "wf_ctype regu_domain_t"
  "wf_ctype proxy_addr_t"
  "wf_ctype sys_params_t"
  "wf_ctype network_type_t"
  "wf_ctype sib_t"
  "wf_ctype gap_t"
  "wf_ctype burst_prof_t"
  "wf_ctype cdma_codes_t"
  "wf_ctype dcd_ucd_t"
  "wf_ctype parameters_t"
  "wf_ctype operator_id_t"
  "wf_ctype cost_value_t"
  "wf_ctype cost_t"
  "wf_ctype transport_addr_t"
  "wf_ctype ip_subnet_info_t"
  "wf_ctype ip_config_t"
  "wf_ctype tgpp_2g_cell_id_t"
  "wf_ctype tgpp_3g_cell_id_t"
  "wf_ctype link_addr_t"
  "wf_ctype system_info_t"
  "wf_ctype link_id_t"
  "wf_ctype bin_civic_loc_t"
  "wf_ctype civic_loc_t"
  "wf_ctype geo_loc_t"
  "wf_ctype location_t"
  "wf_ctype ch_range_t"
  "wf_ctype ie_container_poa_t"
  "wf_ctype ie_container_network_t"
  "wf_ctype mih_header_t"
  "wf_ctype mih_tlv_t"
  "wf_ctype mih_message_t"
  "wf_ctype link_event_list_t"
  "wf_ctype link_cmd_list_t"
  "wf_ctype mih_evt_list_t"
  "wf_ctype mih_cmd_list_t"
  "wf_ctype mih_iq_type_lst_t"
  "wf_ctype mih_trans_lst_t"
  "wf_ctype link_det_cfg_t"
  "wf_ctype threshold_t"
  "wf_ctype link_cfg_param_t"
  "wf_ctype evt_cfg_info_t"
  "wf_ctype link_cfg_status_t"
  "wf_ctype link_tuple_id_t"
  "wf_ctype link_mihcap_flag_t"
  "wf_ctype link_det_info_t"
  "wf_ctype net_type_addr_t"
  "wf_ctype mbb_ho_supp_t"
  "wf_ctype link_states_rsp_t"
  "wf_ctype qos_param_val_t"
  "wf_ctype link_param_t"
  "wf_ctype link_param_rpt_t"
  "wf_ctype link_desc_rsp_t"
  "wf_ctype link_action_t"
  "wf_ctype link_scan_rsp_t"
  "wf_ctype struct_addrinfo"
  "wf_ctype struct_reply_parameter"
  "wf_ctype struct_reply_handler"
  "wf_ctype struct_queued_task"
  "wf_ctype struct_received_message"
  "wf_ctype struct_dev_list"
  "wf_ctype struct_subscriber"
  "wf_ctype struct_Link_Up_parameter"
  "wf_ctype struct_Link_Down_parameter"
  "wf_ctype struct_Link_Going_Down_parameter"
  by (simp_all add: sized)

lemma all_types_wf: "t \<in> set mih_types \<Longrightarrow> wf_ctype t"
  by (auto simp: mih_types_def mih_types_wf)

end
