(* ===== verification/Mihfd_Dispatch.thy ===== *)
theory Mihfd_Dispatch
  imports Proto
begin

text \<open>
  The protocol of the user-level daemon (\<open>mihfd.c\<close>, from \<open>ProcessService\<close> to
  \<open>ProcessRequest\<close> and the handlers at its end). The daemon reads the header by laying
  \<open>mih_header_t\<close> over the received bytes, so that the position of its bit-fields is the
  compiler's. The names of the functions are those of the module's \<open>proto.c\<close>; they carry
  the prefix \<open>fd\<close> here.
\<close>

section \<open>The header laid over a buffer\<close>

text \<open>
  The layout of \<open>mih_header_t\<close>: four \<open>unsigned short\<close>, each with its low byte first and
  its bit-fields from the low bits on, as on x86. The daemon looks at the second one only.
\<close>

unbundle bit_operations_syntax

definition buf_unit :: "mem \<Rightarrow> nat \<Rightarrow> u16 cres" where
  "buf_unit m k =
     cbind (mem_read m (2 * k)) (\<lambda>lo.
     cbind (mem_read m (2 * k + 1)) (\<lambda>hi.
     Ok (ucast lo OR push_bit 8 (ucast hi))))"

definition buf_sid :: "mem \<Rightarrow> 4 word cres" where
  "buf_sid m = cbind (buf_unit m 1) (\<lambda>u. Ok (ucast u))"

definition buf_opcode :: "mem \<Rightarrow> 2 word cres" where
  "buf_opcode m = cbind (buf_unit m 1) (\<lambda>u. Ok (ucast (drop_bit 4 u)))"

definition buf_aid :: "mem \<Rightarrow> 10 word cres" where
  "buf_aid m = cbind (buf_unit m 1) (\<lambda>u. Ok (ucast (drop_bit 6 u)))"

text \<open>The structure as it lies in memory: what \<open>(char *)&h\<close> points to.\<close>

definition header_units :: "mih_header \<Rightarrow> u16 list" where
  "header_units h =
     [ucast (version h) OR push_bit 4 (ucast (ackreq h)) OR push_bit 5 (ucast (ackrsp h))
        OR push_bit 6 (ucast (uir h)) OR push_bit 7 (ucast (morefragment h))
        OR push_bit 8 (ucast (fragmentnumber h)) OR push_bit 15 (ucast (rsvd1 h)),
      ucast (sid h) OR push_bit 4 (ucast (opcode h)) OR push_bit 6 (ucast (aid h)),
      ucast (rsvd2 h) OR push_bit 4 (ucast (tid h)),
      payloadlength h]"

definition header_bytes :: "mih_header \<Rightarrow> u8 list" where
  "header_bytes h = concat (map (\<lambda>u. [ucast u, ucast (drop_bit 8 u)]) (header_units h))"

section \<open>The handlers\<close>

text \<open>
  \<open>res\<close> is only assigned in the accepted cases: where the code falls through to
  \<open>return res\<close> its value is indeterminate.
\<close>

definition fd_CapabilityDiscover :: "mem \<Rightarrow> int cres" where
  "fd_CapabilityDiscover in_buf =
     cbind (buf_aid in_buf) (\<lambda>action.
     if action \<noteq> MIH_CAPABILITY_DISCOVER then Ok (- 1)
     else cbind (buf_opcode in_buf) (\<lambda>operation.
       if operation = REQUEST then Ok 0
       else if operation = INDICATION then Ok 0
       else Fault Uninit))"

definition fd_Register :: "mem \<Rightarrow> int cres" where
  "fd_Register in_buf =
     cbind (buf_aid in_buf) (\<lambda>action.
     if action \<noteq> MIH_REGISTER then Ok (- 1)
     else cbind (buf_opcode in_buf) (\<lambda>operation.
       if operation = REQUEST then Ok 0
       else if operation = INDICATION then Ok 0
       else Fault Uninit))"

definition fd_Deregister :: "mem \<Rightarrow> int cres" where
  "fd_Deregister in_buf =
     cbind (buf_aid in_buf) (\<lambda>action.
     if action \<noteq> MIH_DEREGISTER then Ok (- 1)
     else cbind (buf_opcode in_buf) (\<lambda>operation.
       if operation = REQUEST then Ok 0
       else if operation = INDICATION then Ok 0
       else Fault Uninit))"

definition fd_EventSubscribe :: "mem \<Rightarrow> int cres" where
  "fd_EventSubscribe in_buf =
     cbind (buf_aid in_buf) (\<lambda>action.
     if action \<noteq> MIH_EVENT_SUBSCRIBE then Ok (- 1)
     else cbind (buf_opcode in_buf) (\<lambda>operation.
       if operation = REQUEST then Ok 0
       else Fault Uninit))"

definition fd_EventUnsubscribe :: "mem \<Rightarrow> int cres" where
  "fd_EventUnsubscribe in_buf =
     cbind (buf_aid in_buf) (\<lambda>action.
     if action \<noteq> MIH_EVENT_UNSUBSCRIBE then Ok (- 1)
     else cbind (buf_opcode in_buf) (\<lambda>operation.
       if operation = REQUEST then Ok 0
       else if operation = INDICATION then Ok 0
       else Fault Uninit))"

definition fd_LinkDetected :: "mem \<Rightarrow> int cres" where
  "fd_LinkDetected in_buf =
     cbind (buf_aid in_buf) (\<lambda>action.
     if action \<noteq> MIH_LINK_DETECTED then Ok (- 1)
     else cbind (buf_opcode in_buf) (\<lambda>operation.
       if operation = REQUEST then Ok 0
       else if operation = INDICATION then Ok 0
       else Fault Uninit))"

definition fd_LinkUp :: "mem \<Rightarrow> int cres" where
  "fd_LinkUp in_buf =
     cbind (buf_aid in_buf) (\<lambda>action.
     if action \<noteq> MIH_LINK_UP then Ok (- 1)
     else cbind (buf_opcode in_buf) (\<lambda>operation.
       if operation = REQUEST then Ok 0
       else if operation = INDICATION then Ok 0
       else Fault Uninit))"

definition fd_LinkDown :: "mem \<Rightarrow> int cres" where
  "fd_LinkDown in_buf =
     cbind (buf_aid in_buf) (\<lambda>action.
     if action \<noteq> MIH_LINK_DOWN then Ok (- 1)
     else cbind (buf_opcode in_buf) (\<lambda>operation.
       if operation = REQUEST then Ok 0
       else if operation = INDICATION then Ok 0
       else Fault Uninit))"

definition fd_LinkParametersReport :: "mem \<Rightarrow> int cres" where
  "fd_LinkParametersReport in_buf =
     cbind (buf_aid in_buf) (\<lambda>action.
     if action \<noteq> MIH_LINK_PARAMETERS_REPORT then Ok (- 1)
     else cbind (buf_opcode in_buf) (\<lambda>operation.
       if operation = REQUEST then Ok 0
       else if operation = INDICATION then Ok 0
       else Fault Uninit))"

definition fd_LinkGoingDown :: "mem \<Rightarrow> int cres" where
  "fd_LinkGoingDown in_buf =
     cbind (buf_aid in_buf) (\<lambda>action.
     if action \<noteq> MIH_LINK_GOING_DOWN then Ok (- 1)
     else cbind (buf_opcode in_buf) (\<lambda>operation.
       if operation = REQUEST then Ok 0
       else if operation = INDICATION then Ok 0
       else Fault Uninit))"

definition fd_LinkHandoverImminent :: "mem \<Rightarrow> int cres" where
  "fd_LinkHandoverImminent in_buf =
     cbind (buf_aid in_buf) (\<lambda>action.
     if action \<noteq> MIH_LINK_HANDOVER_IMMINENT then Ok (- 1)
     else cbind (buf_opcode in_buf) (\<lambda>operation.
       if operation = REQUEST then Ok 0
       else if operation = INDICATION then Ok 0
       else Fault Uninit))"

definition fd_LinkHandoverComplete :: "mem \<Rightarrow> int cres" where
  "fd_LinkHandoverComplete in_buf =
     cbind (buf_aid in_buf) (\<lambda>action.
     if action \<noteq> MIH_LINK_HANDOVER_COMPLETE then Ok (- 1)
     else cbind (buf_opcode in_buf) (\<lambda>operation.
       if operation = REQUEST then Ok 0
       else if operation = INDICATION then Ok 0
       else Fault Uninit))"

definition fd_LinkGetParameters :: "mem \<Rightarrow> int cres" where
  "fd_LinkGetParameters in_buf =
     cbind (buf_aid in_buf) (\<lambda>action.
     if action \<noteq> MIH_LINK_GET_PARAMETERS then Ok (- 1)
     else cbind (buf_opcode in_buf) (\<lambda>operation.
       if operation = REQUEST then Ok 0
       else if operation = INDICATION then Ok 0
       else Fault Uninit))"

definition fd_LinkConfigureThresholds :: "mem \<Rightarrow> int cres" where
  "fd_LinkConfigureThresholds in_buf =
     cbind (buf_aid in_buf) (\<lambda>action.
     if action \<noteq> MIH_LINK_CONFIGURE_THRESHOLDS then Ok (- 1)
     else cbind (buf_opcode in_buf) (\<lambda>operation.
       if operation = REQUEST then Ok 0
       else if operation = INDICATION then Ok 0
       else Fault Uninit))"

definition fd_LinkActions :: "mem \<Rightarrow> int cres" where
  "fd_LinkActions in_buf =
     cbind (buf_aid in_buf) (\<lambda>action.
     if action \<noteq> MIH_LINK_ACTIONS then Ok (- 1)
     else cbind (buf_opcode in_buf) (\<lambda>operation.
       if operation = REQUEST then Ok 0
       else if operation = INDICATION then Ok 0
       else Fault Uninit))"

definition fd_NetHOCandidateQuery :: "mem \<Rightarrow> int cres" where
  "fd_NetHOCandidateQuery in_buf =
     cbind (buf_aid in_buf) (\<lambda>action.
     if action \<noteq> MIH_NET_HO_CANDIDATE_QUERY then Ok (- 1)
     else cbind (buf_opcode in_buf) (\<lambda>operation.
       if operation = REQUEST then Ok 0
       else if operation = INDICATION then Ok 0
       else Fault Uninit))"

definition fd_MNHOCandidateQuery :: "mem \<Rightarrow> int cres" where
  "fd_MNHOCandidateQuery in_buf =
     cbind (buf_aid in_buf) (\<lambda>action.
     if action \<noteq> MIH_MN_HO_CANDIDATE_QUERY then Ok (- 1)
     else cbind (buf_opcode in_buf) (\<lambda>operation.
       if operation = REQUEST then Ok 0
       else if operation = INDICATION then Ok 0
       else Fault Uninit))"

definition fd_N2NHOQueryResources :: "mem \<Rightarrow> int cres" where
  "fd_N2NHOQueryResources in_buf =
     cbind (buf_aid in_buf) (\<lambda>action.
     if action \<noteq> MIH_N2N_HO_QUERY_RESOURCES then Ok (- 1)
     else cbind (buf_opcode in_buf) (\<lambda>operation.
       if operation = REQUEST then Ok 0
       else if operation = INDICATION then Ok 0
       else Fault Uninit))"

definition fd_MNHOCommit :: "mem \<Rightarrow> int cres" where
  "fd_MNHOCommit in_buf =
     cbind (buf_aid in_buf) (\<lambda>action.
     if action \<noteq> MIH_MN_HO_COMMIT then Ok (- 1)
     else cbind (buf_opcode in_buf) (\<lambda>operation.
       if operation = REQUEST then Ok 0
       else if operation = INDICATION then Ok 0
       else Fault Uninit))"

definition fd_NetHOCommit :: "mem \<Rightarrow> int cres" where
  "fd_NetHOCommit in_buf =
     cbind (buf_aid in_buf) (\<lambda>action.
     if action \<noteq> MIH_NET_HO_COMMIT then Ok (- 1)
     else cbind (buf_opcode in_buf) (\<lambda>operation.
       if operation = REQUEST then Ok 0
       else if operation = INDICATION then Ok 0
       else Fault Uninit))"

definition fd_N2NHOCommit :: "mem \<Rightarrow> int cres" where
  "fd_N2NHOCommit in_buf =
     cbind (buf_aid in_buf) (\<lambda>action.
     if action \<noteq> MIH_N2N_HO_COMMIT then Ok (- 1)
     else cbind (buf_opcode in_buf) (\<lambda>operation.
       if operation = REQUEST then Ok 0
       else if operation = INDICATION then Ok 0
       else Fault Uninit))"

definition fd_MNHOComplete :: "mem \<Rightarrow> int cres" where
  "fd_MNHOComplete in_buf =
     cbind (buf_aid in_buf) (\<lambda>action.
     if action \<noteq> MIH_MN_HO_COMPLETE then Ok (- 1)
     else cbind (buf_opcode in_buf) (\<lambda>operation.
       if operation = REQUEST then Ok 0
       else if operation = INDICATION then Ok 0
       else Fault Uninit))"

definition fd_N2NHOComplete :: "mem \<Rightarrow> int cres" where
  "fd_N2NHOComplete in_buf =
     cbind (buf_aid in_buf) (\<lambda>action.
     if action \<noteq> MIH_N2N_HO_COMPLETE then Ok (- 1)
     else cbind (buf_opcode in_buf) (\<lambda>operation.
       if operation = REQUEST then Ok 0
       else if operation = INDICATION then Ok 0
       else Fault Uninit))"

definition fd_ProcessService :: "mem \<Rightarrow> int cres" where
  "fd_ProcessService in_buf =
     cbind (buf_sid in_buf) (\<lambda>service.
     if service \<noteq> SERVICE_MANAGEMENT then Ok (- 1)
     else cbind (buf_aid in_buf) (\<lambda>action.
       if action = MIH_CAPABILITY_DISCOVER then fd_CapabilityDiscover in_buf
       else if action = MIH_REGISTER then fd_Register in_buf
       else if action = MIH_DEREGISTER then fd_Deregister in_buf
       else if action = MIH_EVENT_SUBSCRIBE then fd_EventSubscribe in_buf
       else if action = MIH_EVENT_UNSUBSCRIBE then fd_EventUnsubscribe in_buf
       else Fault Uninit))"

definition fd_ProcessEvent :: "mem \<Rightarrow> int cres" where
  "fd_ProcessEvent in_buf =
     cbind (buf_sid in_buf) (\<lambda>service.
     if service \<noteq> EVENT_SERVICE then Ok (- 1)
     else cbind (buf_aid in_buf) (\<lambda>action.
       if action = MIH_LINK_DETECTED then fd_LinkDetected in_buf
       else if action = MIH_LINK_UP then fd_LinkUp in_buf
       else if action = MIH_LINK_DOWN then fd_LinkDown in_buf
       else if action = MIH_LINK_PARAMETERS_REPORT then fd_LinkParametersReport in_buf
       else if action = MIH_LINK_GOING_DOWN then fd_LinkGoingDown in_buf
       else if action = MIH_LINK_HANDOVER_IMMINENT then fd_LinkHandoverImminent in_buf
       else if action = MIH_LINK_HANDOVER_COMPLETE then fd_LinkHandoverComplete in_buf
       else Fault Uninit))"

definition fd_ProcessCmd :: "mem \<Rightarrow> int cres" where
  "fd_ProcessCmd in_buf =
     cbind (buf_sid in_buf) (\<lambda>service.
     if service \<noteq> COMMAND_SERVICE then Ok (- 1)
     else cbind (buf_aid in_buf) (\<lambda>action.
       if action = MIH_LINK_GET_PARAMETERS then fd_LinkGetParameters in_buf
       else if action = MIH_LINK_CONFIGURE_THRESHOLDS then fd_LinkConfigureThresholds in_buf
       else if action = MIH_LINK_ACTIONS then fd_LinkActions in_buf
       else if action = MIH_NET_HO_CANDIDATE_QUERY then fd_NetHOCandidateQuery in_buf
       else if action = MIH_MN_HO_CANDIDATE_QUERY then fd_MNHOCandidateQuery in_buf
       else if action = MIH_N2N_HO_QUERY_RESOURCES then fd_N2NHOQueryResources in_buf
       else if action = MIH_MN_HO_COMMIT then fd_MNHOCommit in_buf
       else if action = MIH_NET_HO_COMMIT then fd_NetHOCommit in_buf
       else if action = MIH_N2N_HO_COMMIT then fd_N2NHOCommit in_buf
       else if action = MIH_MN_HO_COMPLETE then fd_MNHOComplete in_buf
       else if action = MIH_N2N_HO_COMPLETE then fd_N2NHOComplete in_buf
       else Fault Uninit))"

definition fd_ProcessInfo :: "mem \<Rightarrow> int cres" where
  "fd_ProcessInfo in_buf =
     cbind (buf_sid in_buf) (\<lambda>service.
     if service \<noteq> INFORMATION_SERVICE then Ok (- 1)
     else cbind (buf_aid in_buf) (\<lambda>action.
       if action = MIH_CAPABILITY_DISCOVER then fd_CapabilityDiscover in_buf
       else if action = MIH_REGISTER then fd_Register in_buf
       else if action = MIH_DEREGISTER then fd_Deregister in_buf
       else if action = MIH_EVENT_SUBSCRIBE then fd_EventSubscribe in_buf
       else if action = MIH_EVENT_UNSUBSCRIBE then fd_EventUnsubscribe in_buf
       else Fault Uninit))"

text \<open>
  \<open>ProcessRequest\<close>: the received bytes are printed one by one, then the service decides.
\<close>

fun fd_print :: "mem \<Rightarrow> nat \<Rightarrow> nat \<Rightarrow> u8 list cres" where
  "fd_print in_buf i 0 = Ok []"
| "fd_print in_buf i (Suc n) =
     cbind (mem_read in_buf i) (\<lambda>c. cbind (fd_print in_buf (Suc i) n) (\<lambda>cs. Ok (c # cs)))"

text \<open>The answer and what was printed.\<close>

definition fd_ProcessRequest :: "mem \<Rightarrow> int \<Rightarrow> (int \<times> u8 list) cres" where
  "fd_ProcessRequest in_buf in_len =
     cbind (fd_print in_buf 0 (nat in_len)) (\<lambda>printed.
     cbind (buf_sid in_buf) (\<lambda>service.
     cbind (if service = SERVICE_MANAGEMENT then fd_ProcessService in_buf
            else if service = EVENT_SERVICE then fd_ProcessEvent in_buf
            else if service = COMMAND_SERVICE then fd_ProcessCmd in_buf
            else if service = INFORMATION_SERVICE then fd_ProcessInfo in_buf
            else Fault Uninit) (\<lambda>res.
     Ok (res, printed))))"

section \<open>The contract of the handlers\<close>

text \<open>The message identifier of a buffer: service, operation and action.\<close>

definition message_id :: "mem \<Rightarrow> (4 word \<times> 2 word \<times> 10 word) cres" where
  "message_id m = cbind (buf_sid m) (\<lambda>s. cbind (buf_opcode m) (\<lambda>operation. cbind (buf_aid m) (\<lambda>a. Ok (s, operation, a))))"

lemma message_idD:
  "message_id m = Ok (s, operation, a) \<Longrightarrow> buf_sid m = Ok s \<and> buf_opcode m = Ok operation \<and> buf_aid m = Ok a"
  by (auto simp: message_id_def c_outcome)

text \<open>
  A handler answers for one action: it refuses every other action, and for its own it
  answers 0 to the operations it knows and has no defined answer to the others.
\<close>

locale action_handler =
  fixes handle :: "mem \<Rightarrow> int cres" and action :: "10 word" and operations :: "2 word set"
  assumes other: "buf_aid m = Ok a \<Longrightarrow> a \<noteq> action \<Longrightarrow> handle m = Ok (- 1)"
    and known: "buf_aid m = Ok action \<Longrightarrow> buf_opcode m = Ok operation \<Longrightarrow> operation \<in> operations \<Longrightarrow> handle m = Ok 0"
    and unknown: "buf_aid m = Ok action \<Longrightarrow> buf_opcode m = Ok operation \<Longrightarrow> operation \<notin> operations \<Longrightarrow>
      handle m = Fault Uninit"
begin

lemma answer:
  "message_id m = Ok (s, operation, action) \<Longrightarrow>
   handle m = (if operation \<in> operations then Ok 0 else Fault Uninit)"
  using known unknown by (auto dest!: message_idD)

lemma never_refuses_own: "message_id m = Ok (s, operation, action) \<Longrightarrow> handle m \<noteq> Ok (- 1)"
  by (simp add: answer)

end

interpretation fd_CapabilityDiscover: action_handler fd_CapabilityDiscover 1 "{REQUEST, INDICATION}"
  by unfold_locales (auto simp: fd_CapabilityDiscover_def)

interpretation fd_Register: action_handler fd_Register 2 "{REQUEST, INDICATION}"
  by unfold_locales (auto simp: fd_Register_def)

interpretation fd_Deregister: action_handler fd_Deregister 3 "{REQUEST, INDICATION}"
  by unfold_locales (auto simp: fd_Deregister_def)

interpretation fd_EventSubscribe: action_handler fd_EventSubscribe 4 "{REQUEST}"
  by unfold_locales (auto simp: fd_EventSubscribe_def)

interpretation fd_EventUnsubscribe: action_handler fd_EventUnsubscribe 5 "{REQUEST, INDICATION}"
  by unfold_locales (auto simp: fd_EventUnsubscribe_def)

interpretation fd_LinkDetected: action_handler fd_LinkDetected 1 "{REQUEST, INDICATION}"
  by unfold_locales (auto simp: fd_LinkDetected_def)

interpretation fd_LinkUp: action_handler fd_LinkUp 2 "{REQUEST, INDICATION}"
  by unfold_locales (auto simp: fd_LinkUp_def)

interpretation fd_LinkDown: action_handler fd_LinkDown 3 "{REQUEST, INDICATION}"
  by unfold_locales (auto simp: fd_LinkDown_def)

interpretation fd_LinkParametersReport: action_handler fd_LinkParametersReport 5 "{REQUEST, INDICATION}"
  by unfold_locales (auto simp: fd_LinkParametersReport_def)

interpretation fd_LinkGoingDown: action_handler fd_LinkGoingDown 6 "{REQUEST, INDICATION}"
  by unfold_locales (auto simp: fd_LinkGoingDown_def)

interpretation fd_LinkHandoverImminent: action_handler fd_LinkHandoverImminent 7 "{REQUEST, INDICATION}"
  by unfold_locales (auto simp: fd_LinkHandoverImminent_def)

interpretation fd_LinkHandoverComplete: action_handler fd_LinkHandoverComplete 8 "{REQUEST, INDICATION}"
  by unfold_locales (auto simp: fd_LinkHandoverComplete_def)

interpretation fd_LinkGetParameters: action_handler fd_LinkGetParameters 1 "{REQUEST, INDICATION}"
  by unfold_locales (auto simp: fd_LinkGetParameters_def)

interpretation fd_LinkConfigureThresholds: action_handler fd_LinkConfigureThresholds 2 "{REQUEST, INDICATION}"
  by unfold_locales (auto simp: fd_LinkConfigureThresholds_def)

interpretation fd_LinkActions: action_handler fd_LinkActions 3 "{REQUEST, INDICATION}"
  by unfold_locales (auto simp: fd_LinkActions_def)

interpretation fd_NetHOCandidateQuery: action_handler fd_NetHOCandidateQuery 4 "{REQUEST, INDICATION}"
  by unfold_locales (auto simp: fd_NetHOCandidateQuery_def)

interpretation fd_MNHOCandidateQuery: action_handler fd_MNHOCandidateQuery 5 "{REQUEST, INDICATION}"
  by unfold_locales (auto simp: fd_MNHOCandidateQuery_def)

interpretation fd_N2NHOQueryResources: action_handler fd_N2NHOQueryResources 6 "{REQUEST, INDICATION}"
  by unfold_locales (auto simp: fd_N2NHOQueryResources_def)

interpretation fd_MNHOCommit: action_handler fd_MNHOCommit 7 "{REQUEST, INDICATION}"
  by unfold_locales (auto simp: fd_MNHOCommit_def)

interpretation fd_NetHOCommit: action_handler fd_NetHOCommit 8 "{REQUEST, INDICATION}"
  by unfold_locales (auto simp: fd_NetHOCommit_def)

interpretation fd_N2NHOCommit: action_handler fd_N2NHOCommit 9 "{REQUEST, INDICATION}"
  by unfold_locales (auto simp: fd_N2NHOCommit_def)

interpretation fd_MNHOComplete: action_handler fd_MNHOComplete 10 "{REQUEST, INDICATION}"
  by unfold_locales (auto simp: fd_MNHOComplete_def)

interpretation fd_N2NHOComplete: action_handler fd_N2NHOComplete 11 "{REQUEST, INDICATION}"
  by unfold_locales (auto simp: fd_N2NHOComplete_def)

lemmas handler_answers =
  fd_CapabilityDiscover.answer fd_Register.answer fd_Deregister.answer fd_EventSubscribe.answer
  fd_EventUnsubscribe.answer fd_LinkDetected.answer fd_LinkUp.answer fd_LinkDown.answer
  fd_LinkParametersReport.answer fd_LinkGoingDown.answer fd_LinkHandoverImminent.answer
  fd_LinkHandoverComplete.answer fd_LinkGetParameters.answer fd_LinkConfigureThresholds.answer
  fd_LinkActions.answer fd_NetHOCandidateQuery.answer fd_MNHOCandidateQuery.answer
  fd_N2NHOQueryResources.answer fd_MNHOCommit.answer fd_NetHOCommit.answer fd_N2NHOCommit.answer
  fd_MNHOComplete.answer fd_N2NHOComplete.answer

section \<open>What the daemon accepts\<close>

definition fd_accepts :: "4 word \<Rightarrow> 2 word \<Rightarrow> 10 word \<Rightarrow> bool" where
  "fd_accepts service operation action \<longleftrightarrow>
     (service \<in> {SERVICE_MANAGEMENT, INFORMATION_SERVICE} \<and> action \<in> {1, 2, 3, 4, 5} \<or>
      service = EVENT_SERVICE \<and> action \<in> {1, 2, 3, 5, 6, 7, 8} \<or>
      service = COMMAND_SERVICE \<and> action \<in> {1, 2, 3, 4, 5, 6, 7, 8, 9, 10, 11}) \<and>
     (operation = REQUEST \<or>
      operation = INDICATION \<and> \<not> (action = MIH_EVENT_SUBSCRIBE \<and> service \<in> {SERVICE_MANAGEMENT, INFORMATION_SERVICE}))"

lemma fd_dispatch:
  assumes "message_id m = Ok (s, operation, a)"
  shows "s = SERVICE_MANAGEMENT \<Longrightarrow> fd_ProcessService m = (if fd_accepts s operation a then Ok 0 else Fault Uninit)"
    and "s = EVENT_SERVICE \<Longrightarrow> fd_ProcessEvent m = (if fd_accepts s operation a then Ok 0 else Fault Uninit)"
    and "s = COMMAND_SERVICE \<Longrightarrow> fd_ProcessCmd m = (if fd_accepts s operation a then Ok 0 else Fault Uninit)"
    and "s = INFORMATION_SERVICE \<Longrightarrow> fd_ProcessInfo m = (if fd_accepts s operation a then Ok 0 else Fault Uninit)"
  using message_idD [OF assms] assms
  by (auto simp: fd_ProcessService_def fd_ProcessEvent_def fd_ProcessCmd_def fd_ProcessInfo_def
      fd_accepts_def handler_answers)

text \<open>What is in the handlers' buffer on the stack after a read of the bytes \<open>bs\<close>.\<close>

definition received :: "u8 list \<Rightarrow> mem" where
  "received bs = map Some bs @ replicate (65535 - length bs) None"

lemma received_read: "mem_read (received bs) i =
    (if i < length bs then Ok (bs ! i) else if i < 65535 then Fault Uninit else Fault OutOfBounds)"
  by (auto simp: mem_read_def received_def nth_append)

lemma fd_print_received:
  "i + n \<le> length bs \<Longrightarrow> fd_print (received bs) i n = Ok (take n (drop i bs))"
  by (induction n arbitrary: i) (simp_all add: received_read Cons_nth_drop_Suc [symmetric])

lemma message_id_received:
  assumes "3 < length bs"
  shows "message_id (received bs) =
    (let u = ucast (bs ! 2) OR push_bit 8 (ucast (bs ! 3)) :: u16
     in Ok (ucast u, ucast (drop_bit 4 u), ucast (drop_bit 6 u)))"
  using assms by (simp add: message_id_def buf_sid_def buf_opcode_def buf_aid_def buf_unit_def received_read)

lemma request_bytes:
  assumes "length bs \<le> 65535" and "4 \<le> length bs" and id: "message_id (received bs) = Ok (s, operation, a)"
  shows "fd_ProcessRequest (received bs) (int (length bs)) = (if fd_accepts s operation a then Ok (0, bs) else Fault Uninit)"
  using message_idD [OF id] fd_dispatch [OF id]
  by (auto simp: fd_ProcessRequest_def fd_accepts_def fd_print_received)

text \<open>
  Property C21: the daemon's answer to a message of any bytes. With four bytes or more the
  message identifier can be read, and the answer is 0 exactly for the services, actions and
  operations of the table \<open>fd_accepts\<close>; for every other message, and for every shorter one,
  the result is an indeterminate value. In no case is it the error -1 its callers test for.
\<close>

theorem fd_request_answer:
  assumes "length bs \<le> 65535"
  shows "fd_ProcessRequest (received bs) (int (length bs)) =
    (if 4 \<le> length bs \<and> (\<exists>s operation a. message_id (received bs) = Ok (s, operation, a) \<and> fd_accepts s operation a)
     then Ok (0, bs) else Fault Uninit)"
proof (cases "4 \<le> length bs")
  case True
  then obtain s operation a where id: "message_id (received bs) = Ok (s, operation, a)"
    by (simp add: message_id_received Let_def)
  from request_bytes [OF assms True id] True id show ?thesis by simp
next
  case False
  then have "buf_sid (received bs) = Fault Uninit"
    by (auto simp: buf_sid_def buf_unit_def received_read)
  then show ?thesis using False by (simp add: fd_ProcessRequest_def fd_print_received)
qed

theorem fd_request_answer_witness:
  "fd_ProcessRequest (received [1, 0, 0x91, 0, 0, 0, 0, 0]) 8 = Ok (0, [1, 0, 0x91, 0, 0, 0, 0, 0])"
proof -
  have "message_id (received [1, 0, 0x91, 0, 0, 0, 0, 0]) = Ok (1, 1, 2)"
    by (simp add: message_id_received)
  moreover have "fd_accepts 1 1 2" by (simp add: fd_accepts_def)
  ultimately show ?thesis using fd_request_answer [of "[1, 0, 0x91, 0, 0, 0, 0, 0]"] by simp
qed

lemma header_bytes_nth: "header_bytes h ! 2 = ucast (header_units h ! 1)"
    "header_bytes h ! 3 = ucast (drop_bit 8 (header_units h ! 1))" "length (header_bytes h) = 8"
  by (simp_all add: header_bytes_def header_units_def)

lemma unit_bytes: "ucast (ucast u :: u8) OR push_bit 8 (ucast (ucast (drop_bit 8 u) :: u8)) = (u :: u16)"
  by (intro bit_word_eqI) (auto simp: bit_simps)

lemma message_id_header:
  "message_id (received (header_bytes h @ rest)) = Ok (sid h, opcode h, aid h)"
proof -
  let ?u = "header_units h ! 1"
  have "message_id (received (header_bytes h @ rest)) = Ok (ucast ?u, ucast (drop_bit 4 ?u), ucast (drop_bit 6 ?u))"
    by (simp add: message_id_received nth_append header_bytes_nth unit_bytes Let_def)
  moreover have "ucast ?u = sid h" "ucast (drop_bit 4 ?u) = opcode h" "ucast (drop_bit 6 ?u) = aid h"
    by (intro bit_word_eqI; auto simp: header_units_def bit_simps dest: bit_imp_le_length;
        fastforce dest: bit_imp_le_length)+
  ultimately show ?thesis by simp
qed

text \<open>
  A header written from memory, as the test client writes it, is read by the
  daemon with the service, operation and action it was given.
\<close>

theorem fd_header_roundtrip:
  "message_id (received (header_bytes h @ rest)) = Ok (sid h, opcode h, aid h)"
  by (rule message_id_header)

text \<open>
  Property C38: a header in the format of the protocol, as the module sends it, is misread by
  the daemon: the service it sees is made of the operation and the high bits of the
  action, the operation is the low bits of the service, and the action is the rest.
\<close>

theorem fd_misreads_wire_header:
  "message_id (received (enc_header h @ rest)) =
     Ok (push_bit 2 (ucast (opcode h)) OR ucast (drop_bit 8 (aid h)), ucast (sid h),
         push_bit 2 (ucast (ucast (aid h) :: u8)) OR ucast (drop_bit 2 (sid h)))"
proof -
  let ?b2 = "enc_header h ! 2" and ?b3 = "enc_header h ! 3"
  let ?u = "ucast ?b2 OR push_bit 8 (ucast ?b3) :: u16"
  have b: "?b2 = push_bit 4 (ucast (sid h)) OR push_bit 2 (ucast (opcode h)) OR ucast (drop_bit 8 (aid h))"
      "?b3 = ucast (aid h)"
    by (intro bit_word_eqI; auto simp: enc_header_def field_bits simp del: One_nat_def push_bit_Suc and_one_eq
      dest: bit_imp_le_length)+
  have "(ucast ?u :: 4 word) = push_bit 2 (ucast (opcode h)) OR ucast (drop_bit 8 (aid h))"
    unfolding b by (intro bit_word_eqI) (auto simp: bit_simps dest: bit_imp_le_length)
  moreover have "(ucast (drop_bit 4 ?u) :: 2 word) = ucast (sid h)"
    unfolding b by (intro bit_word_eqI) (auto simp: bit_simps dest: bit_imp_le_length)
  moreover have "(ucast (drop_bit 6 ?u) :: 10 word) = push_bit 2 (ucast (ucast (aid h) :: u8)) OR ucast (drop_bit 2 (sid h))"
    unfolding b by (intro bit_word_eqI) (auto simp: bit_simps dest: bit_imp_le_length)
  ultimately show ?thesis by (simp add: message_id_received nth_append Let_def)
qed

text \<open>So the module's capability discovery request is taken for a subscription of the information service.\<close>

lemma discover_read_as_subscription:
  "message_id (received (enc_header capability_discover_header @ rest)) =
     Ok (INFORMATION_SERVICE, REQUEST, MIH_EVENT_SUBSCRIBE)"
proof -
  let ?h = capability_discover_header
  have "enc_header ?h ! 2 = 0x14" "enc_header ?h ! 3 = 1"
    by (simp_all add: enc_header_def capability_discover_header_def zero_header_def)
  then show ?thesis by (simp add: message_id_received nth_append Let_def)
qed

end
