(* ===== verification/Mih_Objects.thy ===== *)
theory Mih_Objects
  imports Mih_Layout
    Mih_Mod
    Mihfd_Dispatch
begin

text \<open>
  The structures in memory. The sizes the other theories hand to the allocator are the
  sizes the layout gives; what the code assigns through a pointer to a structure it has
  just allocated stays inside that block and is found there afterwards; and the bit-fields
  of the header are where the daemon's definitions look for them.
\<close>

section \<open>Assignments through a pointer to a structure\<close>

definition le_bytes :: "nat \<Rightarrow> 64 word \<Rightarrow> u8 list" where
  "le_bytes n v = map (\<lambda>i. ucast (drop_bit (8 * i) v)) [0..<n]"

lemma length_le_bytes [simp]: "length (le_bytes n v) = n"
  by (simp add: le_bytes_def)

text \<open>\<open>p->f.g = v\<close>, and a sequence of such assignments.\<close>

definition put :: "ctype \<Rightarrow> string list \<Rightarrow> 64 word \<Rightarrow> mem \<Rightarrow> mem cres" where
  "put t fs v m =
     (case locate t fs of
        None \<Rightarrow> Fault Uninit
      | Some (off, u) \<Rightarrow>
          if off + sizeof u \<le> length m then Ok (blit m off (le_bytes (sizeof u) v)) else Fault OutOfBounds)"

fun puts :: "ctype \<Rightarrow> (string list \<times> 64 word) list \<Rightarrow> mem \<Rightarrow> mem cres" where
  "puts t [] m = Ok m"
| "puts t ((fs, v) # ss) m = cbind (put t fs v m) (puts t ss)"

text \<open>The cells of a member.\<close>

definition cells_of :: "ctype \<Rightarrow> string list \<Rightarrow> mem \<Rightarrow> mem" where
  "cells_of t fs m = (case locate t fs of None \<Rightarrow> [] | Some (off, u) \<Rightarrow> take (sizeof u) (drop off m))"

definition holds_value :: "ctype \<Rightarrow> string list \<Rightarrow> 64 word \<Rightarrow> mem \<Rightarrow> bool" where
  "holds_value t fs v m \<longleftrightarrow>
     (case locate t fs of None \<Rightarrow> False | Some (off, u) \<Rightarrow> cells_of t fs m = map Some (le_bytes (sizeof u) v))"

text \<open>Members that do not overlap.\<close>

definition off_size :: "ctype \<Rightarrow> string list \<Rightarrow> (nat \<times> nat) option" where
  "off_size t fs = map_option (\<lambda>(off, u). (off, sizeof u)) (locate t fs)"

definition asunder :: "ctype \<Rightarrow> string list \<Rightarrow> string list \<Rightarrow> bool" where
  "asunder t fs gs \<longleftrightarrow>
     (case (off_size t fs, off_size t gs) of
        (Some (i, n), Some (j, k)) \<Rightarrow> i + n \<le> j \<or> j + k \<le> i
      | _ \<Rightarrow> False)"

lemma blit_elsewhere:
  assumes "i + n \<le> j \<or> j + k \<le> i" and "j + length bs \<le> length m" and "k = length bs"
  shows "take n (drop i (blit m j bs)) = take n (drop i m)"
proof (rule nth_equalityI)
  show "length (take n (drop i (blit m j bs))) = length (take n (drop i m))" using assms(2) by simp
  fix l
  assume "l < length (take n (drop i (blit m j bs)))"
  then show "take n (drop i (blit m j bs)) ! l = take n (drop i m) ! l"
    using assms by (auto simp: nth_blit)
qed

lemma put_keeps:
  assumes "put t gs v m = Ok m'" and "asunder t fs gs"
  shows "cells_of t fs m' = cells_of t fs m"
  using assms blit_elsewhere
  by (auto simp: put_def asunder_def off_size_def cells_of_def split: option.splits if_splits prod.splits)

lemma put_inside:
  assumes "locate t fs = Some (off, u)" and "off + sizeof u \<le> length m"
  shows "\<exists>m'. put t fs v m = Ok m' \<and> length m' = length m \<and> holds_value t fs v m'"
  using assms by (auto simp: put_def holds_value_def cells_of_def blit_def)

text \<open>
  A sequence of assignments to members that do not overlap never leaves the block; each
  member has its value at the end, and members apart from all of them are as they were.
\<close>

lemma puts_filled:
  assumes "sizeof t \<le> length m" and "wf_ctype t" and "\<forall>s \<in> set ss. off_size t (fst s) \<noteq> None"
    and "sorted_wrt (asunder t) (map fst ss)"
  shows "\<exists>m'. puts t ss m = Ok m' \<and> length m' = length m \<and> (\<forall>(fs, v) \<in> set ss. holds_value t fs v m') \<and>
    (\<forall>gs. (\<forall>s \<in> set ss. asunder t gs (fst s)) \<longrightarrow> cells_of t gs m' = cells_of t gs m)"
  using assms
proof (induction ss arbitrary: m)
  case Nil
  then show ?case by simp
next
  case (Cons s ss)
  obtain fs v where s: "s = (fs, v)" by (cases s)
  obtain off u where l: "locate t fs = Some (off, u)" using Cons.prems(3) s by (auto simp: off_size_def)
  have "off + sizeof u \<le> length m" using locate_inside [OF Cons.prems(2) l] Cons.prems(1) by simp
  from put_inside [OF l this] obtain m1 where m1: "put t fs v m = Ok m1" "length m1 = length m" "holds_value t fs v m1"
    by blast
  from Cons.IH [of m1] Cons.prems m1(2) obtain m' where
    m': "puts t ss m1 = Ok m'" "length m' = length m1" "\<forall>(gs, v) \<in> set ss. holds_value t gs v m'"
    and keep: "\<And>gs. \<forall>s \<in> set ss. asunder t gs (fst s) \<Longrightarrow> cells_of t gs m' = cells_of t gs m1" by auto
  have "\<forall>s \<in> set ss. asunder t fs (fst s)" using Cons.prems(4) s by simp
  from keep [OF this] m1(3) l have "holds_value t fs v m'" by (simp add: holds_value_def)
  moreover have "cells_of t gs m' = cells_of t gs m" if "\<forall>s \<in> set (s # ss). asunder t gs (fst s)" for gs
    using that keep [of gs] put_keeps [OF m1(1), of gs] s by simp
  ultimately show ?case using m1(1,2) m'(1,2,3) s by auto
qed

section \<open>What the code assigns\<close>

text \<open>
  The assignments of \<open>DevLinkUp\<close>, \<open>DevLinkDown\<close> and \<open>DevLinkGoingDown\<close> to the parameter of
  the indication and to the separate copy of the address. \<open>dev_addr\<close> and \<open>mac_addr\<close> are the
  two pointers; \<open>link_type\<close> is absent where the code assigns none.
\<close>

fun link_type_code :: "link_type \<Rightarrow> 64 word" where
  "link_type_code ETHERNET = 15"
| "link_type_code WIRELESS_IEEE_802_11 = 19"

definition mac_addr_stores :: "64 word \<Rightarrow> (string list \<times> 64 word) list" where
  "mac_addr_stores dev_addr = [([''addr_type''], 6), ([''addr''], dev_addr)]"

definition DevLinkUp_stores :: "link_type option \<Rightarrow> 64 word \<Rightarrow> 64 word \<Rightarrow> (string list \<times> 64 word) list" where
  "DevLinkUp_stores link_type dev_addr mac_addr =
     (case link_type of
        None \<Rightarrow> []
      | Some ty \<Rightarrow> [([''LinkIdentifier'', ''link_id'', ''link_type''], link_type_code ty)]) @
     [([''LinkIdentifier'', ''link_id'', ''link_addr'', ''mac_addr'', ''addr_type''], 6),
      ([''LinkIdentifier'', ''link_id'', ''link_addr'', ''mac_addr'', ''addr''], dev_addr),
      ([''LinkIdentifier'', ''link_addr''], mac_addr),
      ([''OldAccessRouter'', ''mac_addr'', ''addr_type''], 6),
      ([''NewAccessRouter'', ''mac_addr'', ''addr_type''], 6),
      ([''IPRenewalFlag''], 0),
      ([''MobilityManagementSupport''], 0)]"

definition DevLinkDown_stores :: "64 word \<Rightarrow> 64 word \<Rightarrow> (string list \<times> 64 word) list" where
  "DevLinkDown_stores dev_addr mac_addr =
     [([''LinkIdentifier'', ''link_id'', ''link_type''], link_type_code ETHERNET),
      ([''LinkIdentifier'', ''link_id'', ''link_addr'', ''mac_addr'', ''addr_type''], 6),
      ([''LinkIdentifier'', ''link_id'', ''link_addr'', ''mac_addr'', ''addr''], dev_addr),
      ([''LinkIdentifier'', ''link_addr''], mac_addr),
      ([''OldAccessRouter'', ''mac_addr'', ''addr_type''], 6),
      ([''ReasonCode''], 0)]"

definition DevLinkGoingDown_stores :: "64 word \<Rightarrow> 64 word \<Rightarrow> (string list \<times> 64 word) list" where
  "DevLinkGoingDown_stores dev_addr mac_addr =
     [([''LinkIdentifier'', ''link_id'', ''link_type''], link_type_code ETHERNET),
      ([''LinkIdentifier'', ''link_id'', ''link_addr'', ''mac_addr'', ''addr_type''], 6),
      ([''LinkIdentifier'', ''link_id'', ''link_addr'', ''mac_addr'', ''addr''], dev_addr),
      ([''LinkIdentifier'', ''link_addr''], mac_addr),
      ([''LinkGoingDownReason''], 0),
      ([''TimeInterval''], 0)]"

text \<open>The parameter of a received datagram and the reply handler, in \<open>UdpHandler\<close>.\<close>

definition UdpHandler_stores :: "64 word \<Rightarrow> 64 word \<Rightarrow> 64 word \<Rightarrow> (string list \<times> 64 word) list" where
  "UdpHandler_stores buf n reply_hand =
     [([''sock''], 0), ([''msg''], buf), ([''len''], n), ([''reply''], reply_hand)]"

definition reply_hand_stores :: "64 word \<Rightarrow> 64 word \<Rightarrow> (string list \<times> 64 word) list" where
  "reply_hand_stores handler rxaddr = [([''handler''], handler), ([''param''], rxaddr)]"

text \<open>The parameter of a reply, in \<open>queue_message\<close>, and the task, in \<open>queue_task\<close>.\<close>

definition queue_message_stores :: "64 word \<Rightarrow> 64 word \<Rightarrow> (string list \<times> 64 word) list" where
  "queue_message_stores message param = [([''message''], message), ([''param''], param)]"

definition queue_task_stores :: "64 word \<Rightarrow> 64 word \<Rightarrow> (string list \<times> 64 word) list" where
  "queue_task_stores handler parameter = [([''task''], handler), ([''parameter''], parameter)]"

lemmas stores = mac_addr_stores_def DevLinkUp_stores_def DevLinkDown_stores_def DevLinkGoingDown_stores_def
  UdpHandler_stores_def reply_hand_stores_def queue_message_stores_def queue_task_stores_def

text \<open>Assignments that fit a type: every member exists and no two overlap.\<close>

definition fits :: "ctype \<Rightarrow> (string list \<times> 64 word) list \<Rightarrow> bool" where
  "fits t ss \<longleftrightarrow> wf_ctype t \<and> (\<forall>s \<in> set ss. off_size t (fst s) \<noteq> None) \<and> sorted_wrt (asunder t) (map fst ss)"

text \<open>Where the assigned members lie.\<close>

lemma places:
  "off_size struct_Link_Up_parameter [''LinkIdentifier'', ''link_id'', ''link_type''] = Some (0, 1)"
  "off_size struct_Link_Up_parameter [''LinkIdentifier'', ''link_id'', ''link_addr'', ''mac_addr'', ''addr_type''] = Some (8, 2)"
  "off_size struct_Link_Up_parameter [''LinkIdentifier'', ''link_id'', ''link_addr'', ''mac_addr'', ''addr''] = Some (16, 8)"
  "off_size struct_Link_Up_parameter [''LinkIdentifier'', ''link_addr''] = Some (24, 8)"
  "off_size struct_Link_Up_parameter [''OldAccessRouter'', ''mac_addr'', ''addr_type''] = Some (32, 2)"
  "off_size struct_Link_Up_parameter [''OldAccessRouter'', ''mac_addr'', ''addr''] = Some (40, 8)"
  "off_size struct_Link_Up_parameter [''NewAccessRouter'', ''mac_addr'', ''addr_type''] = Some (48, 2)"
  "off_size struct_Link_Up_parameter [''NewAccessRouter'', ''mac_addr'', ''addr''] = Some (56, 8)"
  "off_size struct_Link_Up_parameter [''IPRenewalFlag''] = Some (64, 4)"
  "off_size struct_Link_Up_parameter [''MobilityManagementSupport''] = Some (68, 2)"
  "off_size struct_Link_Down_parameter [''LinkIdentifier'', ''link_id'', ''link_type''] = Some (0, 1)"
  "off_size struct_Link_Down_parameter [''LinkIdentifier'', ''link_id'', ''link_addr'', ''mac_addr'', ''addr_type''] = Some (8, 2)"
  "off_size struct_Link_Down_parameter [''LinkIdentifier'', ''link_id'', ''link_addr'', ''mac_addr'', ''addr''] = Some (16, 8)"
  "off_size struct_Link_Down_parameter [''LinkIdentifier'', ''link_addr''] = Some (24, 8)"
  "off_size struct_Link_Down_parameter [''OldAccessRouter'', ''mac_addr'', ''addr_type''] = Some (32, 2)"
  "off_size struct_Link_Down_parameter [''OldAccessRouter'', ''mac_addr'', ''addr''] = Some (40, 8)"
  "off_size struct_Link_Down_parameter [''ReasonCode''] = Some (48, 4)"
  "off_size struct_Link_Going_Down_parameter [''LinkIdentifier'', ''link_id'', ''link_type''] = Some (0, 1)"
  "off_size struct_Link_Going_Down_parameter [''LinkIdentifier'', ''link_id'', ''link_addr'', ''mac_addr'', ''addr_type''] = Some (8, 2)"
  "off_size struct_Link_Going_Down_parameter [''LinkIdentifier'', ''link_id'', ''link_addr'', ''mac_addr'', ''addr''] = Some (16, 8)"
  "off_size struct_Link_Going_Down_parameter [''LinkIdentifier'', ''link_addr''] = Some (24, 8)"
  "off_size struct_Link_Going_Down_parameter [''TimeInterval''] = Some (32, 2)"
  "off_size struct_Link_Going_Down_parameter [''LinkGoingDownReason''] = Some (34, 1)"
  "off_size transport_addr_t [''addr_type''] = Some (0, 2)"
  "off_size transport_addr_t [''addr''] = Some (8, 8)"
  "off_size struct_received_message [''sock''] = Some (0, 8)"
  "off_size struct_received_message [''len''] = Some (8, 4)"
  "off_size struct_received_message [''msg''] = Some (16, 8)"
  "off_size struct_received_message [''reply''] = Some (24, 8)"
  "off_size struct_reply_handler [''handler''] = Some (0, 8)"
  "off_size struct_reply_handler [''param''] = Some (8, 8)"
  "off_size struct_reply_parameter [''message''] = Some (0, 8)"
  "off_size struct_reply_parameter [''param''] = Some (8, 8)"
  "off_size struct_queued_task [''task''] = Some (0, 8)"
  "off_size struct_queued_task [''parameter''] = Some (8, 8)"
  by code_simp+

lemma stores_fit:
  "fits struct_Link_Up_parameter (DevLinkUp_stores ty a c)" "fits struct_Link_Down_parameter (DevLinkDown_stores a c)"
  "fits struct_Link_Going_Down_parameter (DevLinkGoingDown_stores a c)" "fits transport_addr_t (mac_addr_stores a)"
  "fits struct_received_message (UdpHandler_stores b n r)" "fits struct_reply_handler (reply_hand_stores f a)"
  "fits struct_reply_parameter (queue_message_stores msg p)" "fits struct_queued_task (queue_task_stores f p)"
  by (cases ty; simp add: fits_def stores asunder_def places mih_types_wf)
    (simp_all add: fits_def stores asunder_def places mih_types_wf)

lemma fits_filled:
  assumes "fits t ss" and "length m = sizeof t"
  shows "\<exists>m'. puts t ss m = Ok m' \<and> (\<forall>(fs, v) \<in> set ss. holds_value t fs v m') \<and>
    (\<forall>gs. (\<forall>s \<in> set ss. asunder t gs (fst s)) \<longrightarrow> cells_of t gs m' = cells_of t gs m)"
proof -
  have "sizeof t \<le> length m" "wf_ctype t" "\<forall>s \<in> set ss. off_size t (fst s) \<noteq> None" "sorted_wrt (asunder t) (map fst ss)"
    using assms by (simp_all add: fits_def)
  from puts_filled [OF this] show ?thesis by blast
qed

lemma allocated:
  "sizeof struct_Link_Up_parameter = 72" "sizeof struct_Link_Down_parameter = 56"
  "sizeof struct_Link_Going_Down_parameter = 40"
  by code_simp+

section \<open>The header\<close>

text \<open>
  A bit-field of the header: the unit it lies in, its position there and its width. The
  unit is read with its low byte first.
\<close>

definition header_field :: "string \<Rightarrow> string \<Rightarrow> (nat \<times> nat \<times> nat) option" where
  "header_field unit f =
     (case member mih_header_t unit of
        Some (off, Bits n fs) \<Rightarrow> map_option (\<lambda>(pos, w). (off, pos, w)) (bit_place fs 0 f)
      | _ \<Rightarrow> None)"

definition read_field :: "mem \<Rightarrow> nat \<times> nat \<times> nat \<Rightarrow> u16 cres" where
  "read_field m = (\<lambda>(off, pos, w).
     cbind (mem_read m off) (\<lambda>lo.
     cbind (mem_read m (off + 1)) (\<lambda>hi.
     Ok (take_bit w (drop_bit pos (ucast lo OR push_bit 8 (ucast hi)))))))"

lemma header_fields:
  "header_field ''bits1'' ''sid'' = Some (2, 0, 4)" "header_field ''bits1'' ''opcode'' = Some (2, 4, 2)"
  "header_field ''bits1'' ''aid'' = Some (2, 6, 10)"
  by code_simp+

section \<open>Properties\<close>




text \<open>
  Property C27: the parameter of an indication is filled in place. Each of the three
  functions of the device monitor assigns only inside the block it has allocated, and
  every member it assigns holds its value when the task is queued; but the pointer to the
  address of the old access router is left as the allocator returned it (and that of the
  new one), although the address type beside it says that there is one.
\<close>

theorem indication_parameters_filled:
  assumes "length m1 = sizeof_Link_Up_parameter" and "length m2 = sizeof_Link_Down_parameter"
    and "length m3 = sizeof_Link_Going_Down_parameter"
  shows "(\<exists>m. puts struct_Link_Up_parameter (DevLinkUp_stores ty a c) m1 = Ok m \<and>
      (\<forall>(fs, v) \<in> set (DevLinkUp_stores ty a c). holds_value struct_Link_Up_parameter fs v m) \<and>
      (\<forall>r \<in> {''OldAccessRouter'', ''NewAccessRouter''}.
        cells_of struct_Link_Up_parameter [r, ''mac_addr'', ''addr''] m =
        cells_of struct_Link_Up_parameter [r, ''mac_addr'', ''addr''] m1)) \<and>
    (\<exists>m. puts struct_Link_Down_parameter (DevLinkDown_stores a c) m2 = Ok m \<and>
      (\<forall>(fs, v) \<in> set (DevLinkDown_stores a c). holds_value struct_Link_Down_parameter fs v m) \<and>
      cells_of struct_Link_Down_parameter [''OldAccessRouter'', ''mac_addr'', ''addr''] m =
      cells_of struct_Link_Down_parameter [''OldAccessRouter'', ''mac_addr'', ''addr''] m2) \<and>
    (\<exists>m. puts struct_Link_Going_Down_parameter (DevLinkGoingDown_stores a c) m3 = Ok m \<and>
      (\<forall>(fs, v) \<in> set (DevLinkGoingDown_stores a c). holds_value struct_Link_Going_Down_parameter fs v m))"
proof -
  have l: "length m1 = sizeof struct_Link_Up_parameter" "length m2 = sizeof struct_Link_Down_parameter"
    "length m3 = sizeof struct_Link_Going_Down_parameter" using assms allocated by simp_all
  have up: "\<forall>s \<in> set (DevLinkUp_stores ty a c). asunder struct_Link_Up_parameter [r, ''mac_addr'', ''addr''] (fst s)"
    if "r \<in> {''OldAccessRouter'', ''NewAccessRouter''}" for r
    using that by (cases ty) (auto simp: stores asunder_def places)
  have down: "\<forall>s \<in> set (DevLinkDown_stores a c). asunder struct_Link_Down_parameter [''OldAccessRouter'', ''mac_addr'', ''addr''] (fst s)"
    by (simp add: stores asunder_def places)
  obtain m where 1: "puts struct_Link_Up_parameter (DevLinkUp_stores ty a c) m1 = Ok m"
    "\<forall>(fs, v) \<in> set (DevLinkUp_stores ty a c). holds_value struct_Link_Up_parameter fs v m"
    and k1: "\<forall>gs. (\<forall>s \<in> set (DevLinkUp_stores ty a c). asunder struct_Link_Up_parameter gs (fst s)) \<longrightarrow>
      cells_of struct_Link_Up_parameter gs m = cells_of struct_Link_Up_parameter gs m1"
    using fits_filled [OF stores_fit(1) [of ty a c] l(1)] by (elim exE conjE) (rule that)
  have old1: "\<forall>r \<in> {''OldAccessRouter'', ''NewAccessRouter''}.
      cells_of struct_Link_Up_parameter [r, ''mac_addr'', ''addr''] m =
      cells_of struct_Link_Up_parameter [r, ''mac_addr'', ''addr''] m1"
    by (intro ballI k1 [rule_format]) (rule up [rule_format])
  obtain m' where 2: "puts struct_Link_Down_parameter (DevLinkDown_stores a c) m2 = Ok m'"
    "\<forall>(fs, v) \<in> set (DevLinkDown_stores a c). holds_value struct_Link_Down_parameter fs v m'"
    and k2: "\<forall>gs. (\<forall>s \<in> set (DevLinkDown_stores a c). asunder struct_Link_Down_parameter gs (fst s)) \<longrightarrow>
      cells_of struct_Link_Down_parameter gs m' = cells_of struct_Link_Down_parameter gs m2"
    using fits_filled [OF stores_fit(2) [of a c] l(2)] by (elim exE conjE) (rule that)
  note old2 = k2 [rule_format, OF down [rule_format]]
  obtain m'' where 3: "puts struct_Link_Going_Down_parameter (DevLinkGoingDown_stores a c) m3 = Ok m''"
    "\<forall>(fs, v) \<in> set (DevLinkGoingDown_stores a c). holds_value struct_Link_Going_Down_parameter fs v m''"
    using fits_filled [OF stores_fit(3) [of a c] l(3)] by (elim exE conjE) (rule that)
  show ?thesis
    using conjI [OF 1(1) conjI [OF 1(2) old1]] conjI [OF 2(1) conjI [OF 2(2) old2]] conjI [OF 3]
    by (intro conjI) (rule exI, assumption)+
qed

theorem indication_parameters_filled_witness:
  "\<exists>m. puts struct_Link_Up_parameter (DevLinkUp_stores (Some ETHERNET) 7 9) (replicate 72 None) = Ok m \<and>
     holds_value struct_Link_Up_parameter [''LinkIdentifier'', ''link_addr''] 9 m"
proof -
  have "length (replicate 72 (None :: u8 option)) = 72" "length (replicate 56 (None :: u8 option)) = 56"
    "length (replicate 40 (None :: u8 option)) = 40" by simp_all
  from indication_parameters_filled [OF this, THEN conjunct1, of "Some ETHERNET" 7 9] obtain m where
    "puts struct_Link_Up_parameter (DevLinkUp_stores (Some ETHERNET) 7 9) (replicate 72 None) = Ok m"
    "\<forall>(fs, v) \<in> set (DevLinkUp_stores (Some ETHERNET) 7 9). holds_value struct_Link_Up_parameter fs v m" by blast
  moreover have "([''LinkIdentifier'', ''link_addr''], 9) \<in> set (DevLinkUp_stores (Some ETHERNET) 7 9)"
    by (simp add: DevLinkUp_stores_def)
  ultimately show ?thesis by blast
qed


end
