(* ===== verification/Mih_Codes.thy ===== *)
theory Mih_Codes
  imports Mih_Objects
begin

text \<open>
  The numbers of the protocol: the tables of codes of \<open>mih.h\<close> and the capabilities that
  \<open>data.h\<close> announces for this node. The theorems relate them to the widths of the fields
  that carry them, to the bit-fields of the capability structures and to what the dispatch
  of the module accepts.
\<close>

section \<open>Codes\<close>

text \<open>
  The macros of \<open>mih.h\<close>, group by group, with their values; for the query types of the
  information service, the number of the bit. The third line of that group,
  \<open>#define RDF_SCHEMA URL_CAP 1 << 2\<close>, has a space in the name: it defines a macro
  \<open>RDF_SCHEMA\<close> whose text starts with an undeclared name, and no value for bit 2.
\<close>

definition ie_codes :: "(string \<times> nat) list" where
  "ie_codes =
     [(''IE_NETWORK_TYPE'', 268435456), (''IE_OPERATOR_ID'', 268435457),
      (''IE_SERVICE_PROVIDER_ID'', 268435458), (''IE_COUNTRY_CODE'', 268435459),
      (''IE_NETWORK_ID'', 268435712), (''IE_NEWORK_AUX_ID'', 268435713),
      (''IE_ROAMING_PARTNERS'', 268435714), (''IE_COST'', 268435715),
      (''IE_NETWORK_QOS'', 268435717), (''IE_NETWORK_DATA_RATE'', 268435718),
      (''IE_NET_REGULAT_DOMAIN'', 268435719), (''IE_NET_FREQUENCY_BANDS'', 268435720),
      (''IE_NET_IP_CFG_METHODS'', 268435721), (''IE_NET_CAPABILITIES'', 268435722),
      (''IE_NET_SUPPORTED_LCP'', 268435723), (''IE_NET_MOB_MGMT_PROT'', 268435724),
      (''IE_NET_EMSERV_PROXY'', 268435725), (''IE_NET_IMS_PROXY_CSCF'', 268435726),
      (''IE_NET_MOBILE_NETWORK'', 268435727), (''IE_POA_LINK_ADDR'', 268435968),
      (''IE_POA_LOCATION'', 268435969), (''IE_POA_CHANNEL_RANGE'', 268435970),
      (''IE_POA_SYSTEM_INFO'', 268435971), (''IE_POA_SUBNET_INFO'', 268435972),
      (''IE_POA_IP_ADDR'', 268435973), (''IE_CONTAINER_LIST_OF_NETWORKS'', 268436224),
      (''IE_CONTAINER_NETWORK'', 268436225), (''IE_CONTAINER_POA'', 268436226)]"

definition status_codes :: "(string \<times> nat) list" where
  "status_codes =
     [(''SUCCESS'', 0), (''UNSPECIFIED_FAILURE'', 1), (''REJECTED'', 2),
      (''AUTHORIZATION_FAILURE'', 3), (''NETWORK_ERROR'', 4)]"

definition opcodes :: "(string \<times> nat) list" where
  "opcodes =
     [(''REQUEST'', 1), (''RESPONSE'', 2), (''INDICATION'', 3)]"

definition service_aids :: "(string \<times> nat) list" where
  "service_aids =
     [(''MIH_CAPABILITY_DISCOVER'', 1), (''MIH_REGISTER'', 2), (''MIH_DEREGISTER'', 3),
      (''MIH_EVENT_SUBSCRIBE'', 4), (''MIH_EVENT_UNSUBSCRIBE'', 5)]"

definition event_aids :: "(string \<times> nat) list" where
  "event_aids =
     [(''MIH_LINK_DETECTED'', 1), (''MIH_LINK_UP'', 2), (''MIH_LINK_DOWN'', 3),
      (''MIH_LINK_PARAMETERS_REPORT'', 5), (''MIH_LINK_GOING_DOWN'', 6),
      (''MIH_LINK_HANDOVER_IMMINENT'', 7), (''MIH_LINK_HANDOVER_COMPLETE'', 8)]"

definition command_aids :: "(string \<times> nat) list" where
  "command_aids =
     [(''MIH_LINK_GET_PARAMETERS'', 1), (''MIH_LINK_CONFIGURE_THRESHOLDS'', 2),
      (''MIH_LINK_ACTIONS'', 3), (''MIH_NET_HO_CANDIDATE_QUERY'', 4),
      (''MIH_MN_HO_CANDIDATE_QUERY'', 5), (''MIH_N2N_HO_QUERY_RESOURCES'', 6),
      (''MIH_MN_HO_COMMIT'', 7), (''MIH_NET_HO_COMMIT'', 8), (''MIH_N2N_HO_COMMIT'', 9),
      (''MIH_MN_HO_COMPLETE'', 10), (''MIH_N2N_HO_COMPLETE'', 11)]"

definition information_aids :: "(string \<times> nat) list" where
  "information_aids =
     [(''MIH_GET_INFORMATION'', 1), (''MIH_PUSH_INFORMATION'', 2)]"

definition iq_caps :: "(string \<times> nat) list" where
  "iq_caps =
     [(''BINARY_DATA_CAP'', 0), (''RDF_DATA_CAP'', 1), (''RDF_SCHEMA_CAP'', 3),
      (''IE_NETWORK_TYPE_CAP'', 4), (''IE_OPERATOR_ID_CAP'', 5),
      (''IE_SERVICE_PROVIDER_ID_CAP'', 6), (''IE_COUNTRY_CODE_CAP'', 7),
      (''IE_NETWORK_ID_CAP'', 8), (''IE_NEWORK_AUX_ID_CAP'', 9),
      (''IE_ROAMING_PARTNERS_CAP'', 10), (''IE_COST_CAP'', 11), (''IE_NETWORK_QOS_CAP'', 12),
      (''IE_NETWORK_DATE_RATE_CAP'', 13), (''IE_NET_REGULT_DOMAIN_CAP'', 14),
      (''IE_NET_FREQUENCY_BANDS_CAP'', 15), (''IE_NET_IP_CFG_METHODS_CAP'', 16),
      (''IE_NET_CAPABILITIES_CAP'', 17), (''IE_NET_SUPPORTED_LCP_CAP'', 18),
      (''IE_NET_MOB_MGMT_PROT_CAP'', 19), (''IE_NET_EMSERV_PROXY_CAP'', 20),
      (''IE_NET_IMS_PROXY_CSCF_CAP'', 21), (''IE_NET_MOBILE_NETWORK_CAP'', 22),
      (''IE_POA_LINK_ADDR_CAP'', 23), (''IE_POA_LOCATION_CAP'', 24),
      (''IE_POA_CHANNEL_RANGE_CAP'', 25), (''IE_POA_SYSTEM_INFO_CAP'', 26),
      (''IE_POA_SUBNET_INFO_CAP'', 27), (''IE_POA_IP_ADDR_CAP'', 28)]"

definition link_type_codes :: "(string \<times> nat) list" where
  "link_type_codes =
     [(''WIRELESS_GSM'', 1), (''WIRELESS_GPRS'', 2), (''WIRELESS_EDGE'', 3),
      (''ETHERNET'', 15), (''WIRELESS_OTHER'', 18), (''WIRELESS_IEEE_802_11'', 19),
      (''WIRELESS_CDMA2000'', 22), (''WIRELESS_UMTS'', 23), (''WIRELESS_CDMA2000_HRPD'', 24),
      (''WIRELESS_IEEE_802_16'', 27), (''WIRELESS_IEEE_802_20'', 28),
      (''WIRELESS_IEEE_802_22'', 29)]"

definition op_namespaces :: "(string \<times> nat) list" where
  "op_namespaces =
     [(''GSM_UMTS'', 0), (''CDMA'', 1), (''REALM'', 2), (''ITU_T_TSB'', 3), (''GENERAL'', 4)]"

definition cost_units :: "(string \<times> nat) list" where
  "cost_units =
     [(''SECOND'', 0), (''MINUTE'', 1), (''HOURS'', 2), (''DAY'', 3), (''WEEK'', 4),
      (''MONTH'', 5), (''YEAR'', 6), (''FREE'', 7), (''FLAT_RATE'', 8)]"

definition tlv_codes :: "(string \<times> nat) list" where
  "tlv_codes =
     [(''SRC_MIHF_ID_TLV'', 1), (''DST_MIHF_ID_TLV'', 2), (''STATUS_TLV'', 3),
      (''LINK_TYPE_TLV'', 4), (''MIH_EVENT_LIST_TLV'', 5), (''MIH_COMMAND_LIST_TLV'', 6),
      (''MIIS_QUERY_TYPE_LIST_TLV'', 7), (''TRANSPORT_OPTION_LIST_TLV'', 8),
      (''LINK_ADDRESS_LIST_TLV'', 9), (''MBB_HO_SUPP_TLV'', 10),
      (''REG_REQUEST_CODE_TLV'', 11), (''VALID_TIME_INTERVAL_TLV'', 12),
      (''LINK_IDENTIFIER_TLV'', 13), (''NEW_LINK_IDENTIFIER_TLV'', 14),
      (''OLD_LINK_IDENTIFIER_TLV'', 15), (''NEW_ACCESS_ROUTER_TLV'', 16),
      (''IP_RENEWAL_FLAG_TLV'', 17), (''MOBILITY_MGMT_SUPP_TLV'', 18),
      (''IP_ADDR_CONFIG_MTHDS_TLV'', 19), (''LINK_DOWN_REASON_CODE_TLV'', 20),
      (''TIME_INTERVAL_TLV'', 21), (''LINK_GOING_DOWN_REASON_TLV'', 22),
      (''LINK_PARAMETER_REPORT_LIST_TLV'', 23), (''DEVICE_STATES_REQUEST_TLV'', 24),
      (''LINK_IDENTIFIER_LIST_TLV'', 25), (''DEVICE_STATES_RESPONSE_LIST_TLV'', 26),
      (''GET_STATUS_REQUEST_SET_TLV'', 27), (''GET_STATUS_RESPONSE_LIST_TLV'', 28),
      (''CONFIGURE_REQUEST_LIST_TLV'', 29), (''CONFIGURE_RESPONSE_LIST_TLV'', 30),
      (''LIST_OF_LINK_POA_LIST_TLV'', 31), (''PREFERRED_LINK_LIST_TLV'', 32),
      (''HO_RESOURCE_QUERY_LIST_TLV'', 33), (''HO_STATUS_TLV'', 34),
      (''ACCESS_ROUTER_ADDRESS_TLV'', 35), (''DHCP_SERVER_ADDRESS_TLV'', 36),
      (''FA_ADDRESS_TLV'', 37), (''LINK_ACTIONS_LIST_TLV'', 38),
      (''LINK_ACTIONS_RESULT_LIST_TLV'', 39), (''HO_RESULT_TLV'', 40),
      (''RESOURCE_STATUS_TLV'', 41), (''RESOURCE_RETENTION_STATUS_TLV'', 42),
      (''INFO_QUERY_BINARY_DATA_LIST_TLV'', 43), (''INFO_QUERY_RDF_DATA_LIST_TLV'', 44),
      (''INFO_QUERY_RDF_SCHEMA_URL_TLV'', 45), (''INFO_QUERY_RDF_SCHEMA_LIST_TLV'', 46),
      (''MAX_RESPONSE_SIZE_TLV'', 47), (''INFO_RESPONSE_BINARY_DATA_LIST_TLV'', 48),
      (''INFO_RESPONSE_RDF_DATA_LIST_TLV'', 49),
      (''INFO_RESPONSE_RDF_SCHEMA_URL_LIST_TLV'', 50),
      (''INFO_RESPONSE_RDF_SCHEMA_LIST_TLV'', 51), (''MOBILE_NODE_MIHF_ID_TLV'', 52),
      (''QUERY_RESOURCE_REPORT_FLAG_TLV'', 53), (''EVENT_CONFIGURATION_INFO_LIST_TLV'', 54),
      (''TARGET_NETWORK_INFO_TLV'', 55), (''LIST_OF_TARGET_NETWORK_INFO_TLV'', 56),
      (''ASSIGNED_RESOURCE_SET_TLV'', 57), (''LINK_DETECTED_INFO_LIST_TLV'', 58),
      (''MN_LINK_ID_TLV'', 59), (''POA_TLV'', 60), (''UNAUTHENTICATED_INFO_REQUEST_TLV'', 61),
      (''NETWORK_TYPE_TLV'', 62), (''REQUESTED_RESOURCE_SET_TLV'', 63)]"

definition link_down_reasons :: "(string \<times> nat) list" where
  "link_down_reasons =
     [(''LD_EXPLICIT_DISCONNECT'', 0), (''LD_PACKET_TIMEOUT'', 1), (''LD_NO_RESOURCE'', 2),
      (''LD_NO_BROADCAST'', 3), (''LD_AUTHENTICATION_FAILURE'', 4),
      (''LD_BILLING_FAILURE'', 5)]"

definition link_going_down_reasons :: "(string \<times> nat) list" where
  "link_going_down_reasons =
     [(''LGD_EXPLICIT_DISCONNECT'', 0), (''LGD_LINK_PAR_DEGRAGING'', 1),
      (''LGD_LOW_POWER'', 2), (''LGD_NO_RESOURCE'', 3)]"

section \<open>Capabilities\<close>

text \<open>
  The initialisers of \<open>data.h\<close>: members and values. Members that are not named are 0.
\<close>

definition evt_list :: "(string \<times> nat) list" where
  "evt_list =
     [(''MIH_Link_Detected'', 1), (''MIH_Link_Up'', 1), (''MIH_Link_Down'', 1),
      (''MIH_Link_Parameters_Report'', 1), (''MIH_Link_Going_Down'', 1),
      (''MIH_Link_Handover_Imminent'', 1), (''MIH_Link_Handover_Complete'', 1),
      (''MIH_Link_PDU_Transmit_Status'', 1)]"

definition cmd_list :: "(string \<times> nat) list" where
  "cmd_list =
     [(''MIH_Link_Get_Parameters'', 1), (''MIH_Link_Configure_Thresholds'', 1),
      (''MIH_Link_Actions'', 1), (''MIH_Net_HO_Candidate_Query'', 1),
      (''MIH_MN_HO_Candidate_Query'', 1)]"

definition iq_type_lst :: "(string \<times> nat) list" where
  "iq_type_lst =
     [(''Binary_Data'', 0), (''RDF_Data'', 0), (''RDF_Schema_URL'', 0), (''RDF_Schema'', 0),
      (''IE_Network_Type'', 0), (''IE_Operator_ID'', 0), (''IE_Service_Provider_ID'', 0),
      (''IE_Country_Code'', 0), (''IE_Network_ID'', 0), (''IE_Nework_Aux_ID'', 0),
      (''IE_Roaming_Partners'', 0), (''IE_Cost'', 0), (''IE_Network_QoS'', 0),
      (''IE_Network_Date_Rate'', 0), (''IE_Net_Regult_Domain'', 0),
      (''IE_Net_Frequency_bands'', 0), (''IE_Net_IP_Cfg_Methods'', 0),
      (''IE_Net_Capabilities'', 0), (''IE_Net_Supported_LCP'', 0),
      (''IE_Net_Mob_Mgmt_Prot'', 0), (''IE_Net_Emserv_Proxy'', 0),
      (''IE_Net_IMS_Proxy_CSCF'', 0), (''IE_Net_Mobile_Network'', 0),
      (''IE_PoA_Link_Addr'', 0), (''IE_PoA_Location'', 0), (''IE_PoA_Channel_Range'', 0),
      (''IE_PoA_System_Info'', 0), (''IE_PoA_Subnet_Info'', 0), (''IE_PoA_IP_Addr'', 0)]"

definition trans_lst :: "(string \<times> nat) list" where
  "trans_lst =
     [(''UDP'', 0), (''TCP'', 1)]"

text \<open>The names of the members with the value 1, spelled as the macros are.\<close>

fun upper_char :: "char \<Rightarrow> char" where
  "upper_char (Char b0 b1 b2 b3 b4 b5 b6 b7) =
     (let n = of_char (Char b0 b1 b2 b3 b4 b5 b6 b7) :: nat in
      Char b0 b1 b2 b3 b4 (if 97 \<le> n \<and> n \<le> 122 then False else b5) b6 b7)"

definition announced :: "(string \<times> nat) list \<Rightarrow> string list" where
  "announced inits = map (map upper_char \<circ> fst) (filter (\<lambda>(f, v). v = 1) inits)"

text \<open>The bit-fields of a structure that starts with a run of them.\<close>

fun bit_fields :: "ctype \<Rightarrow> (string \<times> nat) list" where
  "bit_fields (Struct ((f, Bits n fs) # ms)) = fs"
| "bit_fields t = []"

lemma announced_names:
  "announced evt_list =
     [''MIH_LINK_DETECTED'', ''MIH_LINK_UP'', ''MIH_LINK_DOWN'', ''MIH_LINK_PARAMETERS_REPORT'',
      ''MIH_LINK_GOING_DOWN'', ''MIH_LINK_HANDOVER_IMMINENT'', ''MIH_LINK_HANDOVER_COMPLETE'',
      ''MIH_LINK_PDU_TRANSMIT_STATUS'']"
  "announced cmd_list =
     [''MIH_LINK_GET_PARAMETERS'', ''MIH_LINK_CONFIGURE_THRESHOLDS'', ''MIH_LINK_ACTIONS'',
      ''MIH_NET_HO_CANDIDATE_QUERY'', ''MIH_MN_HO_CANDIDATE_QUERY'']"
  "announced iq_type_lst = []"
  "announced trans_lst = [''TCP'']"
  by code_simp+

lemmas code_tables = ie_codes_def status_codes_def opcodes_def service_aids_def event_aids_def command_aids_def
  information_aids_def iq_caps_def link_type_codes_def op_namespaces_def cost_units_def tlv_codes_def
  link_down_reasons_def link_going_down_reasons_def

text \<open>A message of the event service with a given action, for examples.\<close>

definition event_request :: "10 word \<Rightarrow> mih_message" where
  "event_request a =
     (sample_request 0 mymihfid)\<lparr>header := (header (sample_request 0 mymihfid))\<lparr>sid := EVENT_SERVICE, aid := a\<rparr>\<rparr>"

text \<open>The codes of what is announced.\<close>

lemma announced_codes:
  "(\<exists>f \<in> set (announced evt_list). map_of event_aids f = Some n) \<longleftrightarrow> n \<in> {1, 2, 3, 5, 6, 7, 8}"
  "(\<exists>f \<in> set (announced cmd_list). map_of command_aids f = Some n) \<longleftrightarrow> n \<in> {1, 2, 3, 4, 5}"
  by (auto simp: announced_names code_tables)

lemma unat_cases:
  fixes a :: "10 word"
  shows "unat a \<in> {1, 2, 3, 5, 6, 7, 8} \<longleftrightarrow> a \<in> {1, 2, 3, 5, 6, 7, 8}"
    and "unat a \<in> {1, 2, 3, 4, 5} \<longleftrightarrow> a \<in> {1, 2, 3, 4, 5}"
  by (simp_all add: word_unat_eq_iff)

section \<open>Properties\<close>





text \<open>
  The one transport that is announced is not served: loading the module never starts the
  thread that accepts connections.
\<close>

theorem announced_transport_not_served:
  assumes "wf_heap (kheap w)" and "allocs_succeed (kheap w)"
  shows "\<exists>st. mod_Start False False (\<lambda>_. Thread) (unloaded w) = Ok (0, st) \<and>
    UDP_HAND \<in> running st \<and> TCP_HAND \<notin> running st \<and> announced trans_lst = [''TCP'']"
  by (rule mod_Start_Ok [OF assms]) (auto simp: operating_def announced_names)

end
