(* ===== verification/Mihfd.thy ===== *)
theory Mihfd
  imports Mihfd_Dispatch
begin

text \<open>
  The user-level daemon (\<open>mihfd.c\<close>): its sockets, its handler threads and its main loop.
  What the system calls answer comes from the state (\<open>sys_ret\<close>, numbered in program order)
  or, where data arrive, from an argument.
\<close>

section \<open>State\<close>

record pollfd =
  fd :: int
  events :: u16
  revents :: u16

text \<open>
  The globals \<open>_fds\<close>, \<open>_time_to_quit\<close> and \<open>_verbose\<close>; the descriptors the process has open,
  and the answers of the system calls.
\<close>

record daemon =
  fds :: "pollfd list"
  time_to_quit :: bool
  verbose :: bool
  open_fds :: "int set"
  sys_calls :: nat
  sys_ret :: "nat \<Rightarrow> int"

abbreviation (input) MAX_FDS :: nat where "MAX_FDS \<equiv> 4"
abbreviation (input) TCP4 :: nat where "TCP4 \<equiv> 0"
abbreviation (input) UDP4 :: nat where "UDP4 \<equiv> 1"
abbreviation (input) TCP6 :: nat where "TCP6 \<equiv> 2"
abbreviation (input) UDP6 :: nat where "UDP6 \<equiv> 3"
abbreviation (input) POLLIN :: u16 where "POLLIN \<equiv> 1"

definition sys :: "daemon \<Rightarrow> int \<times> daemon" where
  "sys d = (sys_ret d (sys_calls d), d\<lparr>sys_calls := Suc (sys_calls d)\<rparr>)"

definition daemon0 :: daemon where
  "daemon0 = \<lparr>fds = replicate MAX_FDS \<lparr>fd = 0, events = 0, revents = 0\<rparr>, time_to_quit = False,
     verbose = False, open_fds = {0, 1, 2}, sys_calls = 0, sys_ret = (\<lambda>_. 0)\<rparr>"

section \<open>The sockets\<close>

text \<open>What \<open>getaddrinfo\<close> yields; a family or a type that is not named is another one.\<close>

datatype family = AF_INET | AF_INET6 | AF_other
datatype socktype = SOCK_STREAM | SOCK_other

record addrinfo =
  ai_family :: family
  ai_socktype :: socktype

text \<open>
  The code writes out the same calls for each of the four entries: a socket and its bind,
  and for a stream socket also \<open>listen\<close> and two \<open>setsockopt\<close>. The result is false where the
  code returns -1.
\<close>

definition set_fd :: "nat \<Rightarrow> int \<Rightarrow> daemon \<Rightarrow> daemon" where
  "set_fd i s d = d\<lparr>fds := (fds d)[i := (fds d ! i)\<lparr>fd := s\<rparr>],
     open_fds := (if s = - 1 then open_fds d else insert s (open_fds d))\<rparr>"

definition set_events :: "nat \<Rightarrow> daemon \<Rightarrow> daemon" where
  "set_events i d = d\<lparr>fds := (fds d)[i := (fds d ! i)\<lparr>events := POLLIN\<rparr>]\<rparr>"

definition init_udp :: "nat \<Rightarrow> daemon \<Rightarrow> bool \<times> daemon" where
  "init_udp i d =
     (case sys d of (s, d) \<Rightarrow>
      let d = set_fd i s d in
      if s = - 1 then (False, d)
      else case sys d of (b, d) \<Rightarrow>
      if b \<noteq> 0 then (False, d) else (True, set_events i d))"

definition init_tcp :: "nat \<Rightarrow> daemon \<Rightarrow> bool \<times> daemon" where
  "init_tcp i d =
     (case sys d of (s, d) \<Rightarrow>
      let d = set_fd i s d in
      if s = - 1 then (False, d)
      else case sys d of (b, d) \<Rightarrow>
      if b \<noteq> 0 then (False, d)
      else case sys d of (l, d) \<Rightarrow>
      if l = - 1 then (False, d)
      else case sys d of (o1, d) \<Rightarrow>
      if o1 = - 1 then (False, d)
      else case sys d of (o2, d) \<Rightarrow>
      if o2 = - 1 then (False, d) else (True, set_events i d))"

definition init_addr :: "addrinfo \<Rightarrow> daemon \<Rightarrow> bool \<times> nat \<times> daemon" where
  "init_addr rp d =
     (case ai_family rp of
        AF_INET \<Rightarrow> (case (if ai_socktype rp = SOCK_STREAM then init_tcp TCP4 d else init_udp UDP4 d) of
          (ok, d) \<Rightarrow> (ok, 1, d))
      | AF_INET6 \<Rightarrow> (case (if ai_socktype rp = SOCK_STREAM then init_tcp TCP6 d else init_udp UDP6 d) of
          (ok, d) \<Rightarrow> (ok, 1, d))
      | AF_other \<Rightarrow> (True, 0, d))"

fun init_addrs :: "addrinfo list \<Rightarrow> nat \<Rightarrow> daemon \<Rightarrow> nat option \<times> daemon" where
  "init_addrs [] naddr d = (Some naddr, d)"
| "init_addrs (rp # rps) naddr d =
     (case init_addr rp d of
        (ok, n, d) \<Rightarrow> if ok then init_addrs rps (naddr + n) d else (None, d))"

text \<open>\<open>result\<close> is what \<open>getaddrinfo\<close> gives, \<open>None\<close> when it fails.\<close>

definition SockInit :: "addrinfo list option \<Rightarrow> daemon \<Rightarrow> int \<times> daemon" where
  "SockInit result d =
     (case result of
        None \<Rightarrow> (- 1, d)
      | Some result \<Rightarrow>
          let d = d\<lparr>fds := map (\<lambda>p. p\<lparr>fd := 0, events := 0\<rparr>) (fds d)\<rparr> in
          (case init_addrs result 0 d of
             (None, d) \<Rightarrow> (- 1, d)
           | (Some naddr, d) \<Rightarrow> if naddr = 0 then (- 1, d) else (0, d)))"

text \<open>
  \<open>UnixSockInit\<close>, which nothing calls: the name is copied into the 108 bytes of
  \<open>sun_path\<close>, and its length taken with \<open>strlen\<close>.
\<close>

definition UnixSockInit :: "mem \<Rightarrow> nat \<Rightarrow> daemon \<Rightarrow> (int \<times> int \<times> daemon) cres" where
  "UnixSockInit s_name n_len d =
     (case sys d of (sockfd, d) \<Rightarrow>
      if sockfd = - 1 then Ok (- 1, sockfd, d)
      else
        let d = d\<lparr>open_fds := insert sockfd (open_fds d)\<rparr> in
        cbind (memcpy (replicate 108 (Some 0)) 0 s_name 0 n_len) (\<lambda>sun_path.
        cbind (cstring sun_path) (\<lambda>_.
        case sys d of (_, d) \<Rightarrow>
        case sys d of (b, d) \<Rightarrow>
        if b = - 1 then Ok (- 1, sockfd, d)
        else case sys d of (l, d) \<Rightarrow>
        if l = - 1 then Ok (- 1, sockfd, d) else Ok (0, sockfd, d))))"

text \<open>\<open>Quit\<close> removes the name of the socket and does not end the process.\<close>

definition Quit :: "daemon \<Rightarrow> daemon" where
  "Quit d = snd (sys d)"

definition SigHandler :: "daemon \<Rightarrow> daemon" where
  "SigHandler d = d\<lparr>time_to_quit := True\<rparr>"

definition SigInit :: "daemon \<Rightarrow> int \<times> daemon" where
  "SigInit d =
     (case sys d of (a, d) \<Rightarrow>
      if a = - 1 then (- 1, d)
      else case sys d of (b, d) \<Rightarrow>
      if b = - 1 then (- 1, d)
      else case sys d of (c, d) \<Rightarrow>
      if c = - 1 then (- 1, d) else (0, d))"

section \<open>The handler threads\<close>

definition ready :: "daemon \<Rightarrow> nat \<Rightarrow> bool" where
  "ready d i \<longleftrightarrow> fd (fds d ! i) \<noteq> 0 \<and> revents (fds d ! i) AND POLLIN \<noteq> 0"

text \<open>\<open>poll\<close>: the kernel writes the returned events of each entry.\<close>

definition set_revents :: "u16 list \<Rightarrow> daemon \<Rightarrow> daemon" where
  "set_revents rs d = d\<lparr>fds := map2 (\<lambda>p r. p\<lparr>revents := r\<rparr>) (fds d) rs\<rparr>"

text \<open>
  The result of a handler: what \<open>ProcessRequest\<close> answered and printed, if it was called.
  \<open>got\<close> is what arrives when the socket is read, \<open>None\<close> for an error.
\<close>

definition process_input :: "u8 list option \<Rightarrow> (int \<times> u8 list) option cres" where
  "process_input got =
     (case got of
        None \<Rightarrow> Ok None
      | Some bs \<Rightarrow>
          let in_buf = take 65535 bs in
          cbind (fd_ProcessRequest (received in_buf) (int (length in_buf))) (\<lambda>r. Ok (Some r)))"

definition HandleTcpRequest ::
    "int \<Rightarrow> int \<Rightarrow> int \<times> u16 list \<Rightarrow> u8 list option \<Rightarrow> daemon \<Rightarrow> ((int \<times> u8 list) option \<times> daemon) cres" where
  "HandleTcpRequest detach newsock polled got d =
     (if detach = - 1 then Ok (None, d)
      else
        case (if ready d TCP4 then Some TCP4 else if ready d TCP6 then Some TCP6 else None) of
          None \<Rightarrow> Ok (None, d)
        | Some ind \<Rightarrow>
            if newsock = - 1 then Ok (None, d)
            else
              let d = d\<lparr>open_fds := insert newsock (open_fds d)\<rparr>;
                  (nfds, rs) = polled;
                  d = set_revents rs d in
              cbind (if 0 < nfds \<and> ready d ind then process_input got else Ok None) (\<lambda>r.
              Ok (r, d\<lparr>open_fds := open_fds d - {newsock}\<rparr>)))"

definition HandleUdpRequest :: "int \<Rightarrow> u8 list option \<Rightarrow> daemon \<Rightarrow> (int \<times> u8 list) option cres" where
  "HandleUdpRequest detach got d =
     (if detach = - 1 then Ok None
      else
        case (if ready d UDP4 then Some UDP4 else if ready d UDP6 then Some UDP6 else None) of
          None \<Rightarrow> Ok None
        | Some ind \<Rightarrow> process_input got)"

section \<open>The main loop\<close>

datatype spawned = Tcp_thread | Udp_thread

text \<open>One turn: \<open>poll\<close> answers, and a thread is created for each kind of socket that is ready.\<close>

definition main_turn :: "int \<times> u16 list \<Rightarrow> daemon \<Rightarrow> spawned list \<times> daemon" where
  "main_turn polled d =
     (let (nfds, rs) = polled; d = set_revents rs d in
      (if 0 < nfds
       then (if ready d TCP4 \<or> ready d TCP6 then [Tcp_thread] else []) @
            (if ready d UDP4 \<or> ready d UDP6 then [Udp_thread] else [])
       else [], d))"

text \<open>
  The loop over the answers of \<open>poll\<close>, each with whether a signal arrived during the turn;
  it ends when the flag is set and otherwise waits for the next answer.
\<close>

datatype daemon_end = Exits | Polls

fun main_loop :: "((int \<times> u16 list) \<times> bool) list \<Rightarrow> daemon \<Rightarrow> daemon_end \<times> spawned list \<times> daemon" where
  "main_loop [] d = (Polls, [], d)"
| "main_loop ((polled, signal) # ts) d =
     (case main_turn polled d of
        (new, d) \<Rightarrow>
          let d = (if signal then SigHandler d else d) in
          if time_to_quit d then (Exits, new, Quit d)
          else case main_loop ts d of (e, rest, d) \<Rightarrow> (e, new @ rest, d))"

definition fd_main ::
    "string list \<Rightarrow> addrinfo list option \<Rightarrow> ((int \<times> u16 list) \<times> bool) list \<Rightarrow> daemon \<Rightarrow>
     daemon_end \<times> spawned list \<times> daemon" where
  "fd_main argv addrs ts d =
     (let d = (if 1 < length argv \<and> argv ! 1 = ''-v'' then d\<lparr>verbose := True\<rparr> else d);
          (s, d) = SigInit d;
          d = (if s = - 1 then Quit d else d);
          (s, d) = SockInit addrs d;
          d = (if s = - 1 then Quit d else d)
      in main_loop ts d)"

section \<open>The socket table\<close>

text \<open>
  An entry of the table is unused, or it has a descriptor that is open and is polled for
  input.
\<close>

definition unused :: "pollfd \<Rightarrow> bool" where
  "unused p \<longleftrightarrow> fd p = 0 \<and> events p = 0"

definition serving :: "daemon \<Rightarrow> pollfd \<Rightarrow> bool" where
  "serving d p \<longleftrightarrow> events p = POLLIN \<and> fd p \<in> open_fds d \<and> fd p \<noteq> - 1"

definition table_ok :: "nat \<Rightarrow> daemon \<Rightarrow> bool" where
  "table_ok n d \<longleftrightarrow> length (fds d) = MAX_FDS \<and> (\<forall>p \<in> set (fds d). unused p \<or> serving d p) \<and>
     (0 < n \<longrightarrow> (\<exists>p \<in> set (fds d). serving d p))"

lemma sys_fields [simp]: "fds (snd (sys d)) = fds d" "open_fds (snd (sys d)) = open_fds d"
    "time_to_quit (snd (sys d)) = time_to_quit d"
  by (simp_all add: sys_def)

text \<open>What setting up an entry leaves, however many calls it takes.\<close>

lemma table_entry:
  assumes ok: "table_ok n d" and i: "i < MAX_FDS" and s: "s \<noteq> - 1"
    and d': "fds d' = (fds d)[i := p]" "events p = POLLIN" "fd p = s" "open_fds d' = insert s (open_fds d)"
  shows "table_ok (Suc n) d'"
proof -
  have len: "length (fds d) = 4" and all: "\<forall>p \<in> set (fds d). unused p \<or> serving d p"
    using ok by (simp_all add: table_ok_def)
  have sv: "serving d' p" using d' s by (simp add: serving_def)
  have keep: "serving d q \<Longrightarrow> serving d' q" for q using d'(4) by (auto simp: serving_def)
  have "p \<in> set (fds d')" using d'(1) i len by (simp add: set_update_memI)
  with sv have "\<exists>q \<in> set (fds d'). serving d' q" by blast
  moreover have "\<forall>q \<in> set (fds d'). unused q \<or> serving d' q"
    using set_update_subset_insert [of "fds d" i p] all sv keep d'(1) by auto
  ultimately show ?thesis using len d'(1) by (simp add: table_ok_def)
qed

lemma init_udp_table:
  assumes "init_udp i d = (True, d')" and "table_ok n d" and "i < MAX_FDS"
  shows "table_ok (Suc n) d'"
proof -
  let ?s = "sys_ret d (sys_calls d)"
  have "fds d' = (fds d)[i := (fds d ! i)\<lparr>fd := ?s, events := POLLIN\<rparr>]" "open_fds d' = insert ?s (open_fds d)" "?s \<noteq> - 1"
    using assms(1,3) assms(2)
    by (auto simp: init_udp_def sys_def set_fd_def set_events_def table_ok_def Let_def split: if_splits)
  then show ?thesis using table_entry [OF assms(2,3), of ?s d'] by simp
qed

lemma init_tcp_table:
  assumes "init_tcp i d = (True, d')" and "table_ok n d" and "i < MAX_FDS"
  shows "table_ok (Suc n) d'"
proof -
  let ?s = "sys_ret d (sys_calls d)"
  have "fds d' = (fds d)[i := (fds d ! i)\<lparr>fd := ?s, events := POLLIN\<rparr>]" "open_fds d' = insert ?s (open_fds d)" "?s \<noteq> - 1"
    using assms(1,3) assms(2)
    by (auto simp: init_tcp_def sys_def set_fd_def set_events_def table_ok_def Let_def split: if_splits)
  then show ?thesis using table_entry [OF assms(2,3), of ?s d'] by simp
qed

lemma init_addr_table:
  assumes "init_addr rp d = (True, k, d')" and "table_ok n d"
  shows "table_ok (n + k) d'"
  using assms init_tcp_table [OF _ assms(2)] init_udp_table [OF _ assms(2)]
  by (auto simp: init_addr_def split: family.splits if_splits prod.splits)

lemma init_addrs_table:
  "init_addrs rps n d = (Some m, d') \<Longrightarrow> table_ok n d \<Longrightarrow> table_ok m d'"
proof (induction rps n d rule: init_addrs.induct)
  case (2 rp rps n d)
  obtain ok k d1 where a: "init_addr rp d = (ok, k, d1)" by (cases "init_addr rp d")
  with "2.prems"(1) have "ok" "init_addrs rps (n + k) d1 = (Some m, d')" by (auto split: if_splits)
  with "2.IH" [OF a [symmetric]] a init_addr_table "2.prems"(2) show ?case by simp
qed simp

text \<open>
  Property C30: when \<open>SockInit\<close> answers 0, every entry of the table is either unused or has
  an open descriptor that is polled for input, and at least one has.
\<close>

theorem SockInit_table:
  assumes "SockInit addrs d = (0, d')" and "length (fds d) = 4"
  shows "(\<forall>i < 4. fd (fds d' ! i) = 0 \<and> events (fds d' ! i) = 0 \<or>
      events (fds d' ! i) = POLLIN \<and> fd (fds d' ! i) \<in> open_fds d' \<and> fd (fds d' ! i) \<noteq> - 1) \<and>
    (\<exists>i < 4. events (fds d' ! i) = POLLIN)"
proof -
  let ?d = "d\<lparr>fds := map (\<lambda>p. p\<lparr>fd := 0, events := 0\<rparr>) (fds d)\<rparr>"
  obtain m rps where "init_addrs rps 0 ?d = (Some m, d')" "m \<noteq> 0"
    using assms(1) by (auto simp: SockInit_def Let_def split: option.splits prod.splits if_splits)
  moreover have "table_ok 0 ?d" using assms(2) by (auto simp: table_ok_def unused_def)
  ultimately have "table_ok m d'" "0 < m" using init_addrs_table by auto
  then show ?thesis by (auto simp: table_ok_def unused_def serving_def all_set_conv_all_nth in_set_conv_nth)
qed

theorem SockInit_table_witness:
  "\<exists>d'. SockInit (Some [\<lparr>ai_family = AF_INET, ai_socktype = SOCK_STREAM\<rparr>])
      (daemon0\<lparr>sys_ret := (\<lambda>n. if n = 0 then 3 else 0)\<rparr>) = (0, d') \<and>
     (\<exists>i < 4. events (fds d' ! i) = POLLIN)"
proof -
  let ?d = "daemon0\<lparr>sys_ret := (\<lambda>n. if n = 0 then 3 else 0)\<rparr>"
  obtain d' where "SockInit (Some [\<lparr>ai_family = AF_INET, ai_socktype = SOCK_STREAM\<rparr>]) ?d = (0, d')"
    by (simp add: SockInit_def init_addr_def init_tcp_def sys_def set_fd_def Let_def daemon0_def)
  with SockInit_table [OF this] show ?thesis by (simp add: daemon0_def)
qed

section \<open>Handling a request\<close>

text \<open>
  A handler thread of the daemon leaves the set of open descriptors as it was,
  whatever the system calls answer.
\<close>

theorem tcp_handler_closes:
  assumes "HandleTcpRequest detach newsock polled got d = Ok (r, d')" and "newsock \<notin> open_fds d"
  shows "open_fds d' = open_fds d"
  using assms by (auto simp: HandleTcpRequest_def set_revents_def Let_def split: if_splits prod.splits elim!: cbind_OkE)

text \<open>
  Property C39: after accepting a connection the handler polls the listening sockets, not
  the connection: unless another connection is pending by then, the request is never read,
  whatever the client sent, and the connection is closed.
\<close>

theorem tcp_request_unread:
  assumes "nfds \<le> 0 \<or> \<not> ready (set_revents rs d) TCP4 \<and> \<not> ready (set_revents rs d) TCP6"
  shows "\<exists>d'. HandleTcpRequest detach newsock (nfds, rs) got d = Ok (None, d')"
  using assms by (auto simp: HandleTcpRequest_def ready_def set_revents_def Let_def)

theorem tcp_request_unread_witness:
  "\<exists>d'. HandleTcpRequest 0 7 (0, [0, 0, 0, 0]) (Some [1, 0, 0x91, 0])
      (daemon0\<lparr>fds := replicate 4 \<lparr>fd = 3, events = 1, revents = 1\<rparr>\<rparr>) = Ok (None, d')"
  using tcp_request_unread [of 0 "[0, 0, 0, 0]"] by simp

text \<open>
  A datagram that is ready on one of the UDP sockets is answered: with 0 when
  it carries an accepted message identifier, and with an indeterminate value otherwise.
\<close>

theorem udp_request_answered:
  assumes "detach \<noteq> - 1" and "ready d UDP4 \<or> ready d UDP6" and "length bs \<le> 65535" and "4 \<le> length bs"
    and "message_id (received bs) = Ok (s, operation, a)"
  shows "HandleUdpRequest detach (Some bs) d = (if fd_accepts s operation a then Ok (Some (0, bs)) else Fault Uninit)"
  using assms request_bytes [OF assms(3-5)] by (auto simp: HandleUdpRequest_def process_input_def)

section \<open>The loop\<close>

lemma main_loop_exits:
  "\<not> time_to_quit d \<Longrightarrow> fst (main_loop ts d) = Exits \<longleftrightarrow> (\<exists>t \<in> set ts. snd t)"
proof (induction ts d rule: main_loop.induct)
  case (2 polled signal ts d)
  obtain new d1 where m: "main_turn polled d = (new, d1)" by (cases "main_turn polled d")
  then have "time_to_quit d1 = time_to_quit d"
    by (auto simp: main_turn_def set_revents_def Let_def split: prod.splits)
  with "2.IH" [OF m [symmetric] refl] m "2.prems" show ?case
    by (force simp: SigHandler_def split: prod.splits)
qed simp

text \<open>
  The main loop ends exactly when a signal arrives during one of its turns,
  and never for another reason.
\<close>

theorem main_loop_ends:
  assumes "\<not> time_to_quit d"
  shows "fst (main_loop ts d) = Exits \<longleftrightarrow> (\<exists>t \<in> set ts. snd t)"
  using assms by (rule main_loop_exits)

lemma SigInit_fields: "SigInit d = (s, d') \<Longrightarrow> fds d' = fds d \<and> time_to_quit d' = time_to_quit d"
  by (auto simp: SigInit_def sys_def split: if_splits)

lemma main_loop_idle:
  "\<forall>p \<in> set (fds d). fd p = 0 \<Longrightarrow> length (fds d) = 4 \<Longrightarrow> \<forall>t \<in> set ts. length (snd (fst t)) = 4 \<Longrightarrow>
   fst (snd (main_loop ts d)) = []"
proof (induction ts d rule: main_loop.induct)
  case (2 polled signal ts d)
  obtain nfds rs where p: "polled = (nfds, rs)" by (cases polled)
  let ?d = "set_revents rs d"
  have z: "\<forall>p \<in> set (fds ?d). fd p = 0" "length (fds ?d) = 4"
    using "2.prems" p by (auto simp: set_revents_def dest: set_zip_leftD)
  then have "\<not> ready ?d i" if "i < 4" for i using that by (simp add: ready_def)
  then have m: "main_turn polled d = ([], ?d)" by (simp add: main_turn_def p Let_def)
  let ?e = "if signal then SigHandler ?d else ?d"
  have "fds ?e = fds ?d" by (simp add: SigHandler_def)
  with z "2.prems"(3) have "\<not> time_to_quit ?e \<Longrightarrow> fst (snd (main_loop ts ?e)) = []"
    using "2.IH" [OF m [symmetric] refl] by simp
  with m show ?case by (auto simp: Let_def split: prod.splits)
qed simp

text \<open>
  When \<open>getaddrinfo\<close> fails, \<open>main\<close> goes on all the same: it polls without any
  socket, creates no thread whatever \<open>poll\<close> answers, and ends only at a signal.
\<close>

theorem failed_setup_serves_nothing:
  assumes "fds d = replicate 4 \<lparr>fd = 0, events = 0, revents = 0\<rparr>" and "\<not> time_to_quit d"
    and "\<forall>t \<in> set ts. length (snd (fst t)) = 4"
  shows "fst (snd (fd_main argv None ts d)) = [] \<and>
    (fst (fd_main argv None ts d) = Exits \<longleftrightarrow> (\<exists>t \<in> set ts. snd t))"
proof -
  let ?d0 = "if 1 < length argv \<and> argv ! 1 = ''-v'' then d\<lparr>verbose := True\<rparr> else d"
  obtain s d2 where sig: "SigInit ?d0 = (s, d2)" by fastforce
  define d1 where "d1 = Quit (if s = - 1 then Quit d2 else d2)"
  have "fds d2 = fds d" "time_to_quit d2 = time_to_quit d"
    using SigInit_fields [OF sig] by simp_all
  then have d1: "fd_main argv None ts d = main_loop ts d1" "fds d1 = fds d" "time_to_quit d1 = time_to_quit d"
    using sig by (simp_all add: fd_main_def SockInit_def Quit_def Let_def d1_def)
  have "fst (main_loop ts d1) = Exits \<longleftrightarrow> (\<exists>t \<in> set ts. snd t)" by (rule main_loop_exits) (simp add: d1 assms(2))
  with main_loop_idle [of d1 ts] d1 assms show ?thesis by simp
qed

end
