(* ===== verification/Client.thy ===== *)
theory Client
  imports Mihfd
begin

text \<open>
  The test client (\<open>client.c\<close>): its arguments set the service and the action of a header
  that is written to the daemon as it lies in memory. The answers of the system calls are
  arguments.
\<close>

section \<open>The code\<close>

text \<open>
  The header on the stack while the arguments are read: the two fields that they set, \<open>None\<close>
  as long as they are indeterminate.
\<close>

record client_header =
  c_sid :: "4 word option"
  c_aid :: "10 word option"

text \<open>\<open>atoi\<close>: leading blanks, a sign, and the digits up to the first other character.\<close>

definition digit_value :: "char \<Rightarrow> int option" where
  "digit_value c = (let k = of_char c :: int in if 48 \<le> k \<and> k \<le> 57 then Some (k - 48) else None)"

fun digits_value :: "int \<Rightarrow> string \<Rightarrow> int" where
  "digits_value n [] = n"
| "digits_value n (c # cs) = (case digit_value c of None \<Rightarrow> n | Some k \<Rightarrow> digits_value (10 * n + k) cs)"

fun atoi :: "string \<Rightarrow> int" where
  "atoi [] = 0"
| "atoi (c # cs) =
     (if c = CHR '' '' \<or> of_char c \<in> {9 :: int .. 13} then atoi cs
      else if c = CHR ''-'' then - digits_value 0 cs
      else if c = CHR ''+'' then digits_value 0 cs
      else digits_value 0 (c # cs))"

text \<open>
  The loop over \<open>argv[1..argc-1]\<close>. The argument of \<open>-a\<close> is the next one, which is a null
  pointer after the last: \<open>i < argc\<close> always holds there.
\<close>

fun client_args :: "string list \<Rightarrow> client_header \<Rightarrow> client_header cres" where
  "client_args [] h = Ok h"
| "client_args (a # as) h =
     (let h = (if a = ''-s'' then h\<lparr>c_sid := Some 1\<rparr> else h);
          h = (if a = ''-e'' then h\<lparr>c_sid := Some 2\<rparr> else h);
          h = (if a = ''-c'' then h\<lparr>c_sid := Some 3\<rparr> else h)
      in if a = ''-a''
         then (case as of
                 [] \<Rightarrow> Fault NullDeref
               | n # as \<Rightarrow> client_args as (h\<lparr>c_aid := Some (word_of_int (atoi n))\<rparr>))
         else client_args as h)"

text \<open>
  The system calls in the order they are made: \<open>socket\<close>, \<open>gethostbyname\<close> (whether it finds
  the host) and \<open>connect\<close>. \<open>write\<close> is given the structure as it lies in memory; bits that
  were never set make it indeterminate. The result is what was written.
\<close>

definition client_main :: "string list \<Rightarrow> int \<Rightarrow> bool \<Rightarrow> int \<Rightarrow> u8 list option cres" where
  "client_main argv sockfd found connected =
     (if length argv < 2 then Ok None
      else cbind (client_args (tl argv) \<lparr>c_sid = None, c_aid = None\<rparr>) (\<lambda>h.
        if sockfd < 0 then Ok None
        else if \<not> found then Ok None
        else if connected < 0 then Ok None
        else (case (c_sid h, c_aid h) of
            (Some s, Some a) \<Rightarrow>
              Ok (Some (header_bytes \<lparr>version = 1, ackreq = 0, ackrsp = 0, uir = 0, morefragment = 0,
                fragmentnumber = 0, rsvd1 = 0, sid = s, opcode = REQUEST, aid = a, rsvd2 = 0, tid = 0,
                payloadlength = 0\<rparr>))
          | _ \<Rightarrow> Fault Uninit)))"

section \<open>Numbers\<close>

fun decimal :: "nat \<Rightarrow> string" where
  "decimal n = (if n < 10 then [char_of (48 + n)] else decimal (n div 10) @ [char_of (48 + n mod 10)])"

declare decimal.simps [simp del]

definition is_digit :: "char \<Rightarrow> bool" where
  "is_digit c \<longleftrightarrow> digit_value c \<noteq> None"

lemma digit_value_digit: "k < 10 \<Longrightarrow> digit_value (char_of (48 + k)) = Some (int k)"
proof -
  assume "k < 10"
  have "(of_char (char_of (48 + k)) :: int) = int (of_char (char_of (48 + k)))"
    by (simp only: of_nat_of_char)
  also have "of_char (char_of (48 + k)) = 48 + k" using \<open>k < 10\<close> by simp
  finally have "(of_char (char_of (48 + k)) :: int) = 48 + int k" by simp
  with \<open>k < 10\<close> show ?thesis by (simp add: digit_value_def)
qed

lemma is_digit_digit: "k < 10 \<Longrightarrow> is_digit (char_of (48 + k :: nat))"
  by (simp add: is_digit_def digit_value_digit)

lemma digits_value_append:
  "list_all is_digit cs \<Longrightarrow> digits_value n (cs @ ds) = digits_value (digits_value n cs) ds"
  by (induction cs arbitrary: n) (auto simp: is_digit_def)

lemma decimal_digits: "list_all is_digit (decimal n)"
  by (induction n rule: decimal.induct) (subst decimal.simps, simp add: is_digit_digit)

lemma digits_value_decimal: "digits_value 0 (decimal n) = int n"
proof (induction n rule: decimal.induct)
  case (1 n)
  show ?case
  proof (cases "n < 10")
    case True
    then show ?thesis by (subst decimal.simps) (simp add: digit_value_digit)
  next
    case False
    then have "digits_value 0 (decimal n) = 10 * digits_value 0 (decimal (n div 10)) + int (n mod 10)"
      by (subst decimal.simps) (simp add: digits_value_append decimal_digits digit_value_digit)
    moreover have "int n = 10 * int (n div 10) + int (n mod 10)" by (simp add: zdiv_int zmod_int)
    ultimately show ?thesis using "1" [OF False] by simp
  qed
qed

lemma atoi_decimal: "atoi (decimal n) = int n"
proof -
  have "atoi cs = digits_value 0 cs" if "list_all is_digit cs" for cs
    using that by (cases cs) (auto simp: is_digit_def digit_value_def Let_def split: if_splits)
  then show ?thesis by (simp add: decimal_digits digits_value_decimal)
qed

section \<open>Client and daemon\<close>



text \<open>
  \<open>-a\<close> as the last argument makes the client follow the null pointer at the end
  of its argument vector.
\<close>

theorem client_trailing_option:
  assumes "''-a'' \<notin> set args"
  shows "client_main (prog # args @ [''-a'']) sockfd found connected = Fault NullDeref"
proof -
  have "client_args (args @ [''-a'']) h = Fault NullDeref" for h
    using assms by (induction args arbitrary: h) (auto simp: Let_def)
  then show ?thesis by (simp add: client_main_def)
qed

text \<open>Without \<open>-a\<close> the action that is written is indeterminate.\<close>

lemma client_action_unset:
  assumes "''-a'' \<notin> set args" and "args \<noteq> []" and "0 \<le> sockfd" and "0 \<le> connected"
  shows "client_main (prog # args) sockfd True connected = Fault Uninit"
proof -
  have "\<exists>h'. client_args args h = Ok h' \<and> c_aid h' = c_aid h" for h
    using assms(1)
  proof (induction args arbitrary: h)
    case (Cons a as)
    then have "\<exists>h'. client_args as g = Ok h' \<and> c_aid h' = c_aid g" for g by simp
    from this [of h] this [of "h\<lparr>c_sid := Some 1\<rparr>"] this [of "h\<lparr>c_sid := Some 2\<rparr>"] this [of "h\<lparr>c_sid := Some 3\<rparr>"]
      Cons.prems show ?case by (auto simp: Let_def)
  qed simp
  then obtain h' where "client_args args \<lparr>c_sid = None, c_aid = None\<rparr> = Ok h'" "c_aid h' = None" by fastforce
  with assms(2-4) show ?thesis by (cases args) (auto simp: client_main_def split: option.split)
qed

end
