(* ===== verification/Ksock.thy ===== *)
theory Ksock
  imports Net_Hand
begin

text \<open>
  Stream messages (\<open>ksock.c\<close>), compiled into the module and not called yet. The loops
  repeat until the kernel gives a final answer; the answers are an argument, and when they
  run out the call is still in its loop.
\<close>

section \<open>The code\<close>

abbreviation (input) ERESTARTSYS :: int where "ERESTARTSYS \<equiv> 512"
abbreviation (input) EAGAIN :: int where "EAGAIN \<equiv> 11"
abbreviation (input) EINPROGRESS :: int where "EINPROGRESS \<equiv> 115"
abbreviation (input) SNDBUF :: nat where "SNDBUF \<equiv> 1460"

text \<open>
  From \<open>repeat_send\<close> on: \<open>sock_sendmsg\<close> is given \<open>left\<close> bytes from \<open>written\<close> on and
  answers how many of them it took. The result is \<open>written\<close> at the end (\<open>None\<close> in the loop)
  and the bytes taken.
\<close>

fun repeat_send :: "mem \<Rightarrow> int list \<Rightarrow> int \<Rightarrow> int \<Rightarrow> mem \<Rightarrow> (int option \<times> mem) cres" where
  "repeat_send buf [] written left out = Ok (None, out)"
| "repeat_send buf (len # answers) written left out =
     (if length buf < nat written + size_of_int left then Fault OutOfBounds
      else if len = - ERESTARTSYS \<or> len = - EAGAIN then repeat_send buf answers written left out
      else if 0 < len
      then let out = out @ take (nat len) (drop (nat written) buf);
               written = int32 (written + len);
               left = int32 (left - len)
           in if left \<noteq> 0 then repeat_send buf answers written left out else Ok (Some written, out)
      else Ok (Some written, out))"

definition SendMsg :: "mem \<Rightarrow> nat \<Rightarrow> int list \<Rightarrow> world \<Rightarrow> (int option \<times> mem \<times> world) cres" where
  "SendMsg buf n answers w =
     (case sock_create None w of
        (s, ssocket, w) \<Rightarrow>
          if s < 0 then Ok (Some (- 1), [], w)
          else if s \<noteq> 0 \<and> s \<noteq> - EINPROGRESS then Ok (Some (- 1), [], w)
          else cbind (repeat_send buf answers 0 (int32 (int n)) []) (\<lambda>(written, out).
            case written of
              None \<Rightarrow> Ok (None, out, w)
            | Some written \<Rightarrow>
                (case ssocket of
                   None \<Rightarrow> Fault NullDeref
                 | Some sk \<Rightarrow>
                     cbind (sock_release sk w) (\<lambda>w.
                     Ok (Some (if size_of_int written = n then 1 else 0), out, w)))))"

text \<open>
  \<open>RecvMsg\<close> does not look at the length it is given: it offers \<open>SNDBUF\<close> bytes to the kernel.
  An answer is the bytes that arrive or an error.
\<close>

fun RecvMsg :: "mem \<Rightarrow> nat \<Rightarrow> (int + u8 list) list \<Rightarrow> (int \<times> mem) option cres" where
  "RecvMsg buf n [] = Ok None"
| "RecvMsg buf n (Inl e # answers) =
     (if e = - EAGAIN \<or> e = - ERESTARTSYS then RecvMsg buf n answers else Ok (Some (e, buf)))"
| "RecvMsg buf n (Inr bs # answers) =
     (let bs = take SNDBUF bs in
      if length buf < length bs then Fault OutOfBounds else Ok (Some (int (length bs), blit buf 0 bs)))"

section \<open>What is sent\<close>

text \<open>
  The contract of \<open>sock_sendmsg\<close>: it never takes more than it is offered.
\<close>

fun takes_offered :: "int list \<Rightarrow> int \<Rightarrow> bool" where
  "takes_offered [] left \<longleftrightarrow> True"
| "takes_offered (len # answers) left \<longleftrightarrow> len \<le> left \<and> takes_offered answers (if 0 < len then left - len else left)"

lemma int32_small: "0 \<le> x \<Longrightarrow> x < 2 ^ 31 \<Longrightarrow> int32 x = x"
  by (rule int32_id) simp_all

lemma size_of_int_small: "0 \<le> x \<Longrightarrow> x < 2 ^ 31 \<Longrightarrow> size_of_int x = nat x"
  by (simp add: size_of_int_def)

lemma taken_prefix: "take k buf @ take m (drop k buf) = take (k + m) buf"
  by (simp add: take_add)

lemma repeat_send_prefix:
  "repeat_send buf answers (int k) (int n - int k) (take k buf) = Ok (r, out) \<Longrightarrow> n \<le> length buf \<Longrightarrow>
   n < 2 ^ 31 \<Longrightarrow> k \<le> n \<Longrightarrow> takes_offered answers (int n - int k) \<Longrightarrow>
   \<exists>j \<le> n. out = take j buf \<and> (\<forall>z. r = Some z \<longrightarrow> z = int j)"
proof (induction answers arbitrary: k)
  case (Cons len answers)
  show ?case
  proof (cases "len = - ERESTARTSYS \<or> len = - EAGAIN")
    case True
    with Cons.prems Cons.IH [of k] show ?thesis by (auto split: if_splits)
  next
    case retry: False
    show ?thesis
    proof (cases "0 < len")
      case False
      with retry Cons.prems show ?thesis by (intro exI [of _ k]) (auto split: if_splits)
    next
      case True
      then have le: "len \<le> int n - int k" using Cons.prems(5) by simp
      have w: "int32 (int k + len) = int (k + nat len)" "int32 (int n - int k - len) = int n - int (k + nat len)"
        using True le Cons.prems(3,4) by (auto intro!: int32_small)
      have out: "take k buf @ take (nat len) (drop k buf) = take (k + nat len) buf" by (rule taken_prefix)
      show ?thesis
      proof (cases "k + nat len = n")
        case True
        with retry \<open>0 < len\<close> Cons.prems(1) w out show ?thesis
          by (intro exI [of _ n]) (auto simp: Let_def split: if_splits)
      next
        case False
        then have "repeat_send buf answers (int (k + nat len)) (int n - int (k + nat len)) (take (k + nat len) buf) =
            Ok (r, out)"
          using retry \<open>0 < len\<close> Cons.prems(1) w out by (auto simp: Let_def split: if_splits)
        then show ?thesis
          by (rule Cons.IH) (use Cons.prems(2,3,5) True le in \<open>simp_all add: algebra_simps\<close>)
      qed
    qed
  qed
qed auto

lemma repeat_send_all:
  "\<forall>a \<in> set answers. a = - ERESTARTSYS \<or> a = - EAGAIN \<or> 0 < a \<Longrightarrow>
   sum_list (filter (\<lambda>a. 0 < a) answers) = int n - int k \<Longrightarrow> k < n \<Longrightarrow> n \<le> length buf \<Longrightarrow> n < 2 ^ 31 \<Longrightarrow>
   repeat_send buf answers (int k) (int n - int k) (take k buf) = Ok (Some (int n), take n buf)"
proof (induction answers arbitrary: k)
  case (Cons len answers)
  have room: "\<not> length buf < k + size_of_int (int n - int k)"
    using Cons.prems(3-5) by (simp add: size_of_int_small)
  show ?case
  proof (cases "0 < len")
    case False
    with Cons room show ?thesis by simp
  next
    case True
    have "0 \<le> sum_list (filter (\<lambda>a. 0 < a) answers)" by (rule sum_list_nonneg) auto
    with Cons.prems(2) True have le: "len \<le> int n - int k" by simp
    have w: "int32 (int k + len) = int (k + nat len)" "int32 (int n - int k - len) = int n - int (k + nat len)"
      using True le Cons.prems(3,5) by (auto intro!: int32_small)
    have out: "take k buf @ take (nat len) (drop k buf) = take (k + nat len) buf" by (rule taken_prefix)
    show ?thesis
    proof (cases "k + nat len = n")
      case all: True
      with True room w out show ?thesis by (auto simp: Let_def)
    next
      case False
      have "repeat_send buf answers (int (k + nat len)) (int n - int (k + nat len)) (take (k + nat len) buf) =
          Ok (Some (int n), take n buf)"
        by (rule Cons.IH) (use Cons.prems True le False in \<open>simp_all add: algebra_simps\<close>)
      moreover have "int n - int (k + nat len) \<noteq> 0" using False by linarith
      ultimately show ?thesis using True room w out by (simp add: Let_def)
    qed
  qed
qed simp

text \<open>
  Property C23: a message that the kernel takes in any number of pieces, with any number of
  interruptions in between, is sent whole and in order, and \<open>SendMsg\<close> then answers 1 with its
  socket closed.
\<close>

theorem SendMsg_delivers:
  assumes "net_ret w (net_calls w) = 0" and "wf_socks w" and "0 < n" and "n \<le> length buf" and "n < 2 ^ 31"
    and "\<forall>a \<in> set answers. a = - ERESTARTSYS \<or> a = - EAGAIN \<or> 0 < a"
    and "sum_list (filter (\<lambda>a. 0 < a) answers) = int n"
  shows "\<exists>w'. SendMsg buf n answers w = Ok (Some 1, take n buf, w') \<and> open_socks w' = open_socks w"
proof -
  have "repeat_send buf answers 0 (int n) [] = Ok (Some (int n), take n buf)"
    using repeat_send_all [of answers n 0 buf] assms(3-7) by simp
  moreover have "net_calls w \<notin> open_socks w" using assms(2) by (auto simp: wf_socks_def)
  ultimately show ?thesis
    using assms(1,5) by (auto simp: SendMsg_def sock_create_def net_call_def Let_def int32_small size_of_int_small
        sock_release_def)
qed

theorem SendMsg_delivers_witness:
  "\<exists>w'. SendMsg (map Some [1, 2, 3]) 3 [- 11, 2, - 512, 1] world0 = Ok (Some 1, map Some [1, 2, 3], w')"
proof -
  have "\<exists>w'. SendMsg (map Some [1, 2, 3]) 3 [- 11, 2, - 512, 1] world0 = Ok (Some 1, take 3 (map Some [1, 2, 3]), w') \<and>
      open_socks w' = open_socks world0"
    by (rule SendMsg_delivers) (simp_all add: world0_def wf_socks_def)
  then show ?thesis by auto
qed



text \<open>
  \<open>RecvMsg\<close> ignores the length of the buffer it is given: more bytes than the
  buffer has room for are written past its end.
\<close>

theorem RecvMsg_overruns:
  assumes "length buf < length bs" and "length buf < 1460"
    and "\<forall>a \<in> set retries. a = Inl (- EAGAIN) \<or> a = Inl (- ERESTARTSYS)"
  shows "RecvMsg buf (length buf) (retries @ Inr bs # answers) = Fault OutOfBounds"
  using assms(3,1,2) by (induction retries) auto

text \<open>With room for a whole segment it returns what arrived.\<close>

lemma RecvMsg_receives:
  assumes "1460 \<le> length buf" and "\<forall>a \<in> set retries. a = Inl (- EAGAIN) \<or> a = Inl (- ERESTARTSYS)"
  shows "RecvMsg buf n (retries @ Inr bs # answers) =
    Ok (Some (int (min (length bs) 1460), blit buf 0 (take 1460 bs)))"
  using assms(2,1) by (induction retries) (auto simp: min_def)

end
