(* ===== verification/Spec2Isabelle.thy ===== *)
theory Spec2Isabelle
  imports Mih_Unload Mih_Codes Client Ksock
begin

text \<open>
  Media independent handover (IEEE 802.21): a Linux kernel module that answers requests of
  other nodes and reports link events, and a user-level daemon with a test client. This
  development models the C code of both and proves what makes it work, and where it does
  not.

  \<^bold>\<open>The program.\<close> \<open>mih_mod.c\<close> loads the module: two task queues (\<open>queue.h\<close>), an executor thread
  for each, a thread that receives datagrams (\<open>net_hand.c\<close>) and two notifiers
  (\<open>dev_mon.c\<close>). A datagram becomes a \<open>handle_message\<close> task of the MIHF queue. It is unpacked
  (\<open>message.c\<close>) and processed (\<open>proto.c\<close>); if it asks for an acknowledgement one is put on
  the dispatch queue as a \<open>handle_udp_reply\<close> task, which packs and sends it. A change of a
  device becomes an indication task (\<open>mih_link_sap.c\<close>). The daemon \<open>mihfd.c\<close> is a separate
  program with its own copy of the protocol, and \<open>client.c\<close> talks to it.

  \<^bold>\<open>The model.\<close> Code is a function to \<open>'a cres\<close> (\<open>Mih_Prelude\<close>): a value, or a fault for
  undefined behaviour (a read or write outside a block, an indeterminate value, a null
  pointer, a release of what is not allocated) and for a call that never returns. Bytes
  are words of 8 bits in buffers whose cells may be unwritten; integers have their C width
  where they can wrap around. The heap is a ledger of allocated blocks (\<open>Mih_Kernel\<close>); which
  allocations fail, what the network delivers and what the kernel and the system calls
  answer are parameters, and theorems hold for all of them unless they say otherwise.

  \<^item> \<open>Mih_Types\<close>: the constants and structures of \<open>mih.h\<close> and \<open>data.h\<close>, the bit-fields of the
    header as words of their width.
  \<^item> \<open>Message_Header\<close>, \<open>Message_Length\<close>, \<open>Message_Tlv\<close>, \<open>Message\<close>: \<open>message.c\<close>. The codecs
    at byte level, with reference encodings (\<open>enc_header\<close> and its like), round trips, no
    overrun and no leak, and the lengths beyond which the round trip is lost. The two loops
    of the length field are a \<open>partial_function\<close> and a \<open>function\<close> with a measure; both are
    shown to end.
  \<^item> \<open>Mih_World\<close>: the state the threads share. \<open>Task_Queue\<close>: \<open>queue.h\<close>; the operations, and
    the interleavings of producers, executor and signals as the step relation \<open>queue_step\<close>
    over parts of the same operations. The executor loop has fuel: one turn more than units
    of the semaphore is shown to be enough.
  \<^item> \<open>Proto\<close>: \<open>proto.c\<close> and \<open>mih_sap.c\<close>; the handlers against the table \<open>accepts\<close>, and the
    acknowledgement.
  \<^item> \<open>Net_Hand\<close>: \<open>net_hand.c\<close>; every task releases what it owns and closes its socket.
    \<open>Dev_Mon\<close>: \<open>dev_mon.c\<close> and the indications of \<open>mih_link_sap.c\<close>.
  \<^item> \<open>Mih_System\<close>: the module as a whole. A state is a \<open>module_run\<close>: the world, the buffer
    the UDP thread keeps for its next turn and the senders of what it received; a step
    (\<open>module_moves\<close>) is a turn of the UDP thread, a notification, the end of that thread or
    of an executor, or one task of an executor. \<open>module_inv\<close> is its ownership invariant.
    \<open>Exchange\<close>: a queued request up to the datagram that answers it. \<open>Mih_Safety\<close>: no double
    release and no self-deadlock in any reachable state.
  \<^item> \<open>Mih_Service\<close>: what the module promises, as an abstract machine with an inbox, an
    outbox and a wire (\<open>serves\<close>); every run of the module is a run of that machine, and so
    replies go to the senders, in order, and are no more than the requests. A datagram is
    followed from its arrival to the answer. \<open>Mih_Memory\<close>: what the executors release and
    what a run loses. \<open>Mih_Unload\<close>: unloading with work still queued.
  \<^item> \<open>Mih_Mod\<close>: \<open>mih_mod.c\<close>, the waiting threads and \<open>ho_eng.c\<close>. \<open>Ksock\<close>: \<open>ksock.c\<close>.
  \<^item> \<open>C_Layout\<close>: sizes, alignments and offsets of C types. \<open>Mih_Layout\<close>: the typedefs,
    structures and unions of \<open>mih.h\<close> and of the other files as such types. \<open>Mih_Objects\<close>: the
    allocations of the code are as large as the layout says, assignments through pointers
    stay inside their blocks, and the daemon reads the header where the compiler puts it.
    \<open>Mih_Codes\<close>: the tables of codes of \<open>mih.h\<close> and the capabilities of \<open>data.h\<close>.
  \<^item> \<open>Mihfd_Dispatch\<close>, \<open>Mihfd\<close>: \<open>mihfd.c\<close>. The daemon reads headers through the memory
    layout of the structure; the layout taken is that of gcc on x86. Its functions have the
    names of \<open>proto.c\<close> and carry the prefix \<open>fd\<close>. \<open>Client\<close>: \<open>client.c\<close>, and client and daemon
    together.

  This theory has the properties of the queues under all interleavings and of the module as
  a whole. The interfaces are locales, each interpreted on the model:
  \<open>length_field\<close> (what a codec of lengths promises), \<open>task_runner\<close> (what the queue expects of
  the functions it runs), \<open>pdu_handler\<close> and \<open>action_handler\<close> (the contract of the handlers of
  the module and of the daemon), \<open>refinement\<close> (a machine with an invariant, mapped to an abstract
  one) and \<open>managed_fault\<close> (faults that code on bytes cannot cause).

  \<^bold>\<open>Not modelled.\<close> Output (\<open>printk\<close>, \<open>printf\<close>, \<open>perror\<close>), except what the daemon prints of a
  request; the module parameter; locks and preemption beyond the points where the queue
  operations can interleave (the module as a whole interleaves turns of its threads); the
  variables of \<open>data.h\<close> that nothing reads or writes; \<open>ext_types.h\<close>, copies of kernel
  declarations that no file includes; \<open>mih_protocol.c\<close>, which \<open>mihfd.c\<close> includes and the
  repository does not have. The layout of the structures is that of a 64-bit machine with
  the low byte first; structures of the kernel that occur in others (\<open>list_head\<close>,
  \<open>sockaddr\<close>) are given the layout of the kernel's headers there.
\<close>

section \<open>Task queues under all interleavings\<close>

text \<open>
  A queue with one task linked whose semaphore is not yet raised, and a queue whose
  executor has been stopped, for examples.
\<close>

lemma started_queue:
  "queue_reachable call_handler (queue_admits MIHF) MIHF signals
     \<lparr>state = world0, unposted = 0, executor = Idle, queued = [], taken = []\<rparr>"
  by (rule queue_reachable.start) (simp add: queue_start_def world0_def)

lemma sample_link:
  "link_task MIHF f p world0 = Ok (world0\<lparr>kheap := \<lparr>kh_next = 1, kh_live = {0}, kh_ok = \<lambda>i n. True\<rparr>,
     mihf_queue := \<lparr>tasks = [\<lparr>qt_blk = 0, qt_task = f, qt_parameter = p\<rparr>], sem = 0, locked = False\<rparr>\<rparr>)"
  by (simp add: link_task_def w_alloc_def w_kmalloc_def kmalloc_def heap0_def spin_lock_def
      spin_unlock_def list_add_tail_def world0_def)

lemma sample_queue:
  assumes "mihf_admits f \<or> f = poison_task"
  shows "queue_reachable call_handler (queue_admits MIHF) MIHF signals
    \<lparr>state = world0\<lparr>kheap := \<lparr>kh_next = 1, kh_live = {0}, kh_ok = \<lambda>i n. True\<rparr>,
       mihf_queue := \<lparr>tasks = [\<lparr>qt_blk = 0, qt_task = f, qt_parameter = p\<rparr>], sem = 0, locked = False\<rparr>\<rparr>,
     unposted = 1, executor = Idle, queued = [(f, p)], taken = []\<rparr>"
  using queue_reachable.step [OF started_queue [of signals] queue_step.link [of "queue_admits MIHF" f MIHF p]]
    sample_link [of f p] assms by simp

lemma stopped_queue:
  "\<exists>s. queue_reachable call_handler (queue_admits MIHF) MIHF signals s \<and> executor s = Stopped \<and>
     queued s = [(poison_task, NULL)]"
proof -
  let ?R = "queue_reachable call_handler (queue_admits MIHF) MIHF signals"
  let ?t = "\<lparr>qt_blk = 0, qt_task = poison_task, qt_parameter = NULL\<rparr>"
  let ?w = "\<lambda>n. world0\<lparr>kheap := \<lparr>kh_next = 1, kh_live = {0}, kh_ok = \<lambda>i n. True\<rparr>,
    mihf_queue := \<lparr>tasks = [?t], sem = n, locked = False\<rparr>\<rparr>"
  let ?s = "\<lambda>n u e. \<lparr>state = ?w n, unposted = u, executor = e, queued = [(poison_task, NULL)], taken = []\<rparr>"
  have "?R (?s 0 1 Idle)" by (rule sample_queue) simp
  from queue_reachable.step [OF this queue_step.post] have "?R (?s 1 0 Idle)" by (simp add: up_def)
  from queue_reachable.step [OF this queue_step.acquire] have woken: "?R (?s 0 0 Woken)"
    by (simp add: down_killable_def)
  let ?w' = "world0\<lparr>kheap := \<lparr>kh_next = 1, kh_live = {}, kh_ok = \<lambda>i n. True\<rparr>,
    mihf_queue := \<lparr>tasks = [], sem = 0, locked = False\<rparr>\<rparr>"
  have "take_task call_handler MIHF (?w 0) = Ok (0, ?w')"
    by (simp add: take_task_def spin_lock_def spin_unlock_def w_kfree_def kfree_def)
  then show ?thesis using queue_reachable.step [OF woken queue_step.run] by fastforce
qed

text \<open>
  Property C5: tasks are taken from a queue in the order in which they were queued, each
  once: at any time what was queued is what was taken followed by what is still on the
  queue, for every interleaving of the producers, the executor and fatal signals.
\<close>

theorem queue_fifo:
  assumes "queue_reachable call_handler (queue_admits r) r signals s"
  shows "queued s = taken s @ map as_call (tasks (queue_of r (state s)))"
  using assms by (rule module_queue.reachable_fifo)

theorem queue_fifo_witness:
  "\<exists>s. queue_reachable call_handler (queue_admits MIHF) MIHF True s \<and> queued s \<noteq> [] \<and>
     map as_call (tasks (mihf_queue (state s))) = queued s"
proof -
  have "mihf_admits Addr_handle_connection \<or> Addr_handle_connection = poison_task"
    by (simp add: mihf_admits_def)
  note s = sample_queue [OF this, of True "Connection None"]
  show ?thesis by (rule exI, intro conjI, rule s) (use queue_fifo [OF s] in simp_all)
qed

text \<open>
  Property C16: no wake-up is lost. While tasks are on a queue whose executor has not
  stopped, the executor is awake, or can be woken by the semaphore, or a producer is about
  to raise it; fatal signals do not change that.
\<close>

theorem queue_no_lost_wakeup:
  assumes "queue_reachable call_handler (queue_admits r) r signals s"
    and "tasks (queue_of r (state s)) \<noteq> []" and "executor s \<noteq> Stopped"
  shows "executor s = Woken \<or> 0 < sem (queue_of r (state s)) \<or> 0 < unposted s"
  using assms by (rule module_queue.reachable_wakeup)

theorem queue_no_lost_wakeup_witness:
  "\<exists>s. queue_reachable call_handler (queue_admits MIHF) MIHF True s \<and>
     tasks (mihf_queue (state s)) \<noteq> [] \<and> (0 < sem (mihf_queue (state s)) \<or> 0 < unposted s)"
proof -
  have "mihf_admits poison_task \<or> poison_task = poison_task" by simp
  note s = sample_queue [OF this, of True NULL]
  show ?thesis by (rule exI, intro conjI, rule s) (use queue_no_lost_wakeup [OF s] in simp_all)
qed

text \<open>
  Property C17: as long as no fatal signal interrupts the semaphore, an executor that
  passes it finds a task: the count of the semaphore, the producers about to raise it and
  the unit the executor holds add up to the number of queued tasks.
\<close>

theorem queue_semaphore_exact:
  assumes "queue_reachable call_handler (queue_admits r) r False s"
  shows "length (tasks (queue_of r (state s)))
     = sem (queue_of r (state s)) + unposted s + (if executor s = Woken then 1 else 0)"
  using module_queue.reachable_exact [OF assms] by (simp add: exact_count_def wakeups_def)

theorem queue_semaphore_exact_witness:
  "\<exists>s. queue_reachable call_handler (queue_admits MIHF) MIHF False s \<and>
     sem (mihf_queue (state s)) + unposted s = 1"
proof -
  have "mihf_admits poison_task \<or> poison_task = poison_task" by simp
  note s = sample_queue [OF this, of False NULL]
  show ?thesis by (rule exI, intro conjI, rule s) (use queue_semaphore_exact [OF s] in simp)
qed

text \<open>
  Property C18: an executor that has stopped has taken exactly the tasks queued before the
  first poison, and that poison; whatever is queued later is never taken.
\<close>

theorem queue_stops_at_poison:
  assumes "queue_reachable call_handler (queue_admits r) r signals s" and "executor s = Stopped"
  shows "(\<exists>p. taken s = takeWhile (\<lambda>c. fst c \<noteq> poison_task) (queued s) @ [(poison_task, p)]) \<and>
    (\<forall>s'. queue_step call_handler (queue_admits r) r signals s s' \<longrightarrow> executor s' = Stopped \<and> taken s' = taken s)"
  using module_queue.reachable_stopped [OF assms] module_queue.stopped_takes_nothing assms(2) by blast

theorem queue_stops_at_poison_witness:
  "\<exists>s p. queue_reachable call_handler (queue_admits MIHF) MIHF False s \<and> executor s = Stopped \<and>
     taken s = [(poison_task, p)]"
proof -
  obtain s where s: "queue_reachable call_handler (queue_admits MIHF) MIHF False s"
    "executor s = Stopped" "queued s = [(poison_task, NULL)]"
    using stopped_queue by blast
  from queue_stops_at_poison [OF s(1,2)] s show ?thesis by auto
qed

text \<open>
  Property C19: the executor's loop does not run forever on a queue nobody adds to. With
  one turn more than units of the semaphore it has either stopped waiting for the
  semaphore or returned; when it returns, the queue has been consumed up to and including
  the first poison.
\<close>

theorem executor_loop_ends:
  assumes "\<forall>t \<in> set (tasks (queue_of r w)). queue_admits r (qt_task t) \<or> qt_task t = poison_task"
    and "sem (queue_of r w) < n" and "task_executor call_handler r n w = Ok e"
  shows "(\<exists>w'. e = Waits w') \<or>
    (\<exists>w' pre t. e = Returns w' \<and> tasks (queue_of r w) = pre @ t # tasks (queue_of r w') \<and>
       qt_task t = poison_task \<and> (\<forall>u \<in> set pre. qt_task u \<noteq> poison_task))"
  using assms by (rule module_queue.executor_ends)

theorem executor_loop_ends_witness:
  "\<exists>w'. task_executor call_handler MIHF 2 (world0\<lparr>kheap := \<lparr>kh_next = 1, kh_live = {0}, kh_ok = \<lambda>i n. True\<rparr>,
     mihf_queue := \<lparr>tasks = [\<lparr>qt_blk = 0, qt_task = poison_task, qt_parameter = NULL\<rparr>], sem = 1,
       locked = False\<rparr>\<rparr>) = Ok (Returns w') \<and> tasks (mihf_queue w') = []"
proof -
  let ?w = "world0\<lparr>kheap := \<lparr>kh_next = 1, kh_live = {0}, kh_ok = \<lambda>i n. True\<rparr>,
     mihf_queue := \<lparr>tasks = [\<lparr>qt_blk = 0, qt_task = poison_task, qt_parameter = NULL\<rparr>], sem = 1,
       locked = False\<rparr>\<rparr>"
  have "\<exists>w'. task_executor call_handler MIHF 2 ?w = Ok (Returns w')"
    by (simp add: numeral_2_eq_2 execute_task_def down_killable_def take_task_def spin_lock_def
        spin_unlock_def w_kfree_def kfree_def)
  then obtain w' where "task_executor call_handler MIHF 2 ?w = Ok (Returns w')" by blast
  with executor_loop_ends [of MIHF ?w 2] show ?thesis by (auto simp: Cons_eq_append_conv)
qed

section \<open>Ownership in the whole module\<close>

text \<open>
  Property C4: in every state the module can reach, whichever way its threads are
  interleaved, the tasks on both queues own disjoint sets of blocks, all of them
  allocated; every task has a parameter of the type its function expects and stands on a
  queue that function belongs to; the reply handler of a received message names a function
  of the dispatch queue; and what the UDP thread keeps for its next turn is allocated and
  belongs to no task. Each turn of the UDP thread, each notification, each stop and each
  call of \<open>execute_task\<close> keeps this, whatever arrives, whichever allocations fail and
  whatever the kernel answers.
\<close>

theorem module_keeps_ownership:
  assumes "module_reachable s"
  shows "world_inv (mr_world s) \<and> spare (mr_world s) (reusing (mr_reuse s))"
  using module_reachable_inv [OF assms] by (simp add: module_inv_def)

theorem module_keeps_ownership_witness:
  "\<exists>s. module_reachable s \<and> world_inv (mr_world s) \<and> tasks (mihf_queue (mr_world s)) \<noteq> []"
proof -
  obtain w where w: "module_reachable (run0\<lparr>mr_world := w\<rparr>)" "queues_link world0 Addr_Link_Up_indication sample_device w"
    by (rule notified_reachable)
  have "tasks (mihf_queue w) \<noteq> []" using w(2) by (auto simp: queues_link_def)
  with module_keeps_ownership [OF w(1)] w(1) show ?thesis by (intro exI [of _ "run0\<lparr>mr_world := w\<rparr>"]) simp
qed

end
